(* ===== verification/Prelude.thy ===== *)
theory Prelude
  imports Main "HOL-Library.Word"
begin

text \<open>
  The vocabulary every component shares: how a C function can fail, the C library's
  character and string functions the programs call, and the generic lemmas on lists
  that the components use.

  A C string is the list of its characters before the terminating NUL. A function that
  can end its process or thread, or that does something C leaves undefined, returns
  \<open>Inl\<close> of a \<open>fault\<close>; every other result is \<open>Inr\<close>.
\<close>

section \<open>Faults\<close>

datatype fault =
    Exit_failure string
  | Thread_exit string
  | Null_deref
  | Out_of_bounds
  | Use_after_free
  | Buffer_overflow
  | Signed_overflow
  | Uninit_read
  | Blocked
  | Division_by_zero

type_synonym 'a res = "fault + 'a"

definition rbind :: "'a res \<Rightarrow> ('a \<Rightarrow> 'b res) \<Rightarrow> 'b res" where
  "rbind r f = (case r of Inl e \<Rightarrow> Inl e | Inr x \<Rightarrow> f x)"

lemma rbind_simps [simp]:
  "rbind (Inl e) f = Inl e"
  "rbind (Inr x) f = f x"
  by (simp_all add: rbind_def)

lemma rbind_Inr_iff: "rbind r f = Inr y \<longleftrightarrow> (\<exists>x. r = Inr x \<and> f x = Inr y)"
  by (cases r) simp_all

lemma rbind_Inl_iff: "rbind r f = Inl e \<longleftrightarrow> r = Inl e \<or> (\<exists>x. r = Inr x \<and> f x = Inl e)"
  by (cases r) simp_all

lemma rbind_cong [fundef_cong]:
  "r = r' \<Longrightarrow> (\<And>x. r' = Inr x \<Longrightarrow> f x = g x) \<Longrightarrow> rbind r f = rbind r' g"
  by (cases r') simp_all

lemma rbind_split:
  "P (rbind r f) \<longleftrightarrow> (\<forall>e. r = Inl e \<longrightarrow> P (Inl e)) \<and> (\<forall>x. r = Inr x \<longrightarrow> P (f x))"
  by (cases r) simp_all

lemma rbind_split_asm:
  "P (rbind r f) \<longleftrightarrow>
     \<not> ((\<exists>e. r = Inl e \<and> \<not> P (Inl e)) \<or> (\<exists>x. r = Inr x \<and> \<not> P (f x)))"
  by (cases r) simp_all

lemmas rbind_splits = rbind_split rbind_split_asm

section \<open>Characters\<close>

abbreviation NUL :: char where "NUL \<equiv> CHR 0x00"
abbreviation NL :: char where "NL \<equiv> CHR 0x0A"
abbreviation SP :: char where "SP \<equiv> CHR 0x20"

definition code :: "char \<Rightarrow> nat" where
  "code c = of_char c"

definition isspace :: "char \<Rightarrow> bool" where
  "isspace c \<longleftrightarrow> c = SP \<or> (9 \<le> code c \<and> code c \<le> 13)"

definition isdigit :: "char \<Rightarrow> bool" where
  "isdigit c \<longleftrightarrow> 48 \<le> code c \<and> code c \<le> 57"

definition isalnum :: "char \<Rightarrow> bool" where
  "isalnum c \<longleftrightarrow> isdigit c \<or> (65 \<le> code c \<and> code c \<le> 90) \<or> (97 \<le> code c \<and> code c \<le> 122)"

definition digit_char :: "nat \<Rightarrow> char" where
  "digit_char d = char_of (48 + d)"

definition digit_val :: "char \<Rightarrow> int" where
  "digit_val c = int (code c) - 48"

lemma code_digit_char: "d < 10 \<Longrightarrow> code (digit_char d) = 48 + d"
  by (simp add: code_def digit_char_def)

lemma isdigit_digit_char [simp]: "d < 10 \<Longrightarrow> isdigit (digit_char d)"
  by (simp add: isdigit_def code_digit_char)

lemma digit_val_digit_char [simp]: "d < 10 \<Longrightarrow> digit_val (digit_char d) = int d"
  by (simp add: digit_val_def code_digit_char)

lemma isdigit_not_isspace: "isdigit c \<Longrightarrow> \<not> isspace c"
  by (auto simp: isdigit_def isspace_def code_def)

lemma isdigit_neq:
  "isdigit c \<Longrightarrow> c \<noteq> CHR ''-''" "isdigit c \<Longrightarrow> c \<noteq> CHR ''+''" "isdigit c \<Longrightarrow> c \<noteq> CHR ''.''"
  "isdigit c \<Longrightarrow> c \<noteq> SP" "isdigit c \<Longrightarrow> c \<noteq> NL" "isdigit c \<Longrightarrow> c \<noteq> NUL" "isdigit c \<Longrightarrow> c \<noteq> CHR ''|''"
  "isdigit c \<Longrightarrow> c \<noteq> CHR ''*''"
  by (auto simp: isdigit_def code_def)

lemma digit_val_bounds: "isdigit c \<Longrightarrow> 0 \<le> digit_val c \<and> digit_val c \<le> 9"
  by (auto simp: isdigit_def digit_val_def)

section \<open>The integers of C\<close>

text \<open>\<open>int\<close> is 32 bits wide; signed overflow is undefined.\<close>

definition in_int :: "int \<Rightarrow> bool" where
  "in_int v \<longleftrightarrow> -2147483648 \<le> v \<and> v \<le> 2147483647"

definition cint :: "int \<Rightarrow> int res" where
  "cint v = (if in_int v then Inr v else Inl Signed_overflow)"

text \<open>Conversion of a wider value to \<open>int\<close> keeps its low 32 bits.\<close>

definition to_int32 :: "int \<Rightarrow> int" where
  "to_int32 v = (v + 2147483648) mod 4294967296 - 2147483648"

lemma to_int32_id: "in_int v \<Longrightarrow> to_int32 v = v"
  by (simp add: to_int32_def in_int_def)

lemma to_int32_range: "in_int (to_int32 v)"
proof -
  have "0 \<le> (v + 2147483648) mod 4294967296" "(v + 2147483648) mod 4294967296 < 4294967296"
    by simp_all
  then show ?thesis by (simp add: to_int32_def in_int_def)
qed

text \<open>The remainder of C truncates towards zero: it has the sign of the dividend.\<close>

definition cmod :: "int \<Rightarrow> int \<Rightarrow> int" where
  "cmod a b = sgn a * (\<bar>a\<bar> mod \<bar>b\<bar>)"

lemma cmod_nonneg: "0 \<le> a \<Longrightarrow> 0 < b \<Longrightarrow> cmod a b = a mod b"
  by (cases "a = 0") (simp_all add: cmod_def)

section \<open>Numbers as strings: \<open>%d\<close> and \<open>atoi\<close>\<close>

fun show_nat :: "nat \<Rightarrow> string" where
  "show_nat n = (if n < 10 then [digit_char n] else show_nat (n div 10) @ [digit_char (n mod 10)])"

declare show_nat.simps [simp del]

definition show_int :: "int \<Rightarrow> string" where
  "show_int v = (if v < 0 then CHR ''-'' # show_nat (nat (- v)) else show_nat (nat v))"

text \<open>The value of the longest prefix of digits, continued from \<open>acc\<close>.\<close>

fun digits_val :: "int \<Rightarrow> string \<Rightarrow> int" where
  "digits_val acc [] = acc"
| "digits_val acc (c # cs) = (if isdigit c then digits_val (acc * 10 + digit_val c) cs else acc)"

text \<open>
  \<open>atoi\<close> is \<open>(int) strtol (s, NULL, 10)\<close>: white space, an optional sign, digits; the value
  is clamped to \<open>long\<close> and then truncated to \<open>int\<close>.
\<close>

definition atoi :: "string \<Rightarrow> int" where
  "atoi s =
     (let t = dropWhile isspace s;
          v = (case t of
                 [] \<Rightarrow> 0
               | c # cs \<Rightarrow>
                   if c = CHR ''-'' then - digits_val 0 cs
                   else if c = CHR ''+'' then digits_val 0 cs
                   else digits_val 0 (c # cs))
      in to_int32 (max (- (2 ^ 63)) (min (2 ^ 63 - 1) v)))"

lemma show_nat_nonempty [simp]: "show_nat n \<noteq> []"
  by (subst show_nat.simps) simp

lemma show_nat_digits: "\<forall>c \<in> set (show_nat n). isdigit c"
proof (induction n rule: show_nat.induct)
  case (1 n)
  then show ?case by (subst show_nat.simps) auto
qed

lemma digits_val_append:
  "\<forall>c \<in> set xs. isdigit c \<Longrightarrow> digits_val acc (xs @ ys) = digits_val (digits_val acc xs) ys"
  by (induction xs arbitrary: acc) auto

lemma digits_val_show_nat: "digits_val 0 (show_nat n) = int n"
proof (induction n rule: show_nat.induct)
  case (1 n)
  show ?case
  proof (cases "n < 10")
    case True
    then show ?thesis by (subst show_nat.simps) simp
  next
    case False
    with 1 have "digits_val 0 (show_nat (n div 10)) = int (n div 10)" by simp
    with False show ?thesis
      by (subst show_nat.simps) (simp add: digits_val_append show_nat_digits zdiv_int zmod_int)
  qed
qed

lemma digits_val_mono:
  "\<forall>c \<in> set ds. isdigit c \<Longrightarrow> 0 \<le> acc \<Longrightarrow> acc \<le> digits_val acc ds"
proof (induction ds arbitrary: acc)
  case Nil
  then show ?case by simp
next
  case (Cons d ds)
  then have "0 \<le> digit_val d" using digit_val_bounds by simp
  with Cons have "acc * 10 + digit_val d \<le> digits_val (acc * 10 + digit_val d) ds" by simp
  with Cons.prems \<open>0 \<le> digit_val d\<close> show ?case by simp
qed

lemma cint_digit_step:
  assumes "\<forall>c \<in> set (d # ds). isdigit c" "0 \<le> acc" "digits_val acc (d # ds) + 48 \<le> 2147483647"
  shows "cint (acc * 10 + int (code d)) = Inr (acc * 10 + digit_val d + 48)"
    and "0 \<le> acc * 10 + digit_val d" and "digits_val (acc * 10 + digit_val d) ds + 48 \<le> 2147483647"
proof -
  have d: "isdigit d" using assms(1) by simp
  show nn: "0 \<le> acc * 10 + digit_val d" using assms(2) digit_val_bounds [OF d] by simp
  have "acc * 10 + digit_val d \<le> digits_val (acc * 10 + digit_val d) ds"
    using assms(1) nn by (intro digits_val_mono) simp_all
  with assms(3) d nn have "in_int (acc * 10 + int (code d))"
    by (simp add: in_int_def digit_val_def)
  then show "cint (acc * 10 + int (code d)) = Inr (acc * 10 + digit_val d + 48)"
    by (simp add: cint_def digit_val_def)
  show "digits_val (acc * 10 + digit_val d) ds + 48 \<le> 2147483647" using assms(3) d by simp
qed

lemma show_nat_Cons: "\<exists>c cs. show_nat n = c # cs \<and> isdigit c"
  using show_nat_digits [of n] by (cases "show_nat n") auto

lemma atoi_digits_then:
  assumes "int n \<le> 2147483647" and "\<And>c cs. ys = c # cs \<Longrightarrow> \<not> isdigit c"
  shows "atoi (show_nat n @ ys) = int n"
proof -
  obtain c cs where c: "show_nat n = c # cs" "isdigit c" using show_nat_Cons by blast
  have "digits_val 0 (show_nat n @ ys) = int n"
    using assms(2) by (cases ys) (auto simp: digits_val_append show_nat_digits digits_val_show_nat)
  with c assms(1) show ?thesis
    by (auto simp: atoi_def isdigit_not_isspace isdigit_neq Let_def in_int_def to_int32_id)
qed

lemma atoi_show_int: "in_int v \<Longrightarrow> atoi (show_int v) = v"
proof (cases "v < 0")
  case True
  assume "in_int v"
  moreover have "\<not> isspace CHR ''-''" by (simp add: isspace_def code_def)
  ultimately show ?thesis using True
    by (simp add: show_int_def atoi_def digits_val_show_nat in_int_def to_int32_id)
next
  case False
  assume "in_int v"
  with False show ?thesis
    using atoi_digits_then [of "nat v" "[]"] by (simp add: show_int_def in_int_def)
qed

section \<open>Strings: \<open>strtok\<close>, \<open>strsep\<close>, \<open>strchr\<close>, \<open>strcpy\<close>\<close>

text \<open>
  \<open>strtok\<close> on the text still to be read: leading delimiters are skipped; \<open>None\<close> (NULL) when
  nothing is left, otherwise the token and the text after its delimiter.
\<close>

definition strtok :: "char list \<Rightarrow> string \<Rightarrow> (string \<times> string) option" where
  "strtok ds s =
     (let t = dropWhile (\<lambda>c. c \<in> set ds) s
      in if t = [] then None
         else Some (takeWhile (\<lambda>c. c \<notin> set ds) t, drop 1 (dropWhile (\<lambda>c. c \<notin> set ds) t)))"

text \<open>\<open>strsep\<close> of a non-NULL pointer: the token and the pointer afterwards (\<open>None\<close> is NULL).\<close>

definition strsep :: "char \<Rightarrow> string \<Rightarrow> string \<times> string option" where
  "strsep d s =
     (case dropWhile (\<lambda>c. c \<noteq> d) s of
        [] \<Rightarrow> (s, None)
      | _ # r \<Rightarrow> (takeWhile (\<lambda>c. c \<noteq> d) s, Some r))"

text \<open>\<open>strchr\<close> as an index.\<close>

fun strchr :: "string \<Rightarrow> char \<Rightarrow> nat option" where
  "strchr [] d = None"
| "strchr (c # cs) d = (if c = d then Some 0 else map_option Suc (strchr cs d))"

text \<open>\<open>strcpy\<close> into an array of \<open>cap\<close> characters: it needs room for the NUL.\<close>

definition strcpy_to :: "nat \<Rightarrow> string \<Rightarrow> string res" where
  "strcpy_to cap s = (if length s < cap then Inr s else Inl Buffer_overflow)"

lemma strtok_rest_shorter:
  assumes "strtok ds s = Some (t, r)"
  shows "length r < length s"
proof -
  define u where "u = dropWhile (\<lambda>c. c \<in> set ds) s"
  define v where "v = dropWhile (\<lambda>c. c \<notin> set ds) u"
  from assms have u: "u \<noteq> []" and r: "r = drop 1 v"
    by (auto simp: strtok_def Let_def u_def v_def split: if_splits)
  have "length v \<le> length u" "length u \<le> length s"
    unfolding u_def v_def by (rule length_dropWhile_le)+
  moreover have "0 < length u" using u by simp
  ultimately have "length v - 1 < length s" by linarith
  then show ?thesis unfolding r by simp
qed

lemma strtok_token:
  assumes "strtok ds s = Some (t, r)"
  shows "t \<noteq> []" and "\<forall>c \<in> set t. c \<notin> set ds"
proof -
  let ?u = "dropWhile (\<lambda>c. c \<in> set ds) s"
  from assms have u: "?u \<noteq> []" and t: "t = takeWhile (\<lambda>c. c \<notin> set ds) ?u"
    by (auto simp: strtok_def Let_def split: if_splits)
  from u have "hd ?u \<notin> set ds" by (rule hd_dropWhile)
  with u t show "t \<noteq> []" by (cases ?u) auto
  show "\<forall>c \<in> set t. c \<notin> set ds" unfolding t by (auto dest: set_takeWhileD)
qed

lemma strtok_plain:
  assumes "t \<noteq> []" and "\<forall>c \<in> set t. c \<notin> set ds"
  shows "d \<in> set ds \<Longrightarrow> strtok ds (t @ d # r) = Some (t, r)"
    and "strtok ds t = Some (t, [])"
proof -
  obtain c cs where t: "t = c # cs" using assms(1) by (cases t) auto
  with assms(2) have c: "c \<notin> set ds" by simp
  have tk: "takeWhile (\<lambda>x. x \<notin> set ds) t = t" "dropWhile (\<lambda>x. x \<notin> set ds) t = []"
    using assms(2) by (simp_all add: takeWhile_eq_all_conv)
  have skip: "\<And>u. dropWhile (\<lambda>x. x \<in> set ds) (t @ u) = t @ u" using t c by simp
  show "strtok ds (t @ d # r) = Some (t, r)" if "d \<in> set ds"
    using skip [of "d # r"] tk assms that
    by (simp add: strtok_def Let_def takeWhile_append dropWhile_append)
  show "strtok ds t = Some (t, [])"
    using skip [of "[]"] tk assms(1)
    by (simp only: strtok_def Let_def append_Nil2 if_False drop_Nil simp_thms)
qed

lemma strsep_rest_shorter: "strsep d s = (t, Some r) \<Longrightarrow> length r < length s"
proof -
  assume "strsep d s = (t, Some r)"
  then obtain c where "dropWhile (\<lambda>c. c \<noteq> d) s = c # r"
    by (auto simp: strsep_def split: list.splits)
  then have "length (c # r) \<le> length s" by (metis length_dropWhile_le)
  then show ?thesis by simp
qed

lemma strsep_plain:
  "d \<notin> set t \<Longrightarrow> strsep d (t @ d # r) = (t, Some r)"
  "d \<notin> set t \<Longrightarrow> strsep d t = (t, None)"
proof -
  assume "d \<notin> set t"
  then have *: "\<And>c. c \<in> set t \<Longrightarrow> c \<noteq> d" by blast
  then show "strsep d (t @ d # r) = (t, Some r)"
    by (simp add: strsep_def takeWhile_append2 dropWhile_append2)
  from * have "dropWhile (\<lambda>c. c \<noteq> d) t = []" by (simp add: dropWhile_eq_Nil_conv)
  then show "strsep d t = (t, None)" by (simp only: strsep_def list.case)
qed

lemma strchr_Some: "strchr s d = Some i \<Longrightarrow> i < length s \<and> s ! i = d \<and> d \<notin> set (take i s)"
  by (induction s arbitrary: i) (auto split: if_splits simp: nth_Cons')

lemma strchr_None: "strchr s d = None \<longleftrightarrow> d \<notin> set s"
  by (induction s) auto

lemma strchr_append: "d \<notin> set t \<Longrightarrow> strchr (t @ d # r) d = Some (length t)"
  by (induction t) auto

lemma strcpy_to_Inr [simp]: "strcpy_to cap s = Inr t \<longleftrightarrow> t = s \<and> length s < cap"
  by (auto simp: strcpy_to_def)

text \<open>The character at an index, the NUL behind the text included.\<close>

definition char_at :: "string \<Rightarrow> nat \<Rightarrow> char res" where
  "char_at s i =
     (if i < length s then Inr (s ! i) else if i = length s then Inr NUL else Inl Out_of_bounds)"

section \<open>Words\<close>

text \<open>The words of a string: the maximal runs of characters that are no white space.\<close>

abbreviation nonspace :: "char \<Rightarrow> bool" where "nonspace c \<equiv> \<not> isspace c"

function words :: "string \<Rightarrow> string list" where
  "words s =
     (let t = dropWhile isspace s
      in if t = '''' then [] else takeWhile nonspace t # words (dropWhile nonspace t))"
  by pat_completeness auto
termination
proof (relation "measure length", goal_cases)
  case 1
  then show ?case by simp
next
  case (2 s t)
  have "hd t \<notin> Collect isspace" using 2 hd_dropWhile [of isspace s] by simp
  then have "length (dropWhile nonspace t) < length t"
    using 2(2) by (cases t) (auto simp: le_imp_less_Suc length_dropWhile_le)
  moreover have "length t \<le> length s" unfolding 2(1) by (rule length_dropWhile_le)
  ultimately show ?case by simp
qed

declare words.simps [simp del]

lemma words_Nil [simp]: "words '''' = []"
  by (simp add: words.simps)

lemma words_space: "isspace c \<Longrightarrow> words (c # cs) = words cs"
  by (simp add: words.simps [of "c # cs"] words.simps [of cs])

lemma words_run:
  assumes "w \<noteq> ''''" "\<forall>c \<in> set w. nonspace c"
  shows "words (w @ s) = (w @ takeWhile nonspace s) # words (dropWhile nonspace s)"
proof -
  obtain c cs where w: "w = c # cs" using assms(1) by (cases w) auto
  with assms(2) have "dropWhile isspace (w @ s) = w @ s" by simp
  moreover have "takeWhile nonspace (w @ s) = w @ takeWhile nonspace s"
    "dropWhile nonspace (w @ s) = dropWhile nonspace s"
    using assms(2) by (auto intro: takeWhile_append2 dropWhile_append2)
  ultimately show ?thesis using assms(1) by (simp add: words.simps [of "w @ s"] Let_def)
qed

lemma words_run_end:
  assumes "w \<noteq> ''''" "\<forall>c \<in> set w. nonspace c" "s = '''' \<or> isspace (hd s)"
  shows "words (w @ s) = w # words s"
  using words_run [OF assms(1,2), of s] assms(3) by (cases s) auto

lemma words_spec: "w \<in> set (words s) \<Longrightarrow> w \<noteq> '''' \<and> (\<forall>c \<in> set w. nonspace c)"
proof (induction s rule: words.induct)
  case (1 s)
  define t where "t = dropWhile isspace s"
  show ?case
  proof (cases "t = ''''")
    case True
    with 1 show ?thesis by (simp add: words.simps [of s] t_def)
  next
    case False
    then have "words s = takeWhile nonspace t # words (dropWhile nonspace t)"
      by (subst words.simps) (simp only: Let_def t_def [symmetric] if_False)
    with 1(2) consider "w = takeWhile nonspace t" | "w \<in> set (words (dropWhile nonspace t))"
      by auto
    then show ?thesis
    proof cases
      case 1
      from False have "nonspace (hd t)" unfolding t_def by (rule hd_dropWhile)
      with False 1 show ?thesis by (cases t) (auto dest: set_takeWhileD)
    next
      case 2
      with "1.IH" [OF t_def False] show ?thesis by blast
    qed
  qed
qed

section \<open>Loops that can fail\<close>

fun rfold :: "('a \<Rightarrow> 's \<Rightarrow> 's res) \<Rightarrow> 'a list \<Rightarrow> 's \<Rightarrow> 's res" where
  "rfold f [] s = Inr s"
| "rfold f (x # xs) s = rbind (f x s) (rfold f xs)"

lemma rfold_append: "rfold f (xs @ ys) s = rbind (rfold f xs s) (rfold f ys)"
proof (induction xs arbitrary: s)
  case Nil
  then show ?case by simp
next
  case (Cons x xs)
  then show ?case by (cases "f x s") simp_all
qed

lemma rfold_invariant:
  "rfold f xs s = Inr t \<Longrightarrow> P s \<Longrightarrow> (\<And>x s s'. x \<in> set xs \<Longrightarrow> f x s = Inr s' \<Longrightarrow> P s \<Longrightarrow> P s') \<Longrightarrow> P t"
proof (induction xs arbitrary: s)
  case Nil
  then show ?case by simp
next
  case (Cons x xs)
  from Cons.prems(1) obtain s' where s': "f x s = Inr s'" "rfold f xs s' = Inr t"
    by (auto simp: rbind_Inr_iff)
  have "P s'" using Cons.prems(3) [OF _ s'(1) Cons.prems(2)] by simp
  then show ?case using Cons.IH [OF s'(2)] Cons.prems(3) by (meson list.set_intros(2))
qed

text \<open>A sequence of operations, each returning a result and the next state.\<close>

fun run_ops :: "('op \<Rightarrow> 's \<Rightarrow> ('r \<times> 's) res) \<Rightarrow> 'op list \<Rightarrow> 's \<Rightarrow> 'r list res" where
  "run_ops f [] s = Inr []"
| "run_ops f (p # ps) s = rbind (f p s) (\<lambda>(r, s'). rbind (run_ops f ps s') (\<lambda>rs. Inr (r # rs)))"

lemma run_ops_simulation:
  "R s t \<Longrightarrow>
   (\<And>p s t. p \<in> set ps \<Longrightarrow> R s t \<Longrightarrow>
      (\<exists>e. f p s = Inl e \<and> g p t = Inl e) \<or>
      (\<exists>r s' t'. f p s = Inr (r, s') \<and> g p t = Inr (r, t') \<and> R s' t')) \<Longrightarrow>
   run_ops f ps s = run_ops g ps t"
proof (induction ps arbitrary: s t)
  case Nil
  then show ?case by simp
next
  case (Cons p ps)
  from Cons.prems(2) [of p s t] Cons.prems(1)
  consider e where "f p s = Inl e" "g p t = Inl e"
    | r s' t' where "f p s = Inr (r, s')" "g p t = Inr (r, t')" "R s' t'" by auto
  then show ?case
  proof cases
    case 1
    then show ?thesis by simp
  next
    case (2 r s' t')
    moreover have "run_ops f ps s' = run_ops g ps t'"
      using Cons.prems(2) by (intro Cons.IH [OF 2(3)]) simp
    ultimately show ?thesis by simp
  qed
qed

section \<open>Generic lemmas on lists\<close>

lemma list_update_append_left: "i < length xs \<Longrightarrow> (xs @ ys)[i := z] = xs[i := z] @ ys"
  by (simp add: list_update_append)

lemma dropWhile_all: "\<forall>x \<in> set xs. P x \<Longrightarrow> dropWhile P xs = []"
  by simp

lemma length_takeWhile_less: "\<exists>x \<in> set xs. \<not> P x \<Longrightarrow> length (takeWhile P xs) < length xs"
  by (induction xs) auto

lemma find_Some_first:
  "find P xs = Some x \<Longrightarrow> P x \<and> x \<in> set xs"
  by (auto simp: find_Some_iff)

lemma find_None_iff': "find P xs = None \<longleftrightarrow> (\<forall>x \<in> set xs. \<not> P x)"
  by (auto simp: find_None_iff)

lemma filter_length_update:
  assumes "i < length xs"
  shows "length (filter P (xs[i := y])) + (if P (xs ! i) then 1 else 0)
       = length (filter P xs) + (if P y then 1 else 0)"
proof -
  from assms have xs: "xs = take i xs @ xs ! i # drop (Suc i) xs" by (rule id_take_nth_drop)
  have up: "xs[i := y] = take i xs @ y # drop (Suc i) xs"
    using assms by (rule upd_conv_take_nth_drop)
  have "length (filter P xs) =
      length (filter P (take i xs)) + (if P (xs ! i) then 1 else 0) + length (filter P (drop (Suc i) xs))"
    by (subst xs) simp
  then show ?thesis unfolding up by simp
qed

section \<open>Buffers and arrays\<close>

text \<open>The C string at the start of a buffer, and element \<open>i\<close> of an array.\<close>

definition cstr :: "string \<Rightarrow> string" where
  "cstr s = takeWhile (\<lambda>c. c \<noteq> NUL) s"

abbreviation nul_free :: "string \<Rightarrow> bool" where "nul_free s \<equiv> NUL \<notin> set s"

lemma cstr_nul_free [simp]: "nul_free s \<Longrightarrow> cstr s = s"
  by (induction s) (auto simp: cstr_def)

lemma nul_free_cstr [simp]: "nul_free (cstr s)"
  by (auto simp: cstr_def dest: set_takeWhileD)

lemma cstr_append_NUL [simp]: "nul_free s \<Longrightarrow> cstr (s @ NUL # r) = s"
  by (induction s) (auto simp: cstr_def)

lemma length_cstr_le: "length (cstr s) \<le> length s"
  by (simp add: cstr_def length_takeWhile_le)

definition elem_at :: "'a list \<Rightarrow> int \<Rightarrow> 'a res" where
  "elem_at xs i = (if 0 \<le> i \<and> i < int (length xs) then Inr (xs ! nat i) else Inl Out_of_bounds)"

lemma elem_at_nat [simp]: "i < length xs \<Longrightarrow> elem_at xs (int i) = Inr (xs ! i)"
  by (simp add: elem_at_def)

text \<open>\<open>sprintf\<close> and \<open>strcat\<close> into an array of \<open>cap\<close> characters.\<close>

definition strcat_to :: "nat \<Rightarrow> string \<Rightarrow> string \<Rightarrow> string res" where
  "strcat_to cap s t = strcpy_to cap (s @ t)"

lemma show_nat_nul_free [simp]: "nul_free (show_nat n)"
  using show_nat_digits [of n] by (auto simp: isdigit_def code_def)

lemma show_int_nul_free [simp]: "nul_free (show_int v)"
  by (simp add: show_int_def)

end
