(* ===== verification/Assoc_Store.thy ===== *)
theory Assoc_Store
  imports Prelude
begin

text \<open>
  The contract the programs expect of a keyed table: the shell keeps its short-cut commands
  in one (\<open>assignment-1/q1/hash_map.c\<close>), the RTT prober its hosts in another
  (\<open>assignment-2/q1/hash_map.c\<close>). Only keys that satisfy \<open>ok\<close> are used; \<open>alpha\<close> is the
  finite map the table stands for. What the clients need is proved once, here.
\<close>

locale assoc_store =
  fixes wf :: "'m \<Rightarrow> bool"
    and ok :: "'k \<Rightarrow> bool"
    and alpha :: "'m \<Rightarrow> 'k \<Rightarrow> 'v option"
    and lookup :: "'m \<Rightarrow> 'k \<Rightarrow> 'v option res"
    and insert :: "'m \<Rightarrow> 'k \<Rightarrow> 'v \<Rightarrow> 'm res"
  assumes lookup_alpha: "wf m \<Longrightarrow> ok k \<Longrightarrow> lookup m k = Inr (alpha m k)"
    and insert_fresh: "wf m \<Longrightarrow> ok k \<Longrightarrow> alpha m k = None \<Longrightarrow>
          \<exists>m'. insert m k v = Inr m' \<and> wf m' \<and> (\<forall>k'. ok k' \<longrightarrow> alpha m' k' = ((alpha m)(k \<mapsto> v)) k')"
    and insert_present: "wf m \<Longrightarrow> ok k \<Longrightarrow> alpha m k \<noteq> None \<Longrightarrow> \<exists>e. insert m k v = Inl e"
begin

lemma insert_InrD:
  assumes "wf m" "ok k" "insert m k v = Inr m'"
  shows "alpha m k = None" "wf m'" "ok k' \<Longrightarrow> alpha m' k' = ((alpha m)(k \<mapsto> v)) k'"
proof -
  show none: "alpha m k = None"
  proof (rule ccontr)
    assume "alpha m k \<noteq> None"
    with insert_present [OF assms(1,2), of v] assms(3) show False by auto
  qed
  from insert_fresh [OF assms(1,2) none, of v] assms(3)
  show "wf m'" and "ok k' \<Longrightarrow> alpha m' k' = ((alpha m)(k \<mapsto> v)) k'" by auto
qed

lemma lookup_insert_same: "wf m \<Longrightarrow> ok k \<Longrightarrow> insert m k v = Inr m' \<Longrightarrow> lookup m' k = Inr (Some v)"
  by (simp add: lookup_alpha insert_InrD)

lemma lookup_insert_other:
  "wf m \<Longrightarrow> ok k \<Longrightarrow> ok k' \<Longrightarrow> k' \<noteq> k \<Longrightarrow> insert m k v = Inr m' \<Longrightarrow> lookup m' k' = lookup m k'"
  by (simp add: lookup_alpha insert_InrD)

lemma insert_twice: "wf m \<Longrightarrow> ok k \<Longrightarrow> insert m k v = Inr m' \<Longrightarrow> \<exists>e. insert m' k w = Inl e"
  by (rule insert_present) (auto simp: insert_InrD)

end

text \<open>A table that also deletes; deleting returns what was stored.\<close>

locale assoc_store_delete = assoc_store +
  fixes delete :: "'m \<Rightarrow> 'k \<Rightarrow> ('v \<times> 'm) res"
  assumes delete_present: "wf m \<Longrightarrow> ok k \<Longrightarrow> alpha m k = Some v \<Longrightarrow>
          \<exists>m'. delete m k = Inr (v, m') \<and> wf m' \<and> (\<forall>k'. ok k' \<longrightarrow> alpha m' k' = ((alpha m)(k := None)) k')"
    and delete_absent: "wf m \<Longrightarrow> ok k \<Longrightarrow> alpha m k = None \<Longrightarrow> \<exists>e. delete m k = Inl e"
begin

lemma delete_InrD:
  assumes "wf m" "ok k" "delete m k = Inr (v, m')"
  shows "alpha m k = Some v" "wf m'" "ok k' \<Longrightarrow> alpha m' k' = ((alpha m)(k := None)) k'"
proof -
  obtain w where w: "alpha m k = Some w"
    using delete_absent [OF assms(1,2)] assms(3) by (cases "alpha m k") fastforce+
  from delete_present [OF assms(1,2) w] assms(3)
  show "alpha m k = Some v" and "wf m'" and "ok k' \<Longrightarrow> alpha m' k' = ((alpha m)(k := None)) k'"
    using w by auto
qed

lemma delete_after_insert:
  assumes "wf m" "ok k" "insert m k v = Inr m'"
  shows "\<exists>m''. delete m' k = Inr (v, m'') \<and> wf m'' \<and> (\<forall>k'. ok k' \<longrightarrow> lookup m'' k' = lookup m k')"
proof -
  have m': "alpha m k = None" "wf m'" "alpha m' k = Some v"
    using insert_InrD [OF assms] assms(2) by auto
  from delete_present [OF m'(2) assms(2) m'(3)] obtain m'' where
    m'': "delete m' k = Inr (v, m'')" "wf m''"
      "\<And>k'. ok k' \<Longrightarrow> alpha m'' k' = ((alpha m')(k := None)) k'" by blast
  have "lookup m'' k' = lookup m k'" if "ok k'" for k'
    using that m' m''(2,3) insert_InrD(3) [OF assms that] assms(1)
    by (auto simp: lookup_alpha)
  with m'' show ?thesis by blast
qed

lemma insert_after_delete:
  assumes "wf m" "ok k" "delete m k = Inr (w, m')"
  shows "\<exists>m''. insert m' k v = Inr m'' \<and> wf m'' \<and> lookup m'' k = Inr (Some v)"
proof -
  have m': "wf m'" "alpha m' k = None" using delete_InrD [OF assms] assms(2) by auto
  from insert_fresh [OF m'(1) assms(2) m'(2)] obtain m'' where
    "insert m' k v = Inr m''" "wf m''" "alpha m'' k = Some v"
    using assms(2) by fastforce
  with assms(2) show ?thesis by (auto simp: lookup_alpha)
qed

end

end
