(* ===== verification/Shell_Map.thy ===== *)
theory Shell_Map
  imports Assoc_Store
begin

text \<open>
  \<open>assignment-1/q1/hash_map.c\<close> and \<open>hash_map.h\<close>: a chained hash map from \<open>int\<close> to pointers.
  A bucket is its chain in \<open>next\<close> order together with the \<open>capacity\<close> field the code keeps
  beside it; a data pointer is an \<open>option\<close>, with \<open>None\<close> for NULL. The checked allocations of
  this file end the process when they fail and are taken to succeed.
\<close>

section \<open>State\<close>

record 'v map_node =
  key :: int
  data :: "'v option"

record 'v map_bucket =
  head :: "'v map_node list"
  capacity :: int

record 'v hash_map =
  buckets :: "'v map_bucket list"
  map_size :: int

section \<open>Operations\<close>

text \<open>\<open>key % map_size\<close>: the remainder of C, negative for a negative key.\<close>

definition hash :: "int \<Rightarrow> int \<Rightarrow> int res" where
  "hash k n = (if n = 0 then Inl Division_by_zero else Inr (cmod k n))"

definition bucket_at :: "'v hash_map \<Rightarrow> int \<Rightarrow> 'v map_bucket res" where
  "bucket_at m i =
     (if 0 \<le> i \<and> i < int (length (buckets m)) then Inr (buckets m ! nat i) else Inl Out_of_bounds)"

definition init_map :: "int \<Rightarrow> 'v hash_map" where
  "init_map n =
     \<lparr>buckets = replicate (nat n) \<lparr>head = [], capacity = 0\<rparr>, map_size = n\<rparr>"

fun find_in_nodes :: "'v map_node list \<Rightarrow> int \<Rightarrow> 'v option" where
  "find_in_nodes [] to_find = None"
| "find_in_nodes (n # ns) to_find =
     (if to_find = key n then data n else find_in_nodes ns to_find)"

definition find_in_bucket :: "'v map_bucket \<Rightarrow> int \<Rightarrow> 'v option" where
  "find_in_bucket b to_find =
     (if capacity b = 0 then None else find_in_nodes (head b) to_find)"

definition find_in_map :: "'v hash_map \<Rightarrow> int \<Rightarrow> 'v option res" where
  "find_in_map m to_find =
     rbind (hash to_find (map_size m)) (\<lambda>i.
     rbind (bucket_at m i) (\<lambda>b. Inr (find_in_bucket b to_find)))"

definition insert_into_bucket :: "'v map_bucket \<Rightarrow> int \<Rightarrow> 'v option \<Rightarrow> 'v map_bucket" where
  "insert_into_bucket b k d =
     b\<lparr>head := \<lparr>key = k, data = d\<rparr> # head b, capacity := capacity b + 1\<rparr>"

definition insert_into_map :: "'v hash_map \<Rightarrow> int \<Rightarrow> 'v option \<Rightarrow> 'v hash_map res" where
  "insert_into_map m k d =
     rbind (find_in_map m k) (\<lambda>found.
       if found \<noteq> None
       then Inl (Exit_failure ''entry being added doesn't already exist in hash map'')
       else rbind (hash k (map_size m)) (\<lambda>i.
            rbind (bucket_at m i) (\<lambda>b.
              Inr (m\<lparr>buckets := (buckets m)[nat i := insert_into_bucket b k d]\<rparr>))))"

text \<open>
  The search loop of \<open>delete_from_bucket\<close>: the unlinked node's data and the chain without it,
  \<open>None\<close> when the key is not there.
\<close>

fun unlink_node :: "'v map_node list \<Rightarrow> int \<Rightarrow> ('v option \<times> 'v map_node list) option" where
  "unlink_node [] to_delete = None"
| "unlink_node (n # ns) to_delete =
     (if key n \<noteq> to_delete
      then map_option (\<lambda>(d, ns'). (d, n # ns')) (unlink_node ns to_delete)
      else Some (data n, ns))"

text \<open>The decrement of \<open>capacity\<close> stands after the \<open>return\<close>, so the field keeps its value.\<close>

definition delete_from_bucket :: "'v map_bucket \<Rightarrow> int \<Rightarrow> ('v option \<times> 'v map_bucket) res" where
  "delete_from_bucket b to_delete =
     (case unlink_node (head b) to_delete of
        None \<Rightarrow> Inl (Exit_failure ''node not found in hash map'')
      | Some (d, ns) \<Rightarrow> Inr (d, b\<lparr>head := ns\<rparr>))"

definition delete_from_map :: "'v hash_map \<Rightarrow> int \<Rightarrow> ('v option \<times> 'v hash_map) res" where
  "delete_from_map m to_delete =
     rbind (find_in_map m to_delete) (\<lambda>found.
       if found = None
       then Inl (Exit_failure ''entry to be deleted does not exist in hash map'')
       else rbind (hash to_delete (map_size m)) (\<lambda>i.
            rbind (bucket_at m i) (\<lambda>b.
            rbind (delete_from_bucket b to_delete) (\<lambda>(d, b').
              Inr (d, m\<lparr>buckets := (buckets m)[nat i := b']\<rparr>)))))"

text \<open>A fresh list of copies of all nodes, bucket by bucket.\<close>

fun copy_nodes :: "'v map_node list \<Rightarrow> 'v map_node list" where
  "copy_nodes [] = []"
| "copy_nodes (n # ns) = \<lparr>key = key n, data = data n\<rparr> # copy_nodes ns"

fun copy_buckets :: "'v map_bucket list \<Rightarrow> 'v map_node list" where
  "copy_buckets [] = []"
| "copy_buckets (b # bs) = copy_nodes (head b) @ copy_buckets bs"

definition get_all_map_nodes :: "'v hash_map \<Rightarrow> 'v map_node list" where
  "get_all_map_nodes m = copy_buckets (take (nat (map_size m)) (buckets m))"

text \<open>
  The deallocators, with the nodes they \<open>free\<close> in order. \<open>deallocate_map_node\<close> reads
  \<open>node->next\<close> without a test, so a NULL argument is a fault.
\<close>

fun deallocate_map_node :: "'v map_node list \<Rightarrow> 'v map_node list res" where
  "deallocate_map_node [] = Inl Null_deref"
| "deallocate_map_node (n # ns) =
     (if ns \<noteq> [] then rbind (deallocate_map_node ns) (\<lambda>freed. Inr (freed @ [n])) else Inr [n])"

definition deallocate_map_bucket :: "'v map_bucket \<Rightarrow> 'v map_node list res" where
  "deallocate_map_bucket b =
     (if capacity b \<noteq> 0 then deallocate_map_node (head b) else Inr [])"

fun deallocate_buckets :: "'v map_bucket list \<Rightarrow> 'v map_node list res" where
  "deallocate_buckets [] = Inr []"
| "deallocate_buckets (b # bs) =
     rbind (deallocate_map_bucket b) (\<lambda>f. rbind (deallocate_buckets bs) (\<lambda>fs. Inr (f @ fs)))"

definition delete_map :: "'v hash_map \<Rightarrow> 'v map_node list res" where
  "delete_map m = deallocate_buckets (take (nat (map_size m)) (buckets m))"

text \<open>\<open>delete_map_node_list\<close> frees the nodes front to back.\<close>

fun delete_map_node_list :: "'v map_node list \<Rightarrow> 'v map_node list" where
  "delete_map_node_list [] = []"
| "delete_map_node_list (n # ns) = n # delete_map_node_list ns"

section \<open>Invariant and abstraction\<close>

definition wf_bucket :: "int \<Rightarrow> int \<Rightarrow> 'v map_bucket \<Rightarrow> bool" where
  "wf_bucket n i b \<longleftrightarrow>
     (\<forall>x \<in> set (head b). 0 \<le> key x \<and> key x mod n = i \<and> data x \<noteq> None) \<and>
     distinct (map key (head b)) \<and> int (length (head b)) \<le> capacity b"

definition wf_map :: "'v hash_map \<Rightarrow> bool" where
  "wf_map m \<longleftrightarrow> 0 < map_size m \<and> length (buckets m) = nat (map_size m) \<and>
     (\<forall>i < length (buckets m). wf_bucket (map_size m) (int i) (buckets m ! i))"

definition map_alpha :: "'v hash_map \<Rightarrow> int \<Rightarrow> 'v option" where
  "map_alpha m k = find_in_nodes (head (buckets m ! nat (k mod map_size m))) k"

subsection \<open>Chains\<close>

lemma find_in_nodes_None_iff:
  "\<forall>x \<in> set ns. data x \<noteq> None \<Longrightarrow> find_in_nodes ns k = None \<longleftrightarrow> k \<notin> key ` set ns"
  by (induction ns) auto

lemma unlink_node_spec:
  "distinct (map key ns) \<Longrightarrow> find_in_nodes ns k = Some v \<Longrightarrow>
     \<exists>ns'. unlink_node ns k = Some (Some v, ns') \<and> set ns' \<subseteq> set ns \<and> distinct (map key ns') \<and>
           length ns' < length ns \<and> (\<forall>k'. find_in_nodes ns' k' = (if k' = k then None else find_in_nodes ns k'))"
proof (induction ns)
  case Nil
  then show ?case by simp
next
  case (Cons n ns)
  have gone: "find_in_nodes ns (key n) = None" if "key n \<notin> key ` set ns"
    using that by (induction ns) auto
  show ?case
  proof (cases "key n = k")
    case True
    with Cons.prems gone show ?thesis by auto
  next
    case False
    with Cons.prems have "distinct (map key ns)" "find_in_nodes ns k = Some v" by (auto split: if_splits)
    with Cons.IH obtain ns' where
      "unlink_node ns k = Some (Some v, ns')" "set ns' \<subseteq> set ns" "distinct (map key ns')"
      "length ns' < length ns" "\<forall>k'. find_in_nodes ns' k' = (if k' = k then None else find_in_nodes ns k')"
      by blast
    with False Cons.prems show ?thesis by (intro exI [of _ "n # ns'"]) auto
  qed
qed

lemma wf_bucket_find: "wf_bucket n i b \<Longrightarrow> find_in_bucket b k = find_in_nodes (head b) k"
  by (cases "head b") (auto simp: wf_bucket_def find_in_bucket_def)

subsection \<open>The bucket of a key\<close>

lemma wf_map_bucket:
  assumes "wf_map m" "0 \<le> k"
  shows "hash k (map_size m) = Inr (k mod map_size m)"
    and "bucket_at m (k mod map_size m) = Inr (buckets m ! nat (k mod map_size m))"
    and "nat (k mod map_size m) < length (buckets m)"
    and "wf_bucket (map_size m) (k mod map_size m) (buckets m ! nat (k mod map_size m))"
proof -
  from assms have n: "0 < map_size m" "length (buckets m) = nat (map_size m)"
    by (auto simp: wf_map_def)
  then have i: "0 \<le> k mod map_size m" "k mod map_size m < map_size m" by simp_all
  show lt: "nat (k mod map_size m) < length (buckets m)" using n i by simp
  show "hash k (map_size m) = Inr (k mod map_size m)"
    using n assms(2) by (simp add: hash_def cmod_nonneg)
  show "bucket_at m (k mod map_size m) = Inr (buckets m ! nat (k mod map_size m))"
    using n i by (simp add: bucket_at_def)
  show "wf_bucket (map_size m) (k mod map_size m) (buckets m ! nat (k mod map_size m))"
  proof -
    from assms(1) lt
    have "wf_bucket (map_size m) (int (nat (k mod map_size m))) (buckets m ! nat (k mod map_size m))"
      unfolding wf_map_def by blast
    with i show ?thesis by simp
  qed
qed

lemma wf_init_map: "0 < n \<Longrightarrow> wf_map (init_map n)"
  by (simp add: wf_map_def init_map_def wf_bucket_def)

lemma map_alpha_init: "0 < n \<Longrightarrow> map_alpha (init_map n) k = None"
  by (simp add: map_alpha_def init_map_def)

lemma find_in_map_alpha: "wf_map m \<Longrightarrow> 0 \<le> k \<Longrightarrow> find_in_map m k = Inr (map_alpha m k)"
  by (simp add: find_in_map_def wf_map_bucket map_alpha_def wf_bucket_find [OF wf_map_bucket(4)])

lemma mod_index_inj:
  "0 < (n::int) \<Longrightarrow> nat (a mod n) = nat (b mod n) \<longleftrightarrow> a mod n = b mod n"
  by (metis eq_nat_nat_iff pos_mod_sign)

lemma map_alpha_update:
  assumes "wf_map m" "0 \<le> k"
    and b: "\<And>k'. find_in_nodes (head b) k' =
          (if k' = k then r else find_in_nodes (head (buckets m ! nat (k mod map_size m))) k')"
  shows "map_alpha (m\<lparr>buckets := (buckets m)[nat (k mod map_size m) := b]\<rparr>) = (map_alpha m)(k := r)"
proof (rule ext)
  fix k'
  show "map_alpha (m\<lparr>buckets := (buckets m)[nat (k mod map_size m) := b]\<rparr>) k' = ((map_alpha m)(k := r)) k'"
  proof (cases "k' mod map_size m = k mod map_size m")
    case True
    then show ?thesis using wf_map_bucket(3) [OF assms(1,2)] b [of k'] by (simp add: map_alpha_def)
  next
    case False
    moreover from False have "nat (k mod map_size m) \<noteq> nat (k' mod map_size m)"
      using mod_index_inj [of "map_size m" k k'] assms(1) by (auto simp: wf_map_def)
    ultimately show ?thesis by (auto simp: map_alpha_def)
  qed
qed

lemma wf_map_update:
  assumes "wf_map m" "0 \<le> k" "wf_bucket (map_size m) (k mod map_size m) b"
  shows "wf_map (m\<lparr>buckets := (buckets m)[nat (k mod map_size m) := b]\<rparr>)"
  using assms by (auto simp: wf_map_def nth_list_update)

subsection \<open>Insertion and deletion\<close>

lemma insert_into_map_fresh:
  assumes "wf_map m" "0 \<le> k" "map_alpha m k = None"
  shows "\<exists>m'. insert_into_map m k (Some v) = Inr m' \<and> wf_map m' \<and>
           map_alpha m' = (map_alpha m)(k \<mapsto> v)"
proof -
  let ?i = "k mod map_size m" and ?b = "buckets m ! nat (k mod map_size m)"
  let ?b' = "insert_into_bucket ?b k (Some v)"
  note b = wf_map_bucket [OF assms(1,2)]
  have "k \<notin> key ` set (head ?b)"
    using assms(3) b(4) by (simp add: map_alpha_def wf_bucket_def find_in_nodes_None_iff)
  with b(4) assms(2) have wf': "wf_bucket (map_size m) ?i ?b'"
    by (auto simp: wf_bucket_def insert_into_bucket_def)
  have "insert_into_map m k (Some v) = Inr (m\<lparr>buckets := (buckets m)[nat ?i := ?b']\<rparr>)"
    using b assms by (simp add: insert_into_map_def find_in_map_alpha)
  moreover have "map_alpha (m\<lparr>buckets := (buckets m)[nat ?i := ?b']\<rparr>) = (map_alpha m)(k \<mapsto> v)"
    by (rule map_alpha_update [OF assms(1,2)]) (auto simp: insert_into_bucket_def)
  ultimately show ?thesis using wf_map_update [OF assms(1,2) wf'] by auto
qed

lemma insert_into_map_present:
  "wf_map m \<Longrightarrow> 0 \<le> k \<Longrightarrow> map_alpha m k \<noteq> None \<Longrightarrow>
     insert_into_map m k d =
       Inl (Exit_failure ''entry being added doesn't already exist in hash map'')"
  by (simp add: insert_into_map_def find_in_map_alpha)

lemma delete_from_map_present:
  assumes "wf_map m" "0 \<le> k" "map_alpha m k = Some v"
  shows "\<exists>m'. delete_from_map m k = Inr (Some v, m') \<and> wf_map m' \<and>
           map_alpha m' = (map_alpha m)(k := None)"
proof -
  let ?i = "k mod map_size m" and ?b = "buckets m ! nat (k mod map_size m)"
  note b = wf_map_bucket [OF assms(1,2)]
  obtain ns where ns: "unlink_node (head ?b) k = Some (Some v, ns)" "set ns \<subseteq> set (head ?b)"
      "distinct (map key ns)" "length ns < length (head ?b)"
      "\<And>k'. find_in_nodes ns k' = (if k' = k then None else find_in_nodes (head ?b) k')"
    using unlink_node_spec [of "head ?b" k v] b(4) assms(3)
    by (auto simp: map_alpha_def wf_bucket_def)
  let ?b' = "?b\<lparr>head := ns\<rparr>"
  have wf': "wf_bucket (map_size m) ?i ?b'"
    using b(4) ns(2-4) by (auto simp: wf_bucket_def)
  have "delete_from_map m k = Inr (Some v, m\<lparr>buckets := (buckets m)[nat ?i := ?b']\<rparr>)"
    using b assms ns(1) by (simp add: delete_from_map_def find_in_map_alpha delete_from_bucket_def)
  moreover have "map_alpha (m\<lparr>buckets := (buckets m)[nat ?i := ?b']\<rparr>) = (map_alpha m)(k := None)"
    by (rule map_alpha_update [OF assms(1,2)]) (simp add: ns(5))
  ultimately show ?thesis using wf_map_update [OF assms(1,2) wf'] by auto
qed

lemma delete_from_map_absent:
  "wf_map m \<Longrightarrow> 0 \<le> k \<Longrightarrow> map_alpha m k = None \<Longrightarrow>
     delete_from_map m k =
       Inl (Exit_failure ''entry to be deleted does not exist in hash map'')"
  by (simp add: delete_from_map_def find_in_map_alpha)

text \<open>The table as the short-cut store of the shell: every stored pointer is a pipeline.\<close>

definition delete_some :: "'v hash_map \<Rightarrow> int \<Rightarrow> ('v \<times> 'v hash_map) res" where
  "delete_some m k =
     rbind (delete_from_map m k) (\<lambda>(d, m'). case d of None \<Rightarrow> Inl Null_deref | Some v \<Rightarrow> Inr (v, m'))"

interpretation sc: assoc_store_delete
  wf_map "\<lambda>k. 0 \<le> k" map_alpha find_in_map "\<lambda>m k v. insert_into_map m k (Some v)" delete_some
proof (unfold_locales, goal_cases)
  case (1 m k)
  then show ?case by (simp add: find_in_map_alpha)
next
  case (2 m k v)
  then show ?case using insert_into_map_fresh by fastforce
next
  case (3 m k v)
  then show ?case by (simp add: insert_into_map_present)
next
  case (4 m k v)
  then show ?case using delete_from_map_present [of m k v] by (auto simp: delete_some_def)
next
  case (5 m k)
  then show ?case by (simp add: delete_some_def delete_from_map_absent)
qed

section \<open>Properties\<close>

datatype 'v map_op = Insert_op int 'v | Find_op int | Delete_op int

fun op_key :: "'v map_op \<Rightarrow> int" where
  "op_key (Insert_op k v) = k"
| "op_key (Find_op k) = k"
| "op_key (Delete_op k) = k"

fun map_step :: "'v map_op \<Rightarrow> 'v hash_map \<Rightarrow> ('v option \<times> 'v hash_map) res" where
  "map_step (Insert_op k v) m = rbind (insert_into_map m k (Some v)) (\<lambda>m'. Inr (None, m'))"
| "map_step (Find_op k) m = rbind (find_in_map m k) (\<lambda>r. Inr (r, m))"
| "map_step (Delete_op k) m = delete_from_map m k"

text \<open>The same operations on a finite map, with the program's way of failing.\<close>

fun spec_step :: "'v map_op \<Rightarrow> (int \<rightharpoonup> 'v) \<Rightarrow> ('v option \<times> (int \<rightharpoonup> 'v)) res" where
  "spec_step (Insert_op k v) f =
     (if f k \<noteq> None then Inl (Exit_failure ''entry being added doesn't already exist in hash map'')
      else Inr (None, f(k \<mapsto> v)))"
| "spec_step (Find_op k) f = Inr (f k, f)"
| "spec_step (Delete_op k) f =
     (if f k = None then Inl (Exit_failure ''entry to be deleted does not exist in hash map'')
      else Inr (f k, f(k := None)))"

lemma map_step_refines:
  assumes "wf_map m" "0 \<le> op_key p"
  shows "(\<exists>e. map_step p m = Inl e \<and> spec_step p (map_alpha m) = Inl e) \<or>
     (\<exists>r m'. map_step p m = Inr (r, m') \<and> spec_step p (map_alpha m) = Inr (r, map_alpha m') \<and> wf_map m')"
proof (cases p)
  case (Insert_op k v)
  with assms insert_into_map_fresh [of m k v] insert_into_map_present [of m k] show ?thesis
    by (cases "map_alpha m k = None") fastforce+
next
  case (Find_op k)
  with assms show ?thesis by (simp add: find_in_map_alpha)
next
  case (Delete_op k)
  with assms delete_from_map_present [of m k] delete_from_map_absent [of m k] show ?thesis
    by (cases "map_alpha m k") fastforce+
qed

text \<open>
  C24: the chained hash map of the shell refines a finite map. Whatever sequence of insertions,
  look-ups and deletions with non-negative keys is run on a fresh map, it returns the results
  the finite map returns, and it ends the process exactly where, and with the message with which,
  the finite map would.
\<close>

theorem table_refines_finite_map:
  assumes "0 < n" and "\<forall>p \<in> set ops. 0 \<le> op_key p"
  shows "run_ops map_step ops (init_map n) = run_ops spec_step ops Map.empty"
proof (rule run_ops_simulation [where R = "\<lambda>m f. wf_map m \<and> f = map_alpha m"])
  show "wf_map (init_map n) \<and> Map.empty = map_alpha (init_map n)"
    using assms(1) by (auto simp: wf_init_map map_alpha_init)
  show "(\<exists>e. map_step p m = Inl e \<and> spec_step p f = Inl e) \<or>
      (\<exists>r m' f'. map_step p m = Inr (r, m') \<and> spec_step p f = Inr (r, f') \<and> (wf_map m' \<and> f' = map_alpha m'))"
    if "p \<in> set ops" "wf_map m \<and> f = map_alpha m" for p m f
    using map_step_refines [of m p] that assms(2) by auto
qed

theorem table_refines_finite_map_witness:
  "run_ops map_step [Insert_op 3 CHR ''a'', Insert_op 22 CHR ''b'', Delete_op 3, Find_op 22, Find_op 3] (init_map 19)
     = Inr [None, None, Some CHR ''a'', Some CHR ''b'', None]"
  using table_refines_finite_map [of 19 "[Insert_op 3 CHR ''a'', Insert_op 22 CHR ''b'', Delete_op 3, Find_op 22, Find_op 3]"]
  by simp

lemma wf_bucket_deallocate:
  "wf_bucket n i b \<Longrightarrow> head b \<noteq> [] \<Longrightarrow> deallocate_map_bucket b = Inr (rev (head b))"
proof -
  assume "wf_bucket n i b" "head b \<noteq> []"
  moreover have "deallocate_map_node ns = Inr (rev ns)" if "ns \<noteq> []" for ns :: "'a map_node list"
    using that by (induction ns) auto
  ultimately show ?thesis by (cases "head b") (auto simp: deallocate_map_bucket_def wf_bucket_def)
qed

lemma deallocate_buckets_None:
  "b \<in> set bs \<Longrightarrow> capacity b \<noteq> 0 \<Longrightarrow> head b = [] \<Longrightarrow> \<exists>e. deallocate_buckets bs = Inl e"
proof (induction bs)
  case Nil
  then show ?case by simp
next
  case (Cons c cs)
  show ?case
  proof (cases "b = c")
    case True
    with Cons.prems show ?thesis by (simp add: deallocate_map_bucket_def)
  next
    case False
    with Cons show ?thesis
      by (cases "deallocate_map_bucket c") auto
  qed
qed

lemma deallocate_buckets_fault: "deallocate_buckets bs = Inl e \<Longrightarrow> e = Null_deref"
proof -
  have node: "deallocate_map_node ns = Inl e \<Longrightarrow> e = Null_deref" for ns :: "'a map_node list" and e
    by (induction ns) (auto simp: rbind_Inl_iff split: if_splits)
  then show "deallocate_buckets bs = Inl e \<Longrightarrow> e = Null_deref"
    by (induction bs) (auto simp: rbind_Inl_iff deallocate_map_bucket_def split: if_splits)
qed

text \<open>
  \<open>delete_from_bucket\<close> never lowers \<open>capacity\<close>, so tearing down a map from which the last
  entry of a bucket was deleted dereferences NULL: inserting one entry, deleting it and calling
  \<open>delete_map\<close> is a crash, on every map and for every key.
\<close>

theorem delete_map_after_delete_crashes:
  assumes "0 < n" and "0 \<le> k"
  shows "rbind (insert_into_map (init_map n) k (Some v)) (\<lambda>m1.
         rbind (delete_from_map m1 k) (\<lambda>(_, m2). delete_map m2)) = Inl Null_deref"
proof -
  let ?i = "nat (k mod n)" and ?e = "\<lparr>head = [], capacity = 0\<rparr> :: 'a map_bucket"
  let ?b1 = "insert_into_bucket ?e k (Some v)" and ?bs = "replicate (nat n) ?e"
  have i: "?i < nat n" using assms by simp
  have h: "hash k n = Inr (k mod n)" using assms by (simp add: hash_def cmod_nonneg)
  have at: "bucket_at \<lparr>buckets = bs, map_size = n\<rparr> (k mod n) = Inr (bs ! ?i)" if "length bs = nat n" for bs
    using that i assms(1) by (simp add: bucket_at_def)
  let ?m1 = "\<lparr>buckets = ?bs[?i := ?b1], map_size = n\<rparr>"
  let ?m2 = "\<lparr>buckets = ?bs[?i := ?b1\<lparr>head := []\<rparr>], map_size = n\<rparr>"
  have "insert_into_map (init_map n) k (Some v) = Inr ?m1"
    using i by (simp add: insert_into_map_def find_in_map_def init_map_def h at find_in_bucket_def)
  moreover have "delete_from_map ?m1 k = Inr (Some v, ?m2)"
    using i by (simp add: delete_from_map_def find_in_map_def h at find_in_bucket_def
        delete_from_bucket_def insert_into_bucket_def)
  moreover have "?b1\<lparr>head := []\<rparr> \<in> set (buckets ?m2)"
    using i by (simp add: set_update_memI)
  then obtain e where "deallocate_buckets (buckets ?m2) = Inl e"
    using deallocate_buckets_None [of "?b1\<lparr>head := []\<rparr>" "buckets ?m2"]
    by (auto simp: insert_into_bucket_def)
  then have "delete_map ?m2 = Inl Null_deref"
    using deallocate_buckets_fault by (auto simp: delete_map_def)
  ultimately show ?thesis by simp
qed

theorem delete_map_after_delete_crashes_witness:
  "rbind (insert_into_map (init_map 19) 1 (Some ''ls'')) (\<lambda>m1.
     rbind (delete_from_map m1 1) (\<lambda>(_, m2). delete_map m2)) = Inl Null_deref"
  by (rule delete_map_after_delete_crashes) simp_all

end
