(* ===== verification/Shell_Parse.thy ===== *)
theory Shell_Parse
  imports Shell_Map
begin

text \<open>
  The parser of the shell, \<open>assignment-1/q1/shell.c\<close> (lines 8 to 348) with \<open>shell.h\<close> and
  \<open>utils.c\<close>: splitting a command into arguments and redirections, splitting a line into the
  commands of a pipeline, and the short-cut commands \<open>sc -i\<close> and \<open>sc -d\<close>.

  A linked list is the list of its nodes; \<open>count\<close> is kept beside it as in the code. The field
  \<open>argv_size\<close> is not in the code: it records the size asked for each argument's block.
\<close>

section \<open>Data\<close>

abbreviation MAX_NUM_ARGS :: nat where "MAX_NUM_ARGS \<equiv> 20"
abbreviation MAX_ARG_LEN :: nat where "MAX_ARG_LEN \<equiv> 30"

text \<open>\<open>UNSET_PIPE\<close> is the 0 that \<open>calloc\<close> leaves in the field; it is no enumerator of the code.\<close>

datatype pipe_count = UNSET_PIPE | SINGLE_PIPE | DOUBLE_PIPE | TRIPLE_PIPE

record command =
  argc :: nat
  argv :: "string list"
  argv_size :: "nat list"
  par_offset :: int
  prev_pipe_count :: pipe_count
  in_redirect :: bool
  in_file :: string
  out_redirect :: bool
  out_append :: bool
  out_file :: string
  token :: string

record command_pipe =
  cmds :: "command list"
  count :: nat
  is_background :: bool

section \<open>\<open>utils.c\<close>\<close>

definition assert_c :: "bool \<Rightarrow> string \<Rightarrow> unit res" where
  "assert_c b msg = (if \<not> b then Inl (Exit_failure msg) else Inr ())"

lemma assert_c_simps [simp]:
  "assert_c True msg = Inr ()" "assert_c False msg = Inl (Exit_failure msg)"
  "assert_c b msg = Inr u \<longleftrightarrow> b"
  by (simp_all add: assert_c_def)

text \<open>\<open>num * 10 + str[i] - '0'\<close> is evaluated from the left and can overflow before the subtraction.\<close>

fun stringToNum_loop :: "string \<Rightarrow> int \<Rightarrow> int res" where
  "stringToNum_loop [] num = Inr num"
| "stringToNum_loop (c # cs) num =
     (if c = NL then stringToNum_loop cs num
      else rbind (assert_c (isdigit c) ''invalid number'') (\<lambda>_.
           rbind (cint (num * 10 + int (code c))) (\<lambda>v. stringToNum_loop cs (v - 48))))"

definition stringToNum :: "string \<Rightarrow> int res" where
  "stringToNum str = stringToNum_loop str 0"

section \<open>Building a pipeline\<close>

definition initCmdPipe :: command_pipe where
  "initCmdPipe = \<lparr>cmds = [], count = 0, is_background = False\<rparr>"

definition initCmd :: command where
  "initCmd =
     \<lparr>argc = 0, argv = [], argv_size = [], par_offset = -1, prev_pipe_count = UNSET_PIPE,
      in_redirect = False, in_file = '''', out_redirect = False, out_append = False,
      out_file = '''', token = ''''\<rparr>"

definition insertCmdInPipe :: "command_pipe \<Rightarrow> command \<Rightarrow> command_pipe" where
  "insertCmdInPipe p c =
     (if count p = 0 then p\<lparr>cmds := [c], count := count p + 1\<rparr>
      else p\<lparr>cmds := cmds p @ [c], count := count p + 1\<rparr>)"

text \<open>
  \<open>resetCmdPipe\<close> frees \<open>count\<close> nodes from the front and reads \<open>next\<close> of each without a test;
  the result is what it freed.
\<close>

fun free_cmds :: "nat \<Rightarrow> command list \<Rightarrow> command list res" where
  "free_cmds 0 cs = Inr []"
| "free_cmds (Suc n) [] = Inl Null_deref"
| "free_cmds (Suc n) (c # cs) = rbind (free_cmds n cs) (\<lambda>fs. Inr (c # fs))"

definition resetCmdPipe :: "command_pipe option \<Rightarrow> command list res" where
  "resetCmdPipe p =
     (case p of None \<Rightarrow> Inr [] | Some q \<Rightarrow> free_cmds (count q) (cmds q))"

section \<open>\<open>parseCmd\<close>\<close>

record parse_state =
  curr_arg :: string
  prev_arg :: string
  cmd :: command

text \<open>
  What the loop does with a complete argument (lines 109 to 160). \<open>curr_len\<close> is 0 again when the
  block for the argument is asked for, so its size is 1.
\<close>

definition end_arg :: "parse_state \<Rightarrow> parse_state res" where
  "end_arg st =
     (let arg = curr_arg st; st = st\<lparr>curr_arg := ''''\<rparr>; c = cmd st in
      if prev_arg st = ''>'' \<or> prev_arg st = ''>>'' then
        Inr (st\<lparr>cmd := c\<lparr>out_file := arg\<rparr>, prev_arg := arg\<rparr>)
      else if prev_arg st = ''<'' then
        Inr (st\<lparr>cmd := c\<lparr>in_file := arg\<rparr>, prev_arg := arg\<rparr>)
      else let st = st\<lparr>prev_arg := arg\<rparr> in
      if arg = ''>'' then Inr (st\<lparr>cmd := c\<lparr>out_redirect := True, out_append := False\<rparr>\<rparr>)
      else if arg = ''>>'' then Inr (st\<lparr>cmd := c\<lparr>out_redirect := True, out_append := True\<rparr>\<rparr>)
      else if arg = ''<'' then Inr (st\<lparr>cmd := c\<lparr>in_redirect := True\<rparr>\<rparr>)
      else rbind (assert_c (length (argv c) < MAX_NUM_ARGS)
                   ''number of arguments exceeded maximum limit'') (\<lambda>_.
           Inr (st\<lparr>cmd := c\<lparr>argv := argv c @ [arg], argv_size := argv_size c @ [0 + 1]\<rparr>\<rparr>)))"

text \<open>The loop over \<open>cmd_input\<close>, on the characters from index \<open>i\<close>; \<open>[]\<close> is the round \<open>i = len\<close>.\<close>

fun parse_loop :: "parse_state \<Rightarrow> string \<Rightarrow> parse_state res" where
  "parse_loop st [] = (if curr_arg st = '''' then Inr st else end_arg st)"
| "parse_loop st (c # cs) =
     (if \<not> isspace c then
        rbind (assert_c (length (curr_arg st) < MAX_ARG_LEN)
                ''argument length longer than max size allowed'') (\<lambda>_.
        parse_loop (st\<lparr>curr_arg := curr_arg st @ [c]\<rparr>) cs)
      else if curr_arg st = '''' then parse_loop st cs
      else if cs \<noteq> [] \<and> isspace (hd cs) then parse_loop st cs
      else rbind (end_arg st) (\<lambda>st'. parse_loop st' cs))"

definition parseCmd :: "command \<Rightarrow> string \<Rightarrow> int \<Rightarrow> pipe_count \<Rightarrow> command res" where
  "parseCmd c cmd_input off ppc =
     rbind (parse_loop
              \<lparr>curr_arg = '''', prev_arg = '''',
               cmd = c\<lparr>token := cmd_input, par_offset := off, prev_pipe_count := ppc\<rparr>\<rparr>
              cmd_input)
       (\<lambda>st. Inr ((cmd st)\<lparr>argc := length (argv (cmd st))\<rparr>))"

section \<open>\<open>createCmdPipe\<close>\<close>

text \<open>
  The backward scan of lines 270 to 273 for the last character that is no blank; the second
  component is \<open>k + 1\<close>.
\<close>

fun scan_back :: "string \<Rightarrow> char \<Rightarrow> nat \<Rightarrow> char \<times> nat" where
  "scan_back t last_char 0 = (last_char, 0)"
| "scan_back t last_char (Suc k) =
     (if last_char = SP \<or> last_char = NL then scan_back t (t ! k) k else (last_char, Suc k))"

definition check_background :: "command_pipe \<Rightarrow> string \<Rightarrow> command_pipe \<times> string" where
  "check_background p temp =
     (let len = length temp; (last_char, k1) = scan_back temp (temp ! (len - 1)) len in
      if last_char = CHR ''&'' then (p\<lparr>is_background := True\<rparr>, take k1 temp) else (p, temp))"

text \<open>\<open>strsep (&temp, ",")\<close> on a pointer that may be NULL already.\<close>

definition strsep_opt :: "char \<Rightarrow> string option \<Rightarrow> string option \<times> string option" where
  "strsep_opt d s = (case s of None \<Rightarrow> (None, None) | Some t \<Rightarrow> (let (a, r) = strsep d t in (Some a, r)))"

definition parse_new :: "command_pipe \<Rightarrow> string \<Rightarrow> int \<Rightarrow> pipe_count \<Rightarrow> command_pipe res" where
  "parse_new p s off ppc = rbind (parseCmd initCmd s off ppc) (\<lambda>c. Inr (insertCmdInPipe p c))"

text \<open>The body of the loop for a non-empty segment (lines 268 to 319).\<close>

definition add_segment :: "command_pipe \<Rightarrow> nat \<Rightarrow> string \<Rightarrow> command_pipe res" where
  "add_segment p pipeCount temp0 =
     (let (p, temp) = check_background p temp0 in
      if pipeCount = 1 then parse_new p temp 0 SINGLE_PIPE
      else if pipeCount = 2 then
        (let (s1, t) = strsep_opt CHR '','' (Some temp); (s2, t) = strsep_opt CHR '','' t in
         (case (s1, s2) of
            (Some c1, Some c2) \<Rightarrow>
              rbind (parseCmd initCmd c1 (-1) DOUBLE_PIPE) (\<lambda>cmd1.
              rbind (parseCmd initCmd c2 (-2) DOUBLE_PIPE) (\<lambda>cmd2.
              Inr (insertCmdInPipe (insertCmdInPipe p cmd1) cmd2)))
          | _ \<Rightarrow> Inl (Exit_failure ''expected 2 comma separated commands'')))
      else if pipeCount = 3 then
        (let (s1, t) = strsep_opt CHR '','' (Some temp); (s2, t) = strsep_opt CHR '','' t;
             (s3, t) = strsep_opt CHR '','' t in
         (case (s1, s2, s3) of
            (Some c1, Some c2, Some c3) \<Rightarrow>
              rbind (parseCmd initCmd c1 (-1) TRIPLE_PIPE) (\<lambda>cmd1.
              rbind (parseCmd initCmd c2 (-2) TRIPLE_PIPE) (\<lambda>cmd2.
              rbind (parseCmd initCmd c3 (-3) TRIPLE_PIPE) (\<lambda>cmd3.
              Inr (insertCmdInPipe (insertCmdInPipe (insertCmdInPipe p cmd1) cmd2) cmd3))))
          | _ \<Rightarrow> Inl (Exit_failure ''expected 3 comma separated commands'')))
      else Inl (Exit_failure ''Expected |, || or ||| pipes''))"

function parse_segments :: "string option \<Rightarrow> nat \<Rightarrow> command_pipe \<Rightarrow> command_pipe res" where
  "parse_segments None pipeCount p = Inr p"
| "parse_segments (Some s) pipeCount p =
     (if fst (strsep CHR ''|'' s) = '''' then parse_segments (snd (strsep CHR ''|'' s)) (pipeCount + 1) p
      else rbind (add_segment p pipeCount (fst (strsep CHR ''|'' s)))
             (parse_segments (snd (strsep CHR ''|'' s)) 1))"
  by pat_completeness auto
termination
proof (relation "measure (\<lambda>(s, _, _). case s of None \<Rightarrow> 0 | Some t \<Rightarrow> Suc (length t))", goal_cases)
  case 1
  then show ?case by simp
next
  case (2 s pc p)
  then show ?case
    by (cases "strsep CHR ''|'' s") (auto split: option.splits dest: strsep_rest_shorter)
next
  case (3 s pc p x)
  then show ?case
    by (cases "strsep CHR ''|'' s") (auto split: option.splits dest: strsep_rest_shorter)
qed

text \<open>
  The index of a short-cut command (lines 205 to 220): \<open>None\<close> when it is not a number,
  otherwise the index and the text behind the character that ends it.
\<close>

fun read_index :: "string \<Rightarrow> int \<Rightarrow> (int \<times> string) option res" where
  "read_index [] idx = Inr None"
| "read_index (c # cs) idx =
     (if c = SP \<or> c = NL then Inr (Some (idx, cs))
      else if \<not> isdigit c then Inr None
      else rbind (cint (idx * 10 + int (code c))) (\<lambda>v. read_index cs (v - 48)))"

type_synonym sc_table = "command_pipe hash_map"

text \<open>
  Replacing a stored command (lines 226 to 239): the next word of standard input is the answer,
  read into ten characters. \<open>None\<close> means the function returns without storing.
\<close>

definition confirm_replace ::
  "sc_table \<Rightarrow> int \<Rightarrow> string list \<Rightarrow> (sc_table option \<times> string list) res" where
  "confirm_replace m idx answers =
     (case answers of
        [] \<Rightarrow> Inl Uninit_read
      | choice # rest \<Rightarrow>
          rbind (strcpy_to 10 choice) (\<lambda>choice.
            if choice = ''yes'' then rbind (delete_from_map m idx) (\<lambda>(_, m'). Inr (Some m', rest))
            else Inr (None, rest)))"

lemma read_index_shorter: "read_index s i = Inr (Some (idx, r)) \<Longrightarrow> length r < length s"
  by (induction s i rule: read_index.induct) (fastforce simp: rbind_Inr_iff split: if_splits)+

definition minus_index :: "string \<Rightarrow> nat" where
  "minus_index s = (case strchr s CHR ''-'' of Some i \<Rightarrow> i | None \<Rightarrow> length s)"

function createCmdPipe ::
  "string \<Rightarrow> command_pipe \<Rightarrow> sc_table \<Rightarrow> string list
     \<Rightarrow> (bool \<times> command_pipe \<times> sc_table \<times> string list) res" where
  "createCmdPipe cmd_input p sc_map answers =
     (if 2 < length cmd_input \<and> take 2 cmd_input = ''sc'' then
        let sc_flag_idx = minus_index cmd_input + 1 in
        rbind (assert_c (sc_flag_idx < length cmd_input) ''short-cut command flag not found'') (\<lambda>_.
        let sc_flag = cmd_input ! sc_flag_idx in
        rbind (assert_c (sc_flag = CHR ''i'' \<or> sc_flag = CHR ''d'')
                 ''short-cut command invalid flag, expected -i or -d'') (\<lambda>_.
        rbind (char_at cmd_input (sc_flag_idx + 2)) (\<lambda>c.
        if \<not> isdigit c then Inr (False, p, sc_map, answers)
        else
        rbind (read_index (drop (sc_flag_idx + 2) cmd_input) 0) (\<lambda>r.
        case r of
          None \<Rightarrow> Inr (False, p, sc_map, answers)
        | Some (idx, rest) \<Rightarrow>
            if sc_flag = CHR ''i'' then
              rbind (find_in_map sc_map idx) (\<lambda>found.
              rbind (if found \<noteq> None then confirm_replace sc_map idx answers
                     else Inr (Some sc_map, answers)) (\<lambda>(go, answers').
              case go of
                None \<Rightarrow> Inr (False, p, sc_map, answers')
              | Some m1 \<Rightarrow>
                  rbind (createCmdPipe rest initCmdPipe m1 answers') (\<lambda>(_, p2, m2, answers2).
                  rbind (insert_into_map m2 idx (Some p2)) (\<lambda>m3. Inr (False, p, m3, answers2)))))
            else
              rbind (find_in_map sc_map idx) (\<lambda>temp_pipe.
              rbind (resetCmdPipe temp_pipe) (\<lambda>_.
              rbind (delete_from_map sc_map idx) (\<lambda>(_, m').
              Inr (False, p, m', answers))))))))
      else rbind (parse_segments (Some cmd_input) 1 p) (\<lambda>p'. Inr (True, p', sc_map, answers)))"
  by pat_completeness auto
termination
  by (relation "measure (\<lambda>(s, _, _, _). length s)") (auto dest!: read_index_shorter)

declare createCmdPipe.simps [simp del]

section \<open>\<open>parseCmd\<close> splits at white space\<close>

definition process_word :: "string \<Rightarrow> parse_state \<Rightarrow> parse_state res" where
  "process_word w st =
     (if MAX_ARG_LEN < length w then Inl (Exit_failure ''argument length longer than max size allowed'')
      else end_arg (st\<lparr>curr_arg := w\<rparr>))"

lemma end_arg_curr: "end_arg st = Inr st' \<Longrightarrow> curr_arg st' = ''''"
  by (auto simp: end_arg_def Let_def rbind_Inr_iff split: if_splits)

lemma end_arg_keep: "end_arg st = Inr st' \<Longrightarrow> st'\<lparr>curr_arg := ''''\<rparr> = st'"
  using end_arg_curr [of st st'] by (cases st') simp

lemma parse_loop_words:
  "\<forall>c \<in> set (curr_arg st). nonspace c \<Longrightarrow> length (curr_arg st) \<le> MAX_ARG_LEN \<Longrightarrow>
     parse_loop st s = rfold process_word (words (curr_arg st @ s)) (st\<lparr>curr_arg := ''''\<rparr>)"
proof (induction s arbitrary: st)
  case Nil
  have keep: "st\<lparr>curr_arg := curr_arg st\<rparr> = st" by simp
  show ?case
  proof (cases "curr_arg st = ''''")
    case True
    with keep show ?thesis by simp
  next
    case False
    with Nil words_run_end [of "curr_arg st" "[]"] show ?thesis
      by (cases "end_arg st") (simp_all add: process_word_def)
  qed
next
  case (Cons c cs)
  let ?w = "curr_arg st"
  show ?case
  proof (cases "isspace c")
    case False
    show ?thesis
    proof (cases "length ?w < MAX_ARG_LEN")
      case True
      with False Cons.IH [of "st\<lparr>curr_arg := ?w @ [c]\<rparr>"] Cons.prems show ?thesis by simp
    next
      case long: False
      have "words (?w @ c # cs) = ((?w @ [c]) @ takeWhile nonspace cs) # words (dropWhile nonspace cs)"
        using words_run [of "?w @ [c]" cs] False Cons.prems by simp
      with long False show ?thesis by (simp add: process_word_def)
    qed
  next
    case space: True
    show ?thesis
    proof (cases "?w = ''''")
      case True
      with space Cons.IH [of st] Cons.prems show ?thesis by (simp add: words_space)
    next
      case False
      have ws: "words (?w @ c # cs) = ?w # words cs"
        using words_run_end [of ?w "c # cs"] False Cons.prems space by (simp add: words_space)
      show ?thesis
      proof (cases "cs \<noteq> '''' \<and> isspace (hd cs)")
        case True
        then have "words (?w @ cs) = ?w # words cs"
          using words_run_end [of ?w cs] False Cons.prems by simp
        with True space False ws Cons.IH [of st] Cons.prems show ?thesis by simp
      next
        case single: False
        have "process_word ?w (st\<lparr>curr_arg := ''''\<rparr>) = end_arg st"
          using Cons.prems by (simp add: process_word_def)
        moreover have "parse_loop st' cs = rfold process_word (words cs) st'"
          if "end_arg st = Inr st'" for st'
          using Cons.IH [of st'] end_arg_curr [OF that] end_arg_keep [OF that] by simp
        ultimately show ?thesis using single space False ws by (cases "end_arg st") auto
      qed
    qed
  qed
qed

lemma parseCmd_words:
  "parseCmd c s off ppc =
     rbind (rfold process_word (words s)
             \<lparr>curr_arg = '''', prev_arg = '''',
              cmd = c\<lparr>token := s, par_offset := off, prev_pipe_count := ppc\<rparr>\<rparr>)
       (\<lambda>st. Inr ((cmd st)\<lparr>argc := length (argv (cmd st))\<rparr>))"
  by (simp add: parseCmd_def parse_loop_words)

section \<open>Printing a command and parsing it back\<close>

datatype redirection = From string | Onto string | Append string

fun redirection_words :: "redirection \<Rightarrow> string list" where
  "redirection_words (From f) = [''<'', f]"
| "redirection_words (Onto f) = [''>'', f]"
| "redirection_words (Append f) = [''>>'', f]"

fun redirection_file :: "redirection \<Rightarrow> string" where
  "redirection_file (From f) = f"
| "redirection_file (Onto f) = f"
| "redirection_file (Append f) = f"

fun redirect :: "redirection \<Rightarrow> command \<Rightarrow> command" where
  "redirect (From f) c = c\<lparr>in_redirect := True, in_file := f\<rparr>"
| "redirect (Onto f) c = c\<lparr>out_redirect := True, out_append := False, out_file := f\<rparr>"
| "redirect (Append f) c = c\<lparr>out_redirect := True, out_append := True, out_file := f\<rparr>"

fun render :: "string list \<Rightarrow> string" where
  "render [] = ''''"
| "render (w # ws) = w @ SP # render ws"

definition plain_word :: "string \<Rightarrow> bool" where
  "plain_word w \<longleftrightarrow> w \<noteq> '''' \<and> list_all nonspace w \<and> length w \<le> MAX_ARG_LEN \<and>
     w \<noteq> ''<'' \<and> w \<noteq> ''>'' \<and> w \<noteq> ''>>''"

abbreviation no_redirection_word :: "string \<Rightarrow> bool" where
  "no_redirection_word w \<equiv> w \<noteq> ''<'' \<and> w \<noteq> ''>'' \<and> w \<noteq> ''>>''"

lemma isspace_SP [simp]: "isspace SP" and isspace_NL [simp]: "isspace NL"
  by (simp_all add: isspace_def code_def)

lemma words_render:
  "\<forall>w \<in> set ws. w \<noteq> '''' \<and> list_all nonspace w \<Longrightarrow> words (render ws) = ws"
proof (induction ws)
  case Nil
  then show ?case by simp
next
  case (Cons w ws)
  then have "words (w @ SP # render ws) = w # words (SP # render ws)"
    by (intro words_run_end) (auto simp: list_all_iff)
  with Cons show ?case by (simp add: words_space)
qed

lemma process_args:
  "\<forall>a \<in> set args. plain_word a \<Longrightarrow> no_redirection_word (prev_arg st) \<Longrightarrow>
     length (argv (cmd st)) + length args \<le> MAX_NUM_ARGS \<Longrightarrow> curr_arg st = '''' \<Longrightarrow>
     rfold process_word args st =
       Inr (st\<lparr>prev_arg := (if args = [] then prev_arg st else last args),
                cmd := (cmd st)\<lparr>argv := argv (cmd st) @ args,
                                argv_size := argv_size (cmd st) @ replicate (length args) 1\<rparr>\<rparr>)"
proof (induction args arbitrary: st)
  case Nil
  then show ?case by simp
next
  case (Cons a args)
  let ?st = "st\<lparr>prev_arg := a,
    cmd := (cmd st)\<lparr>argv := argv (cmd st) @ [a], argv_size := argv_size (cmd st) @ [1]\<rparr>\<rparr>"
  have a: "plain_word a" "length (argv (cmd st)) < MAX_NUM_ARGS" using Cons.prems by auto
  have keep: "st\<lparr>curr_arg := ''''\<rparr> = st" using Cons.prems(4) by (cases st) simp
  have "process_word a st = Inr ?st"
    using a Cons.prems(2) keep by (simp add: process_word_def end_arg_def plain_word_def Let_def)
  moreover have "rfold process_word args ?st =
      Inr (?st\<lparr>prev_arg := (if args = [] then prev_arg ?st else last args),
                cmd := (cmd ?st)\<lparr>argv := argv (cmd ?st) @ args,
                                argv_size := argv_size (cmd ?st) @ replicate (length args) 1\<rparr>\<rparr>)"
    using Cons.prems a by (intro Cons.IH) (auto simp: plain_word_def)
  ultimately show ?case by (simp add: replicate_app_Cons_same)
qed

lemma process_redirection:
  assumes "plain_word (redirection_file r)" "no_redirection_word (prev_arg st)" "curr_arg st = ''''"
  shows "rfold process_word (redirection_words r) st =
           Inr (st\<lparr>prev_arg := redirection_file r, cmd := redirect r (cmd st)\<rparr>)"
proof -
  have "st\<lparr>curr_arg := ''''\<rparr> = st" using assms(3) by (cases st) simp
  with assms show ?thesis
    by (cases r) (simp_all add: process_word_def end_arg_def Let_def plain_word_def)
qed

lemma process_redirections:
  "\<forall>r \<in> set rs. plain_word (redirection_file r) \<Longrightarrow> no_redirection_word (prev_arg st) \<Longrightarrow>
     curr_arg st = '''' \<Longrightarrow>
     \<exists>prev. rfold process_word (concat (map redirection_words rs)) st =
           Inr (st\<lparr>prev_arg := prev, cmd := fold redirect rs (cmd st)\<rparr>)"
proof (induction rs arbitrary: st)
  case Nil
  show ?case by (rule exI [of _ "prev_arg st"]) simp
next
  case (Cons r rs)
  let ?st = "st\<lparr>prev_arg := redirection_file r, cmd := redirect r (cmd st)\<rparr>"
  have "rfold process_word (redirection_words r) st = Inr ?st"
    using Cons.prems by (intro process_redirection) simp_all
  moreover have "\<exists>prev. rfold process_word (concat (map redirection_words rs)) ?st =
      Inr (?st\<lparr>prev_arg := prev, cmd := fold redirect rs (cmd ?st)\<rparr>)"
    using Cons.prems by (intro Cons.IH) (auto simp: plain_word_def)
  ultimately show ?case by (auto simp: rfold_append)
qed

lemma redirection_words_nonspace:
  "plain_word (redirection_file r) \<Longrightarrow> w \<in> set (redirection_words r) \<Longrightarrow> w \<noteq> '''' \<and> list_all nonspace w"
  by (cases r) (auto simp: plain_word_def isspace_def code_def)

lemma fold_redirect_argv:
  "argv (fold redirect rs c) = argv c" "fold redirect rs (c\<lparr>argc := n\<rparr>) = (fold redirect rs c)\<lparr>argc := n\<rparr>"
proof -
  have r: "argv (redirect r c) = argv c" "redirect r (c\<lparr>argc := n\<rparr>) = (redirect r c)\<lparr>argc := n\<rparr>" for r c n
    by (cases r; simp)+
  show "argv (fold redirect rs c) = argv c" by (induction rs arbitrary: c) (simp_all add: r)
  show "fold redirect rs (c\<lparr>argc := n\<rparr>) = (fold redirect rs c)\<lparr>argc := n\<rparr>"
    by (induction rs arbitrary: c) (simp_all add: r)
qed

lemma parseCmd_render:
  assumes "\<forall>a \<in> set args. plain_word a" "length args \<le> MAX_NUM_ARGS"
    and "\<forall>r \<in> set rs. plain_word (redirection_file r)"
    and s: "s = render (args @ concat (map redirection_words rs))"
  shows "parseCmd initCmd s off ppc =
     Inr (fold redirect rs
       (initCmd\<lparr>token := s, par_offset := off, prev_pipe_count := ppc, argc := length args,
                argv := args, argv_size := replicate (length args) 1\<rparr>))"
proof -
  let ?c = "initCmd\<lparr>token := s, par_offset := off, prev_pipe_count := ppc\<rparr>"
  let ?c' = "?c\<lparr>argv := args, argv_size := replicate (length args) 1\<rparr>"
  let ?st = "\<lparr>curr_arg = '''', prev_arg = '''', cmd = ?c\<rparr>"
  let ?st' = "?st\<lparr>prev_arg := (if args = [] then '''' else last args), cmd := ?c'\<rparr>"
  have ws: "words s = args @ concat (map redirection_words rs)"
  proof -
    have "w \<noteq> '''' \<and> list_all nonspace w"
      if w: "w \<in> set (args @ concat (map redirection_words rs))" for w
    proof (cases "w \<in> set args")
      case True
      with assms(1) show ?thesis by (simp add: plain_word_def)
    next
      case False
      with w obtain r where "r \<in> set rs" "w \<in> set (redirection_words r)" by auto
      with assms(3) redirection_words_nonspace show ?thesis by blast
    qed
    then show ?thesis unfolding s by (intro words_render) blast
  qed
  have "rfold process_word args ?st = Inr ?st'"
    using process_args [of args ?st] assms(1,2) by (simp add: initCmd_def)
  moreover obtain prev where "rfold process_word (concat (map redirection_words rs)) ?st' =
      Inr (?st'\<lparr>prev_arg := prev, cmd := fold redirect rs ?c'\<rparr>)"
    using process_redirections [of rs ?st'] assms(1,3) by (cases "args = []") (auto simp: plain_word_def)
  ultimately have "parseCmd initCmd s off ppc =
      Inr ((fold redirect rs ?c')\<lparr>argc := length (argv (fold redirect rs ?c'))\<rparr>)"
    by (simp add: parseCmd_words ws rfold_append)
  moreover have eq: "initCmd\<lparr>token := s, par_offset := off, prev_pipe_count := ppc, argc := length args,
      argv := args, argv_size := replicate (length args) 1\<rparr> = ?c'\<lparr>argc := length args\<rparr>"
    by (simp add: initCmd_def)
  moreover have "argv (fold redirect rs ?c') = args" by (simp add: fold_redirect_argv)
  ultimately show ?thesis unfolding eq fold_redirect_argv(2) by (simp only:)
qed

section \<open>Well-formed commands and pipelines\<close>

definition wf_command :: "command \<Rightarrow> bool" where
  "wf_command c \<longleftrightarrow>
     argc c = length (argv c) \<and> length (argv c) \<le> MAX_NUM_ARGS \<and>
     list_all (\<lambda>a. a \<noteq> '''' \<and> length a \<le> MAX_ARG_LEN) (argv c) \<and>
     length (in_file c) \<le> MAX_ARG_LEN \<and> length (out_file c) \<le> MAX_ARG_LEN \<and>
     argv_size c = replicate (length (argv c)) 1"

text \<open>
  The commands of a pipeline come in groups: one command after \<open>|\<close>, two after \<open>||\<close> and three
  after \<open>|||\<close>, numbered by \<open>par_offset\<close>.
\<close>

fun wf_groups :: "command list \<Rightarrow> bool" where
  "wf_groups [] = True"
| "wf_groups (c # cs) =
     (case prev_pipe_count c of
        UNSET_PIPE \<Rightarrow> False
      | SINGLE_PIPE \<Rightarrow> par_offset c = 0 \<and> wf_groups cs
      | DOUBLE_PIPE \<Rightarrow>
          (case cs of
             d # ds \<Rightarrow> par_offset c = -1 \<and> prev_pipe_count d = DOUBLE_PIPE \<and> par_offset d = -2 \<and> wf_groups ds
           | [] \<Rightarrow> False)
      | TRIPLE_PIPE \<Rightarrow>
          (case cs of
             d # e # es \<Rightarrow>
               par_offset c = -1 \<and> prev_pipe_count d = TRIPLE_PIPE \<and> par_offset d = -2 \<and>
               prev_pipe_count e = TRIPLE_PIPE \<and> par_offset e = -3 \<and> wf_groups es
           | _ \<Rightarrow> False))"

definition wf_pipe :: "command_pipe \<Rightarrow> bool" where
  "wf_pipe p \<longleftrightarrow> count p = length (cmds p) \<and> wf_groups (cmds p) \<and> list_all wf_command (cmds p)"

lemma wf_groups_append: "wf_groups xs \<Longrightarrow> wf_groups ys \<Longrightarrow> wf_groups (xs @ ys)"
  by (induction xs rule: wf_groups.induct) (auto split: pipe_count.splits list.splits)

lemma wf_initCmdPipe: "wf_pipe initCmdPipe"
  by (simp add: wf_pipe_def initCmdPipe_def)

definition wf_parse :: "int \<Rightarrow> pipe_count \<Rightarrow> command \<Rightarrow> bool" where
  "wf_parse off ppc c \<longleftrightarrow> par_offset c = off \<and> prev_pipe_count c = ppc \<and>
     wf_command (c\<lparr>argc := length (argv c)\<rparr>)"

lemma process_word_wf:
  "process_word w st = Inr st' \<Longrightarrow> w \<noteq> '''' \<Longrightarrow> wf_parse off ppc (cmd st) \<Longrightarrow> wf_parse off ppc (cmd st')"
  by (auto simp: process_word_def end_arg_def Let_def wf_parse_def wf_command_def rbind_Inr_iff
        replicate_append_same split: if_splits)

lemma parseCmd_wf:
  assumes "parseCmd initCmd s off ppc = Inr c"
  shows "wf_command c" "par_offset c = off" "prev_pipe_count c = ppc"
proof -
  let ?st = "\<lparr>curr_arg = '''', prev_arg = '''',
    cmd = initCmd\<lparr>token := s, par_offset := off, prev_pipe_count := ppc\<rparr>\<rparr>"
  from assms obtain st where st: "rfold process_word (words s) ?st = Inr st"
      and c: "c = (cmd st)\<lparr>argc := length (argv (cmd st))\<rparr>"
    by (auto simp: parseCmd_words rbind_Inr_iff)
  have "wf_parse off ppc (cmd ?st)" by (simp add: wf_parse_def wf_command_def initCmd_def)
  with st have "wf_parse off ppc (cmd st)"
    by (rule rfold_invariant [where P = "\<lambda>st. wf_parse off ppc (cmd st)"])
       (auto dest: words_spec process_word_wf)
  then show "wf_command c" "par_offset c = off" "prev_pipe_count c = ppc"
    by (simp_all add: c wf_parse_def)
qed

lemma insertCmdInPipe_cmds:
  "count p = length (cmds p) \<Longrightarrow> cmds (insertCmdInPipe p c) = cmds p @ [c]"
  "count (insertCmdInPipe p c) = count p + 1"
  "is_background (insertCmdInPipe p c) = is_background p"
  by (auto simp: insertCmdInPipe_def)

text \<open>Appending one complete group keeps a pipeline well formed.\<close>

lemma wf_pipe_group:
  assumes "wf_pipe p" "wf_groups g" "list_all wf_command g"
  shows "wf_pipe (fold (\<lambda>c q. insertCmdInPipe q c) g p)"
proof -
  have "cmds (fold (\<lambda>c q. insertCmdInPipe q c) g p) = cmds p @ g \<and>
        count (fold (\<lambda>c q. insertCmdInPipe q c) g p) = count p + length g"
    if "count p = length (cmds p)" for p
    using that
  proof (induction g arbitrary: p)
    case (Cons c g)
    then have "count (insertCmdInPipe p c) = length (cmds (insertCmdInPipe p c))"
      by (simp add: insertCmdInPipe_cmds)
    from Cons.IH [OF this] Cons.prems show ?case by (simp add: insertCmdInPipe_cmds)
  qed simp
  from this [of p] assms show ?thesis by (simp add: wf_pipe_def wf_groups_append)
qed

lemma check_background_cmds:
  "check_background p t = (p', t') \<Longrightarrow> cmds p' = cmds p \<and> count p' = count p"
  by (auto simp: check_background_def Let_def split: prod.splits if_splits)

lemma add_segment_wf:
  assumes "add_segment p n t0 = Inr p'" "wf_pipe p"
  shows "wf_pipe p'"
proof -
  obtain q t where q: "check_background p t0 = (q, t)" by fastforce
  with assms(2) have wfq: "wf_pipe q" by (auto dest: check_background_cmds simp: wf_pipe_def)
  have "\<exists>g. p' = fold (\<lambda>c q. insertCmdInPipe q c) g q \<and> wf_groups g \<and> list_all wf_command g"
  proof -
    consider c where "p' = insertCmdInPipe q c" "parseCmd initCmd t 0 SINGLE_PIPE = Inr c"
      | a b c d where "p' = insertCmdInPipe (insertCmdInPipe q c) d"
          "parseCmd initCmd a (-1) DOUBLE_PIPE = Inr c" "parseCmd initCmd b (-2) DOUBLE_PIPE = Inr d"
      | a b f c d e where "p' = insertCmdInPipe (insertCmdInPipe (insertCmdInPipe q c) d) e"
          "parseCmd initCmd a (-1) TRIPLE_PIPE = Inr c" "parseCmd initCmd b (-2) TRIPLE_PIPE = Inr d"
          "parseCmd initCmd f (-3) TRIPLE_PIPE = Inr e"
      using assms(1) q
      by (auto simp: add_segment_def parse_new_def rbind_Inr_iff split: if_splits prod.splits option.splits)
    then show ?thesis
    proof cases
      case (1 c)
      then show ?thesis by (intro exI [of _ "[c]"]) (simp add: parseCmd_wf [OF 1(2)])
    next
      case (2 a b c d)
      then show ?thesis by (intro exI [of _ "[c, d]"]) (simp add: parseCmd_wf [OF 2(2)] parseCmd_wf [OF 2(3)])
    next
      case (3 a b f c d e)
      then show ?thesis 
        by (intro exI [of _ "[c, d, e]"])
           (simp add: parseCmd_wf [OF 3(2)] parseCmd_wf [OF 3(3)] parseCmd_wf [OF 3(4)])
    qed
  qed
  with wfq wf_pipe_group show ?thesis by blast
qed

lemma parse_segments_wf: "parse_segments s n p = Inr p' \<Longrightarrow> wf_pipe p \<Longrightarrow> wf_pipe p'"
  by (induction s n p rule: parse_segments.induct)
     (auto simp: rbind_Inr_iff split: if_splits dest: add_segment_wf)

lemma free_cmds_all: "free_cmds (length cs) cs = Inr cs"
  by (induction cs) simp_all

lemma resetCmdPipe_wf: "wf_pipe p \<Longrightarrow> resetCmdPipe (Some p) = Inr (cmds p)"
  by (simp add: resetCmdPipe_def wf_pipe_def free_cmds_all)

section \<open>The short-cut table\<close>

definition wf_table :: "sc_table \<Rightarrow> bool" where
  "wf_table m \<longleftrightarrow> wf_map m \<and> (\<forall>k \<ge> 0. \<forall>p. map_alpha m k = Some p \<longrightarrow> wf_pipe p)"

lemma read_index_nonneg: "read_index s i = Inr (Some (idx, r)) \<Longrightarrow> 0 \<le> i \<Longrightarrow> 0 \<le> idx"
proof (induction s i rule: read_index.induct)
  case (2 c cs i)
  show ?case
  proof (cases "c = SP \<or> c = NL")
    case True
    with 2 show ?thesis by auto
  next
    case False
    with 2(2) have d: "isdigit c" by (auto split: if_splits)
    with False 2(2) have r: "read_index cs (i * 10 + int (code c) - 48) = Inr (Some (idx, r))"
      by (auto simp: rbind_Inr_iff cint_def split: if_splits)
    moreover have "0 \<le> i * 10 + int (code c) - 48"
      using d 2(3) by (auto simp: isdigit_def)
    moreover have "cint (i * 10 + int (code c)) = Inr (i * 10 + int (code c))"
      using False d 2(2) by (auto simp: rbind_Inr_iff cint_def split: if_splits)
    ultimately show ?thesis using 2(1) [OF False] d by simp
  qed
qed simp

lemma confirm_replace_table:
  assumes "confirm_replace m idx ans = Inr (Some m', ans')" "wf_table m" "0 \<le> idx"
  shows "wf_table m' \<and> map_alpha m' idx = None"
proof -
  obtain d where d: "delete_from_map m idx = Inr (d, m')"
    using assms(1)
    by (auto simp: confirm_replace_def rbind_Inr_iff split: list.splits if_splits prod.splits)
  have wf: "wf_map m" using assms(2) by (simp add: wf_table_def)
  obtain v where v: "map_alpha m idx = Some v"
    using d delete_from_map_absent [OF wf assms(3)] by (cases "map_alpha m idx") auto
  from delete_from_map_present [OF wf assms(3) v] d
  have "wf_map m'" "map_alpha m' = (map_alpha m)(idx := None)" by auto
  with assms(2) show ?thesis by (auto simp: wf_table_def)
qed

lemma insert_into_map_table:
  assumes "insert_into_map m idx (Some p) = Inr m'" "wf_table m" "0 \<le> idx" "wf_pipe p"
  shows "wf_table m'" "map_alpha m' = (map_alpha m)(idx \<mapsto> p)"
proof -
  have wf: "wf_map m" using assms(2) by (simp add: wf_table_def)
  have none: "map_alpha m idx = None"
    using assms(1) insert_into_map_present [OF wf assms(3)] by (cases "map_alpha m idx = None") auto
  from insert_into_map_fresh [OF wf assms(3) none, of p] assms(1)
  have "wf_map m'" and *: "map_alpha m' = (map_alpha m)(idx \<mapsto> p)" by auto
  with assms(2,4) show "wf_table m'" by (auto simp: wf_table_def)
  show "map_alpha m' = (map_alpha m)(idx \<mapsto> p)" by (rule *)
qed

lemma delete_from_map_table:
  assumes "delete_from_map m idx = Inr (d, m')" "wf_table m" "0 \<le> idx"
  shows "wf_table m'" "map_alpha m' = (map_alpha m)(idx := None)"
proof -
  have wf: "wf_map m" using assms(2) by (simp add: wf_table_def)
  obtain v where v: "map_alpha m idx = Some v"
    using assms(1) delete_from_map_absent [OF wf assms(3)] by (cases "map_alpha m idx") auto
  from delete_from_map_present [OF wf assms(3) v] assms(1)
  have "wf_map m'" and *: "map_alpha m' = (map_alpha m)(idx := None)" by auto
  with assms(2) show "wf_table m'" by (auto simp: wf_table_def)
  show "map_alpha m' = (map_alpha m)(idx := None)" by (rule *)
qed

section \<open>Properties\<close>



text \<open>
  Every argument the parser stores overflows its heap block. The block is requested after
  \<open>curr_len\<close> was reset, so it has one byte, while the argument and its NUL need at least two.
\<close>

theorem argument_overflows_block:
  assumes "parseCmd initCmd s off ppc = Inr c" and "i < argc c"
  shows "argv_size c ! i < length (argv c ! i) + 1"
proof -
  have "wf_command c" using assms(1) by (rule parseCmd_wf)
  with assms(2) have "argv c ! i \<noteq> ''''" "argv_size c ! i = 1"
    by (auto simp: wf_command_def list_all_length)
  then show ?thesis by (cases "argv c ! i") simp_all
qed

theorem argument_overflows_block_witness:
  "argv_size (initCmd\<lparr>token := ''ls '', par_offset := 0, prev_pipe_count := SINGLE_PIPE, argc := 1,
     argv := [''ls''], argv_size := [1]\<rparr>) ! 0 < length (''ls'') + 1"
  using argument_overflows_block [of "''ls ''" 0 SINGLE_PIPE
      "initCmd\<lparr>token := ''ls '', par_offset := 0, prev_pipe_count := SINGLE_PIPE, argc := 1,
         argv := [''ls''], argv_size := [1]\<rparr>" 0]
    parseCmd_render [of "[''ls'']" "[]" "''ls ''" 0 SINGLE_PIPE]
  by (simp add: plain_word_def isspace_def code_def)

end
