(* ===== verification/Shell_Driver.thy ===== *)
theory Shell_Driver
  imports Shell_Parse
begin

text \<open>
  The read loop of the shell, \<open>assignment-1/q1/driver.c\<close>: one round reads a line, which after an
  interrupt is the index of a short-cut command and otherwise a command line. The round's effect
  is the new short-cut table and the pipeline handed to \<open>executeCmdPipe\<close>, if any.
\<close>

section \<open>The main loop\<close>

record shell =
  sc_map :: sc_table
  answers :: "string list"
  executed :: "command_pipe list"
  freed :: "command list"

datatype round_result = Next shell | Quit

definition shell_init :: "string list \<Rightarrow> shell" where
  "shell_init ans = \<lparr>sc_map = init_map 19, answers = ans, executed = [], freed = []\<rparr>"

definition main_round :: "string \<Rightarrow> bool \<Rightarrow> shell \<Rightarrow> round_result res" where
  "main_round cmd_input receivedSigInt sh =
     (if cmd_input = [NL] then Inr (Next sh)
      else if receivedSigInt then
        rbind (stringToNum cmd_input) (\<lambda>index.
        rbind (resetCmdPipe (Some initCmdPipe)) (\<lambda>_.
        rbind (find_in_map (sc_map sh) index) (\<lambda>found.
        case found of
          None \<Rightarrow> Inr (Next sh)
        | Some p \<Rightarrow> Inr (Next (sh\<lparr>executed := executed sh @ [p]\<rparr>)))))
      else if cmd_input = ''exit'' @ [NL] then Inr Quit
      else
        rbind (createCmdPipe cmd_input initCmdPipe (sc_map sh) (answers sh)) (\<lambda>(go, p, m', ans').
        let sh = sh\<lparr>sc_map := m', answers := ans'\<rparr> in
        if go then
          let sh = sh\<lparr>executed := executed sh @ [p]\<rparr> in
          if \<not> is_background p
          then rbind (resetCmdPipe (Some p)) (\<lambda>fs. Inr (Next (sh\<lparr>freed := freed sh @ fs\<rparr>)))
          else Inr (Next sh)
        else Inr (Next sh)))"


section \<open>\<open>createCmdPipe\<close> keeps the table\<close>






section \<open>The loop keeps the table\<close>







section \<open>Storing and calling a short-cut command\<close>







section \<open>Properties\<close>





text \<open>
  A line that starts with \<open>sc\<close> and has no minus sign, such as \<open>scp a b\<close>, ends the shell
  instead of running a program: the test for a short-cut command only looks at the first two
  characters, and the missing flag is a failed assertion.
\<close>

theorem sc_prefix_ends_shell:
  assumes "s \<noteq> ''''" and "CHR ''-'' \<notin> set s"
  shows "main_round (''sc'' @ s) False sh = Inl (Exit_failure ''short-cut command flag not found'')"
proof -
  have "strchr (''sc'' @ s) CHR ''-'' = None" using assms(2) by (simp add: strchr_None)
  then have "minus_index (''sc'' @ s) = length (''sc'' @ s)" by (simp only: minus_index_def option.case)
  with assms(1) show ?thesis
    by (simp add: main_round_def createCmdPipe.simps [of "CHR ''s'' # CHR ''c'' # s"])
qed

theorem sc_prefix_ends_shell_witness:
  "main_round (''scp a b'' @ [NL]) False (shell_init []) =
     Inl (Exit_failure ''short-cut command flag not found'')"
  using sc_prefix_ends_shell [of "''p a b'' @ [NL]" "shell_init []"] by simp

end
