(* ===== verification/Shell_Exec.thy ===== *)
theory Shell_Exec
  imports Shell_Parse
begin

text \<open>
  Running a pipeline, \<open>executeCmdPipe\<close> of \<open>assignment-1/q1/shell.c\<close> (lines 400 to 677). The
  parent forks one child per command and waits for it before it forks the next, so the children
  run one after the other. What a program prints is a parameter \<open>prog\<close> (\<open>None\<close> when \<open>execvp\<close>
  fails); \<open>cap\<close> is the capacity of a pipe, \<open>stack\<close> what the uninitialised 500 bytes of the
  copy buffer hold, \<open>tty_in\<close> what the terminal delivers.
\<close>

section \<open>State\<close>

abbreviation STDOUT_BUF_SIZE :: nat where "STDOUT_BUF_SIZE \<equiv> 500"

text \<open>
  \<open>pipes ! j\<close> is what pipe \<open>j\<close> holds, \<open>wr_open ! j\<close> whether the parent still has its write end.
\<close>

record exec_state =
  pipes :: "string list"
  wr_open :: "bool list"
  tty_out :: string
  files :: "string \<Rightarrow> string option"

datatype source = Terminal | Data string

datatype sink = To_terminal | To_pipe nat | To_file string bool

record environment =
  prog :: "string list \<Rightarrow> string \<Rightarrow> string option"
  cap :: nat
  stack :: string
  tty_in :: string

section \<open>Copying the input of a \<open>||\<close> or \<open>|||\<close> command\<close>

definition realloc :: "nat \<Rightarrow> string \<Rightarrow> string" where
  "realloc n b = take n b @ replicate (n - length b) NUL"

text \<open>
  The loop of lines 500 to 510. \<open>inp\<close> is what the pipe still delivers, \<open>buff\<close> the 500 bytes
  read into, \<open>block\<close> the heap block \<open>pipe_data\<close>. \<open>strcpy\<close> copies up to the first NUL of
  \<open>buff\<close>, wherever that is.
\<close>

function copy_loop :: "string \<Rightarrow> string \<Rightarrow> string \<Rightarrow> nat \<Rightarrow> nat \<Rightarrow> (string \<times> nat) res" where
  "copy_loop inp buff block buff_idx buff_cnt =
     (if inp = '''' then Inr (block, buff_idx)
      else
        let chunk = take STDOUT_BUF_SIZE inp; read_cnt = length chunk;
            buff = chunk @ drop read_cnt buff
        in
        if NUL \<notin> set buff then Inl Out_of_bounds
        else
          let copied = takeWhile (\<lambda>c. c \<noteq> NUL) buff @ [NUL] in
          if length block < buff_idx + length copied then Inl Buffer_overflow
          else
            let block = take buff_idx block @ copied @ drop (buff_idx + length copied) block;
                block = (if read_cnt = STDOUT_BUF_SIZE then realloc (STDOUT_BUF_SIZE * buff_cnt) block
                         else block)
            in copy_loop (drop STDOUT_BUF_SIZE inp) buff block (buff_idx + read_cnt) (buff_cnt + 1))"
  by pat_completeness auto
termination
  by (relation "measure (\<lambda>(inp, _). length inp)") auto

declare copy_loop.simps [simp del]

definition write_pipe :: "nat \<Rightarrow> string \<Rightarrow> string \<Rightarrow> string res" where
  "write_pipe cp content d = (if cp < length content + length d then Inl Blocked else Inr (content @ d))"

definition pipe_index :: "nat \<Rightarrow> int \<Rightarrow> nat res" where
  "pipe_index n j = (if 0 \<le> j \<and> j < int n then Inr (nat j) else Inl Out_of_bounds)"

text \<open>
  Reading pipe \<open>j\<close> to its end: the end only comes when no process holds the write end, that is,
  when the parent has closed it.
\<close>

definition read_all :: "exec_state \<Rightarrow> nat \<Rightarrow> string res" where
  "read_all st j = (if wr_open st ! j then Inl Blocked else Inr (pipes st ! j))"

definition must_copy :: "command \<Rightarrow> bool" where
  "must_copy c \<longleftrightarrow>
     par_offset c = -1 \<or> (par_offset c = -2 \<and> prev_pipe_count c = TRIPLE_PIPE)"

text \<open>
  Where child \<open>i\<close> of \<open>n\<close> reads (lines 485 to 538): the terminal, the pipe before it, or, for a
  command that shares its input, a temporary pipe holding the copy, which also goes into pipe \<open>i\<close>.
\<close>

definition child_input ::
  "environment \<Rightarrow> nat \<Rightarrow> nat \<Rightarrow> command \<Rightarrow> exec_state \<Rightarrow> (source \<times> exec_state) res" where
  "child_input env n i c st =
     (if i < n - 1 \<and> must_copy c then
        rbind (pipe_index (n - 1) (int i - 1)) (\<lambda>j.
        rbind (read_all st j) (\<lambda>inp.
        rbind (copy_loop inp (stack env) (replicate STDOUT_BUF_SIZE NUL) 0 1) (\<lambda>(pipe_data, buff_idx).
        if length pipe_data < buff_idx then Inl Out_of_bounds
        else
        rbind (write_pipe (cap env) '''' (take buff_idx pipe_data)) (\<lambda>temp.
        rbind (write_pipe (cap env) (pipes st ! i) (take buff_idx pipe_data)) (\<lambda>nxt.
        Inr (Data temp, st\<lparr>pipes := (pipes st)[j := '''', i := nxt]\<rparr>))))))
      else if i \<noteq> 0 then
        rbind (pipe_index (n - 1) (int i - 1)) (\<lambda>j.
        rbind (read_all st j) (\<lambda>inp. Inr (Data inp, st\<lparr>pipes := (pipes st)[j := '''']\<rparr>)))
      else Inr (Terminal, st))"

text \<open>Where child \<open>i\<close> of \<open>n\<close> writes (lines 540 to 594).\<close>

definition child_output :: "nat \<Rightarrow> nat \<Rightarrow> command \<Rightarrow> sink res" where
  "child_output n i c =
     (let pipe = (\<lambda>j. rbind (pipe_index (n - 1) (int j)) (\<lambda>k. Inr (To_pipe k))) in
      if i \<noteq> n - 1 then
        if par_offset c = -1 then
          (if prev_pipe_count c = DOUBLE_PIPE then
             (if int i \<noteq> int n - 2 then pipe (i + 1) else Inr To_terminal)
           else if prev_pipe_count c = TRIPLE_PIPE then
             (if int i \<noteq> int n - 3 then pipe (i + 2) else Inr To_terminal)
           else pipe i)
        else if par_offset c = -2 then
          (if prev_pipe_count c = TRIPLE_PIPE then
             (if int i \<noteq> int n - 2 then pipe (i + 1) else Inr To_terminal)
           else pipe i)
        else pipe i
      else Inr To_terminal)"

text \<open>
  The redirections (lines 601 to 629). \<open>open\<close> of an empty name fails, and so does opening a file
  for reading that is not there; the child then ends without running its program. Both
  branches open \<open>out_file\<close>.
\<close>

definition open_read :: "(string \<Rightarrow> string option) \<Rightarrow> string \<Rightarrow> string option" where
  "open_read fs f = (if f = '''' then None else fs f)"

definition redirect_output :: "command \<Rightarrow> sink \<Rightarrow> exec_state \<Rightarrow> (sink \<times> exec_state) option" where
  "redirect_output c snk st =
     (if out_redirect c then
        if out_file c = '''' then None
        else if out_append c then
          Some (To_file (out_file c) True,
                st\<lparr>files := (files st)(out_file c \<mapsto>
                     (case files st (out_file c) of None \<Rightarrow> '''' | Some t \<Rightarrow> t))\<rparr>)
        else Some (To_file (out_file c) False, st\<lparr>files := (files st)(out_file c \<mapsto> '''')\<rparr>)
      else Some (snk, st))"

definition redirect_input :: "command \<Rightarrow> source \<Rightarrow> exec_state \<Rightarrow> source option" where
  "redirect_input c src st =
     (if in_redirect c then map_option Data (open_read (files st) (out_file c)) else Some src)"

definition deliver :: "environment \<Rightarrow> sink \<Rightarrow> string \<Rightarrow> exec_state \<Rightarrow> exec_state res" where
  "deliver env snk out st =
     (case snk of
        To_terminal \<Rightarrow> Inr (st\<lparr>tty_out := tty_out st @ out\<rparr>)
      | To_pipe j \<Rightarrow> rbind (write_pipe (cap env) (pipes st ! j) out) (\<lambda>d. Inr (st\<lparr>pipes := (pipes st)[j := d]\<rparr>))
      | To_file f app \<Rightarrow>
          Inr (st\<lparr>files := (files st)(f \<mapsto> (case files st f of None \<Rightarrow> '''' | Some t \<Rightarrow> t) @ out)\<rparr>))"

text \<open>The child of round \<open>i\<close> (lines 482 to 632).\<close>

definition run_child :: "environment \<Rightarrow> nat \<Rightarrow> nat \<Rightarrow> command \<Rightarrow> exec_state \<Rightarrow> exec_state res" where
  "run_child env n i c st =
     rbind (child_input env n i c st) (\<lambda>(src, st).
     rbind (child_output n i c) (\<lambda>snk.
     case redirect_output c snk st of
       None \<Rightarrow> Inr st
     | Some (snk, st) \<Rightarrow>
         (case redirect_input c src st of
            None \<Rightarrow> Inr st
          | Some src \<Rightarrow>
              (case prog env (argv c) (case src of Terminal \<Rightarrow> tty_in env | Data d \<Rightarrow> d) of
                 None \<Rightarrow> Inr st
               | Some out \<Rightarrow> deliver env snk out st))))"

text \<open>
  The loop of lines 472 to 643: the parent closes the write end of pipe \<open>i\<close> once child \<open>i\<close> is
  forked, and waits for the child.
\<close>

fun run_rounds :: "environment \<Rightarrow> nat \<Rightarrow> nat \<Rightarrow> command list \<Rightarrow> exec_state \<Rightarrow> exec_state res" where
  "run_rounds env n i [] st = Inr st"
| "run_rounds env n i (c # cs) st =
     rbind (run_child env n i c st) (\<lambda>st.
     run_rounds env n (i + 1) cs
       (if i \<noteq> n - 1 then st\<lparr>wr_open := (wr_open st)[i := False]\<rparr> else st))"

datatype terminal_event = Give_to_pipeline | Give_to_shell | Wait_for_pipeline

text \<open>
  \<open>executeCmdPipe\<close>: \<open>count - 1\<close> fresh pipes, the rounds, and who gets the terminal: a background
  pipeline neither gets it nor is waited for.
\<close>

definition executeCmdPipe ::
  "environment \<Rightarrow> command_pipe option \<Rightarrow> exec_state \<Rightarrow> (terminal_event list \<times> exec_state) res" where
  "executeCmdPipe env p st =
     (case p of
        None \<Rightarrow> Inr ([], st)
      | Some q \<Rightarrow>
          rbind (run_rounds env (count q) 0 (cmds q)
                   (st\<lparr>pipes := replicate (count q - 1) '''', wr_open := replicate (count q - 1) True\<rparr>))
            (\<lambda>st'. Inr (if is_background q then [] else [Give_to_pipeline, Wait_for_pipeline, Give_to_shell],
                        st'\<lparr>pipes := [], wr_open := []\<rparr>)))"

text \<open>
  The elements of \<open>pipe_fd\<close> that round \<open>i\<close> reads before it knows whether it needs them (lines
  478 and 485); the array has \<open>count - 1\<close> elements.
\<close>

definition eager_reads :: "nat \<Rightarrow> int list" where
  "eager_reads i = [int i, int i - 1]"

section \<open>What the plumbing computes\<close>


subsection \<open>Copying\<close>



lemma copy_loop_large:
  assumes "NUL \<notin> set d" "STDOUT_BUF_SIZE \<le> length d" "length buff = STDOUT_BUF_SIZE"
  shows "copy_loop d buff block 0 1 = Inl Out_of_bounds"
proof -
  have "d \<noteq> ''''" "length (take STDOUT_BUF_SIZE d) = STDOUT_BUF_SIZE" using assms(2) by auto
  moreover have "NUL \<notin> set (take STDOUT_BUF_SIZE d)" using assms(1) by (meson in_set_takeD)
  ultimately show ?thesis using assms(3) by (subst copy_loop.simps) (simp add: Let_def)
qed

subsection \<open>One group of commands\<close>

definition plain_io :: "command \<Rightarrow> bool" where
  "plain_io c \<longleftrightarrow> \<not> in_redirect c \<and> \<not> out_redirect c"











subsection \<open>A whole pipeline\<close>




section \<open>Properties\<close>



text \<open>
  Copying 500 or more bytes for a \<open>||\<close> or \<open>|||\<close> command reads past the copy buffer. When the
  first command prints that much, none of it a NUL, the child of the second one runs \<open>strcpy\<close>
  on a full 500-byte buffer that holds no terminator.
\<close>

theorem copying_500_bytes_reads_out_of_bounds:
  assumes "wf_pipe p" "cmds p = a # b # cs" "prev_pipe_count a = SINGLE_PIPE" "prev_pipe_count b \<noteq> SINGLE_PIPE"
    and "plain_io a" "prog env (argv a) (tty_in env) = Some x"
    and "NUL \<notin> set x" "STDOUT_BUF_SIZE \<le> length x" "length x \<le> cap env" "length (stack env) = STDOUT_BUF_SIZE"
  shows "executeCmdPipe env (Some p) st = Inl Out_of_bounds"
proof -
  let ?n = "count p"
  let ?st = "st\<lparr>pipes := replicate (?n - 1) '''', wr_open := replicate (?n - 1) True\<rparr>"
  let ?st1 = "?st\<lparr>pipes := (replicate (?n - 1) '''')[0 := x], wr_open := (replicate (?n - 1) True)[0 := False]\<rparr>"
  from assms(1-4) have n: "?n = length (cmds p)" "2 < ?n" and a: "par_offset a = 0" and b: "par_offset b = -1"
    by (auto simp: wf_pipe_def split: pipe_count.splits list.splits)
  have "child_input env ?n 0 a ?st = Inr (Terminal, ?st)" "child_output ?n 0 a = Inr (To_pipe 0)"
    using a n by (simp_all add: child_input_def must_copy_def child_output_def pipe_index_def)
  then have r1: "run_child env ?n 0 a ?st = Inr (?st\<lparr>pipes := (replicate (?n - 1) '''')[0 := x]\<rparr>)"
    using assms(5,6,9) n
    by (simp add: run_child_def redirect_output_def redirect_input_def plain_io_def deliver_def write_pipe_def)
  have "copy_loop x (stack env) (replicate STDOUT_BUF_SIZE NUL) 0 1 = Inl Out_of_bounds"
    using assms(7,8,10) by (rule copy_loop_large)
  then have "child_input env ?n 1 b ?st1 = Inl Out_of_bounds"
    using b n by (simp add: child_input_def must_copy_def pipe_index_def read_all_def)
  then have "run_child env ?n 1 b ?st1 = Inl Out_of_bounds" by (simp add: run_child_def)
  with r1 n show ?thesis by (simp add: executeCmdPipe_def assms(2))
qed

theorem copying_500_bytes_reads_out_of_bounds_witness:
  "\<exists>p. parse_segments (Some ''ls || wc, tr'') 1 initCmdPipe = Inr p \<and>
     executeCmdPipe \<lparr>prog = (\<lambda>a x. Some (replicate 600 CHR ''x'')), cap = 65536, stack = replicate 500 NUL, tty_in = ''''\<rparr>
       (Some p) \<lparr>pipes = [], wr_open = [], tty_out = '''', files = Map.empty\<rparr> = Inl Out_of_bounds"
proof -
  let ?c = "\<lambda>a t off ppc. initCmd\<lparr>argc := 1, argv := [a], argv_size := [1], token := t, par_offset := off,
      prev_pipe_count := ppc\<rparr>"
  let ?p = "\<lparr>cmds = [?c ''ls'' ''ls '' 0 SINGLE_PIPE, ?c ''wc'' '' wc'' (-1) DOUBLE_PIPE,
      ?c ''tr'' '' tr'' (-2) DOUBLE_PIPE], count = 3, is_background = False\<rparr>"
  have p: "parse_segments (Some ''ls || wc, tr'') 1 initCmdPipe = Inr ?p" by code_simp
  have "wf_pipe ?p" by (rule parse_segments_wf [OF p wf_initCmdPipe])
  then show ?thesis
    by (intro exI [of _ ?p] conjI p copying_500_bytes_reads_out_of_bounds)
       (auto simp: plain_io_def initCmd_def)
qed

text \<open>
  A command whose only redirection is \<open>< file\<close> never runs. The child opens \<open>out_file\<close>, which
  is empty, instead of \<open>in_file\<close>, so whatever the program, the file and the arguments are, the
  pipeline prints nothing and changes no file.
\<close>

theorem input_redirection_never_runs:
  assumes "\<forall>a \<in> set args. plain_word a" "length args \<le> MAX_NUM_ARGS" "plain_word file"
  shows "\<exists>c ev st'. parseCmd initCmd (render (args @ [''<'', file])) 0 SINGLE_PIPE = Inr c \<and> in_file c = file \<and>
     executeCmdPipe env (Some (insertCmdInPipe initCmdPipe c)) st = Inr (ev, st') \<and>
     tty_out st' = tty_out st \<and> files st' = files st"
proof -
  have "parseCmd initCmd (render (args @ concat (map redirection_words [From file]))) 0 SINGLE_PIPE =
     Inr (fold redirect [From file]
       (initCmd\<lparr>token := render (args @ concat (map redirection_words [From file])), par_offset := 0,
                prev_pipe_count := SINGLE_PIPE, argc := length args, argv := args,
                argv_size := replicate (length args) 1\<rparr>))"
    using assms by (intro parseCmd_render) simp_all
  then obtain c where c: "parseCmd initCmd (render (args @ [''<'', file])) 0 SINGLE_PIPE = Inr c"
      "in_file c = file" "in_redirect c" "\<not> out_redirect c" "out_file c = ''''" "par_offset c = 0"
    by (auto simp: initCmd_def)
  have "run_child env 1 0 c s = Inr s" for s
    using c by (simp add: run_child_def child_input_def child_output_def redirect_output_def
        redirect_input_def open_read_def must_copy_def)
  with c(1,2) show ?thesis
    by (simp add: executeCmdPipe_def insertCmdInPipe_def initCmdPipe_def)
qed

theorem input_redirection_never_runs_witness:
  "\<exists>c ev st'. parseCmd initCmd ''cat < notes.txt '' 0 SINGLE_PIPE = Inr c \<and> in_file c = ''notes.txt'' \<and>
     executeCmdPipe \<lparr>prog = (\<lambda>a x. Some x), cap = 65536, stack = '''', tty_in = ''''\<rparr>
       (Some (insertCmdInPipe initCmdPipe c))
       \<lparr>pipes = [], wr_open = [], tty_out = '''', files = [''notes.txt'' \<mapsto> ''text'']\<rparr> = Inr (ev, st') \<and>
     tty_out st' = ''''"
  using input_redirection_never_runs [of "[''cat'']" "''notes.txt''"
      "\<lparr>prog = (\<lambda>a x. Some x), cap = 65536, stack = '''', tty_in = ''''\<rparr>"
      "\<lparr>pipes = [], wr_open = [], tty_out = '''', files = [''notes.txt'' \<mapsto> ''text'']\<rparr>"]
  by (auto simp: plain_word_def isspace_def code_def)

end
