(* ===== verification/Shell_Fds.thy ===== *)
theory Shell_Fds
  imports Shell_Exec
begin

text \<open>
  The file descriptors of \<open>executeCmdPipe\<close>, \<open>assignment-1/q1/shell.c\<close>: which numbers the parent and its
  children open, duplicate and close. \<open>Shell_Exec\<close> describes a pipeline by where each command reads and
  writes; here the tables of descriptors are followed number by number, and the two descriptions are
  shown to agree. The printing functions of the shell are here too.
\<close>

section \<open>Tables of descriptors\<close>

datatype fd_object = Tty | Read_end nat | Write_end nat | Temp_read | Temp_write

type_synonym fd_table = "nat \<Rightarrow> fd_object option"

text \<open>\<open>close\<close>, \<open>dup2\<close> and \<open>pipe\<close>. The system gives the lowest free number, below the limit \<open>lim\<close>.\<close>

definition fd_close :: "int \<Rightarrow> fd_table \<Rightarrow> fd_table" where
  "fd_close fd t = (if 0 \<le> fd then t(nat fd := None) else t)"

definition fd_dup2 :: "int \<Rightarrow> nat \<Rightarrow> fd_table \<Rightarrow> fd_table res" where
  "fd_dup2 fd to t =
     (if 0 \<le> fd \<and> t (nat fd) \<noteq> None then Inr (t(to := t (nat fd))) else Inl (Exit_failure ''dup2''))"

definition fd_pipe :: "nat \<Rightarrow> fd_object \<Rightarrow> fd_object \<Rightarrow> fd_table \<Rightarrow> ((nat \<times> nat) \<times> fd_table) res" where
  "fd_pipe lim r w t =
     (case filter (\<lambda>n. t n = None) [0..<lim] of
        a # b # _ \<Rightarrow> Inr ((a, b), t(a \<mapsto> r, b \<mapsto> w))
      | _ \<Rightarrow> Inl (Exit_failure ''pipe''))"

section \<open>Opening and closing\<close>

text \<open>Lines 467 to 470: pipe \<open>j\<close> and the following ones.\<close>

fun open_pipes :: "nat \<Rightarrow> nat \<Rightarrow> nat \<Rightarrow> fd_table \<Rightarrow> ((nat \<times> nat) list \<times> fd_table) res" where
  "open_pipes lim j 0 t = Inr ([], t)"
| "open_pipes lim j (Suc m) t =
     rbind (fd_pipe lim (Read_end j) (Write_end j) t) (\<lambda>(p, t).
     rbind (open_pipes lim (Suc j) m t) (\<lambda>(ps, t). Inr (p # ps, t)))"

fun closeAllFdExcept :: "(nat \<times> nat) list \<Rightarrow> int \<Rightarrow> bool \<Rightarrow> fd_table \<Rightarrow> fd_table" where
  "closeAllFdExcept [] except_fd is_read t = t"
| "closeAllFdExcept (p # ps) except_fd is_read t =
     (let fd = int (if is_read then fst p else snd p) in
      if fd = except_fd then closeAllFdExcept ps except_fd is_read t
      else closeAllFdExcept ps except_fd is_read (fd_close fd t))"

definition closeAllPipeFd :: "(nat \<times> nat) list \<Rightarrow> fd_table \<Rightarrow> fd_table" where
  "closeAllPipeFd ps t = closeAllFdExcept ps (-1) False (closeAllFdExcept ps (-1) True t)"

text \<open>What the parent closes in round \<open>i\<close> (lines 635 to 639), after it has forked the child.\<close>

definition parent_closes :: "nat \<Rightarrow> (nat \<times> nat) list \<Rightarrow> nat \<Rightarrow> fd_table \<Rightarrow> fd_table" where
  "parent_closes n ps i t =
     (let t = (if i \<noteq> n - 1 then fd_close (int (snd (ps ! i))) t else t) in
      if i \<noteq> 0 then fd_close (int (fst (ps ! (i - 1)))) t else t)"

text \<open>The parent's table before round \<open>i\<close>.\<close>

fun parent_table :: "nat \<Rightarrow> (nat \<times> nat) list \<Rightarrow> nat \<Rightarrow> fd_table \<Rightarrow> fd_table" where
  "parent_table n ps 0 t = t"
| "parent_table n ps (Suc i) t = parent_closes n ps i (parent_table n ps i t)"

section \<open>The child of a round\<close>

text \<open>
  Lines 485 to 538. \<open>junk\<close> is what \<open>pipe_fd[-1][0]\<close> reads. A command that shares its input gets it from
  a temporary pipe, whose numbers can be those of ends the parent has closed.
\<close>

definition child_reads :: "nat \<Rightarrow> int \<Rightarrow> nat \<Rightarrow> (nat \<times> nat) list \<Rightarrow> nat \<Rightarrow> command \<Rightarrow> fd_table \<Rightarrow> fd_table res" where
  "child_reads lim junk n ps i c t =
     (let read_pipe = (if i \<noteq> 0 then int (fst (ps ! (i - 1))) else junk) in
      rbind (if i < n - 1 \<and> must_copy c then
               rbind (fd_pipe lim Temp_read Temp_write t) (\<lambda>(temp_fd, t).
               rbind (fd_dup2 (int (fst temp_fd)) 0 (fd_close (int (snd temp_fd)) t)) (\<lambda>t. Inr (-1, t)))
             else Inr (read_pipe, t)) (\<lambda>(read_pipe, t).
      if i \<noteq> 0 then
        let t = closeAllFdExcept ps read_pipe True t in
        if read_pipe \<noteq> -1 then fd_dup2 read_pipe 0 t else Inr t
      else Inr (closeAllFdExcept ps (-1) True t)))"

text \<open>The descriptor that line 599 makes the standard output, -1 for none (lines 540 to 594).\<close>

definition write_fd :: "nat \<Rightarrow> (nat \<times> nat) list \<Rightarrow> nat \<Rightarrow> command \<Rightarrow> int" where
  "write_fd n ps i c =
     (if i \<noteq> n - 1 then
        if par_offset c = -1 \<and> prev_pipe_count c = DOUBLE_PIPE then
          (if int i \<noteq> int n - 2 then int (snd (ps ! (i + 1))) else -1)
        else if par_offset c = -1 \<and> prev_pipe_count c = TRIPLE_PIPE then
          (if int i \<noteq> int n - 3 then int (snd (ps ! (i + 2))) else -1)
        else if par_offset c = -2 \<and> prev_pipe_count c = TRIPLE_PIPE then
          (if int i \<noteq> int n - 2 then int (snd (ps ! (i + 1))) else -1)
        else int (snd (ps ! i))
      else -1)"

text \<open>The child's table when it runs its program, redirections aside.\<close>

definition child_table :: "nat \<Rightarrow> int \<Rightarrow> nat \<Rightarrow> (nat \<times> nat) list \<Rightarrow> nat \<Rightarrow> command \<Rightarrow> fd_table \<Rightarrow> fd_table res" where
  "child_table lim junk n ps i c t =
     rbind (child_reads lim junk n ps i c t) (\<lambda>t.
     let w = write_fd n ps i c;
         t = closeAllFdExcept ps w False t
     in if w \<noteq> -1 then fd_dup2 w 1 t else Inr t)"

section \<open>Printing\<close>

definition sigIntExecCmdHandler :: string where
  "sigIntExecCmdHandler = [NL] @ ''Please wait while the command finishes executing.'' @ [NL]"

fun pipe_count_number :: "pipe_count \<Rightarrow> int" where
  "pipe_count_number UNSET_PIPE = 0"
| "pipe_count_number SINGLE_PIPE = 1"
| "pipe_count_number DOUBLE_PIPE = 2"
| "pipe_count_number TRIPLE_PIPE = 3"

definition show_bool :: "bool \<Rightarrow> string" where
  "show_bool b = (if b then ''1'' else ''0'')"

definition printCmd :: "command \<Rightarrow> string" where
  "printCmd c =
     [NL] @ ''--- BEGIN COMMAND ---'' @ [NL] @ ''token: '' @ token c @ [NL] @
     ''in_redirect: '' @ show_bool (in_redirect c) @ '', out_redirect: '' @ show_bool (out_redirect c) @
     '', out_append: '' @ show_bool (out_append c) @ '', par_offest: '' @ show_int (par_offset c) @
     '', pipe_count: '' @ show_int (pipe_count_number (prev_pipe_count c)) @ [NL] @
     ''in_file: '' @ in_file c @ [NL] @ ''out_file: '' @ out_file c @ [NL] @
     ''argc: '' @ show_int (int (argc c)) @ [NL] @
     ''argv: '' @ concat (map (\<lambda>a. a @ '', '') (take (argc c) (argv c))) @ [NL] @ ''--- END COMMAND ---'' @ [NL]"

definition printCmdPipe :: "command_pipe option \<Rightarrow> string" where
  "printCmdPipe p =
     (case p of
        None \<Rightarrow> ''No command in pipeline.'' @ [NL]
      | Some p \<Rightarrow> ''is_background? '' @ show_bool (is_background p) @ [NL, NL] @ concat (map printCmd (cmds p)))"

section \<open>What the tables hold\<close>

definition stdio :: "fd_table \<Rightarrow> bool" where
  "stdio t \<longleftrightarrow> t 0 = Some Tty \<and> t 1 = Some Tty \<and> (\<forall>x obj. t x = Some obj \<longrightarrow> obj = Tty)"

text \<open>\<open>m\<close> pipes from number \<open>j\<close> on are open at \<open>ps\<close>, and elsewhere the table is \<open>t\<close>.\<close>

definition opened :: "nat \<Rightarrow> nat \<Rightarrow> (nat \<times> nat) list \<Rightarrow> fd_table \<Rightarrow> fd_table \<Rightarrow> bool" where
  "opened j m ps t t' \<longleftrightarrow> length ps = m \<and>
     (\<forall>k < m. t' (fst (ps ! k)) = Some (Read_end (j + k)) \<and> t' (snd (ps ! k)) = Some (Write_end (j + k)) \<and>
        t (fst (ps ! k)) = None \<and> t (snd (ps ! k)) = None) \<and>
     (\<forall>x. (\<forall>k < m. x \<noteq> fst (ps ! k) \<and> x \<noteq> snd (ps ! k)) \<longrightarrow> t' x = t x)"

lemma fd_pipe_Inr:
  assumes "fd_pipe lim r w t = Inr ((a, b), t')"
  shows "t a = None" "t b = None" "a \<noteq> b" "t' = t(a \<mapsto> r, b \<mapsto> w)"
proof -
  obtain rest where f: "filter (\<lambda>n. t n = None) [0..<lim] = a # b # rest" and t': "t' = t(a \<mapsto> r, b \<mapsto> w)"
    using assms by (auto simp: fd_pipe_def split: list.splits)
  have "\<forall>n \<in> set (filter (\<lambda>n. t n = None) [0..<lim]). t n = None" "distinct (filter (\<lambda>n. t n = None) [0..<lim])" by simp_all
  then show "t a = None" "t b = None" "a \<noteq> b" "t' = t(a \<mapsto> r, b \<mapsto> w)" using t' unfolding f by simp_all
qed

lemma open_pipes_opened: "open_pipes lim j m t = Inr (ps, t') \<Longrightarrow> opened j m ps t t'"
proof (induction lim j m t arbitrary: ps t' rule: open_pipes.induct)
  case (2 lim j m t)
  then obtain a b t1 qs where 1: "fd_pipe lim (Read_end j) (Write_end j) t = Inr ((a, b), t1)"
      "open_pipes lim (Suc j) m t1 = Inr (qs, t')" "ps = (a, b) # qs"
    by (auto simp: rbind_Inr_iff)
  note p = fd_pipe_Inr [OF 1(1)]
  have IH: "opened (Suc j) m qs t1 t'" using "2.IH" [OF 1(1) _ 1(2)] by simp
  then have new: "t (fst (qs ! k)) = None" "t (snd (qs ! k)) = None" "a \<noteq> fst (qs ! k)" "a \<noteq> snd (qs ! k)"
      "b \<noteq> fst (qs ! k)" "b \<noteq> snd (qs ! k)" if "k < m" for k
    using that p by (auto simp: opened_def split: if_splits)
  then have "t' a = t1 a" "t' b = t1 b" using IH by (auto simp: opened_def)
  moreover have "t' x = t x" if "\<forall>k < Suc m. x \<noteq> fst (ps ! k) \<and> x \<noteq> snd (ps ! k)" for x
  proof -
    have "x \<noteq> a" "x \<noteq> b" using that 1(3) by force+
    moreover have "\<forall>k < m. x \<noteq> fst (qs ! k) \<and> x \<noteq> snd (qs ! k)" using that 1(3) by force
    then have "t' x = t1 x" using IH by (simp add: opened_def)
    ultimately show ?thesis using p(4) by simp
  qed
  ultimately show ?case using IH p 1(3) new by (auto simp: opened_def nth_Cons' less_Suc_eq_0_disj)
qed (simp add: opened_def)

text \<open>The numbers of two different ends differ, because they name different ends.\<close>

lemma opened_numbers:
  assumes "opened 0 m ps t t'" "stdio t" "k < m" "l < m"
  shows "fst (ps ! k) \<noteq> snd (ps ! l)" "fst (ps ! k) = fst (ps ! l) \<longleftrightarrow> k = l" "snd (ps ! k) = snd (ps ! l) \<longleftrightarrow> k = l"
    "fst (ps ! k) \<notin> {0, 1}" "snd (ps ! k) \<notin> {0, 1}"
proof -
  have at: "t' (fst (ps ! k)) = Some (Read_end k)" "t' (snd (ps ! k)) = Some (Write_end k)"
    "t' (fst (ps ! l)) = Some (Read_end l)" "t' (snd (ps ! l)) = Some (Write_end l)"
    "t (fst (ps ! k)) = None" "t (snd (ps ! k)) = None"
    using assms(1,3,4) by (auto simp: opened_def)
  show "fst (ps ! k) \<noteq> snd (ps ! l)" "fst (ps ! k) = fst (ps ! l) \<longleftrightarrow> k = l" "snd (ps ! k) = snd (ps ! l) \<longleftrightarrow> k = l"
    using at by (metis fd_object.distinct(9) option.inject fd_object.inject)+
  show "fst (ps ! k) \<notin> {0, 1}" "snd (ps ! k) \<notin> {0, 1}"
    using at(5,6) assms(2) unfolding stdio_def by (metis insert_iff empty_iff option.distinct(1))+
qed

lemma opened_ends:
  assumes "opened 0 m ps t t'" "stdio t"
  shows "t' x = Some (Read_end k) \<longleftrightarrow> k < m \<and> x = fst (ps ! k)"
    and "t' x = Some (Write_end k) \<longleftrightarrow> k < m \<and> x = snd (ps ! k)"
    and "t' 0 = Some Tty" "t' 1 = Some Tty"
proof -
  have at: "t' (fst (ps ! l)) = Some (Read_end l)" "t' (snd (ps ! l)) = Some (Write_end l)" if "l < m" for l
    using assms(1) that by (simp_all add: opened_def)
  have other: "t' x = t x" if "\<forall>l < m. x \<noteq> fst (ps ! l) \<and> x \<noteq> snd (ps ! l)" for x
    using assms(1) that by (simp add: opened_def)
  have "t x \<noteq> Some (Read_end k)" "t x \<noteq> Some (Write_end k)" using assms(2) by (auto simp: stdio_def)
  then show "t' x = Some (Read_end k) \<longleftrightarrow> k < m \<and> x = fst (ps ! k)"
    "t' x = Some (Write_end k) \<longleftrightarrow> k < m \<and> x = snd (ps ! k)"
    using at other [of x] by (metis fd_object.distinct fd_object.inject option.inject)+
  have "t' y = t y" if "y \<in> {0, 1}" for y
    using opened_numbers(4,5) [OF assms] that by (intro other) metis
  then show "t' 0 = Some Tty" "t' 1 = Some Tty" using assms(2) by (simp_all add: stdio_def)
qed

lemma fd_close_at: "fd_close (int n) t x = (if x = n then None else t x)"
  by (simp add: fd_close_def)

lemma closeAllFdExcept_at:
  "closeAllFdExcept ps e r t x =
     (if \<exists>p \<in> set ps. x = (if r then fst p else snd p) \<and> int x \<noteq> e then None else t x)"
  by (induction ps arbitrary: t) (auto simp: fd_close_at Let_def)

lemma parent_closes_at:
  "parent_closes n ps i t x =
     (if i \<noteq> n - 1 \<and> x = snd (ps ! i) \<or> i \<noteq> 0 \<and> x = fst (ps ! (i - 1)) then None else t x)"
  by (auto simp: parent_closes_def fd_close_at Let_def)

lemma parent_table_at:
  "i \<le> n \<Longrightarrow> parent_table n ps i t x =
     (if (\<exists>k. k < i \<and> k < n - 1 \<and> x = snd (ps ! k)) \<or> (\<exists>k. Suc k < i \<and> x = fst (ps ! k)) then None else t x)"
proof (induction i)
  case (Suc i)
  have r: "(\<exists>k. Suc k < Suc i \<and> x = fst (ps ! k)) \<longleftrightarrow> i \<noteq> 0 \<and> x = fst (ps ! (i - 1)) \<or> (\<exists>k. Suc k < i \<and> x = fst (ps ! k))"
    by (cases i) (auto simp: less_Suc_eq)
  have w: "(\<exists>k. k < Suc i \<and> k < n - 1 \<and> x = snd (ps ! k)) \<longleftrightarrow>
      i \<noteq> n - 1 \<and> x = snd (ps ! i) \<or> (\<exists>k. k < i \<and> k < n - 1 \<and> x = snd (ps ! k))"
    using Suc.prems by (auto simp: less_Suc_eq)
  have IH: "parent_table n ps i t x =
     (if (\<exists>k. k < i \<and> k < n - 1 \<and> x = snd (ps ! k)) \<or> (\<exists>k. Suc k < i \<and> x = fst (ps ! k)) then None else t x)"
    using Suc by simp
  have "(if A \<or> B then None else if C \<or> D then None else v) = (if (A \<or> C) \<or> B \<or> D then None else v)"
    for A B C D and v :: "fd_object option" by simp
  then show ?case unfolding parent_table.simps parent_closes_at IH r w .
qed simp

lemma closeAll_index:
  "closeAllFdExcept ps e r t x =
     (if \<exists>k < length ps. x = (if r then fst (ps ! k) else snd (ps ! k)) \<and> int x \<noteq> e then None else t x)"
proof -
  have "(\<exists>p \<in> set ps. Q p) \<longleftrightarrow> (\<exists>k < length ps. Q (ps ! k))" for Q by (metis in_set_conv_nth)
  from this [of "\<lambda>p. x = (if r then fst p else snd p) \<and> int x \<noteq> e"] show ?thesis
    unfolding closeAllFdExcept_at by (simp only:)
qed

section \<open>One child\<close>

text \<open>The ends a process holds before round \<open>i\<close>: the read ends from \<open>i - 1\<close> and the write ends from \<open>i\<close>.\<close>

definition ends_from :: "nat \<Rightarrow> nat \<Rightarrow> (nat \<times> nat) list \<Rightarrow> fd_table \<Rightarrow> bool" where
  "ends_from n i ps t \<longleftrightarrow> length ps = n - 1 \<and> t 0 = Some Tty \<and> t 1 = Some Tty \<and>
     (\<forall>x k. t x = Some (Read_end k) \<longleftrightarrow> k < n - 1 \<and> i \<le> Suc k \<and> x = fst (ps ! k)) \<and>
     (\<forall>x k. t x = Some (Write_end k) \<longleftrightarrow> k < n - 1 \<and> i \<le> k \<and> x = snd (ps ! k))"

definition numbers_differ :: "nat \<Rightarrow> (nat \<times> nat) list \<Rightarrow> bool" where
  "numbers_differ m ps \<longleftrightarrow>
     (\<forall>k l. k < m \<longrightarrow> l < m \<longrightarrow> fst (ps ! k) \<noteq> snd (ps ! l) \<and>
        (fst (ps ! k) = fst (ps ! l) \<longleftrightarrow> k = l) \<and> (snd (ps ! k) = snd (ps ! l) \<longleftrightarrow> k = l)) \<and>
     (\<forall>k < m. fst (ps ! k) \<noteq> 0 \<and> snd (ps ! k) \<noteq> 0 \<and> fst (ps ! k) \<noteq> 1 \<and> snd (ps ! k) \<noteq> 1)"

lemma opened_differ: "opened 0 m ps t t' \<Longrightarrow> stdio t \<Longrightarrow> numbers_differ m ps"
  using opened_numbers unfolding numbers_differ_def by (metis insert_iff)

lemma differD:
  assumes "numbers_differ m ps" "k < m"
  shows "l < m \<Longrightarrow> fst (ps ! k) \<noteq> snd (ps ! l)" "l < m \<Longrightarrow> fst (ps ! k) = fst (ps ! l) \<longleftrightarrow> k = l"
    "l < m \<Longrightarrow> snd (ps ! k) = snd (ps ! l) \<longleftrightarrow> k = l"
    "fst (ps ! k) \<noteq> 0" "snd (ps ! k) \<noteq> 0" "fst (ps ! k) \<noteq> 1" "snd (ps ! k) \<noteq> 1"
  using assms by (simp_all add: numbers_differ_def)

lemma parent_ends:
  assumes "opened 0 (n - 1) ps t t0" "stdio t" "i < n"
  shows "ends_from n i ps (parent_table n ps i t0)"
proof -
  have d: "numbers_differ (n - 1) ps" using assms(1,2) by (rule opened_differ)
  note differ = differD [OF d] and ends = opened_ends [OF assms(1,2)]
  let ?closed = "\<lambda>x. (\<exists>k < n - 1. k < i \<and> x = snd (ps ! k)) \<or> (\<exists>k < n - 1. Suc k < i \<and> x = fst (ps ! k))"
  have at: "parent_table n ps i t0 x = (if ?closed x then None else t0 x)" for x
  proof -
    have "k < n - 1" if "Suc k < i" for k using that assms(3) by linarith
    then have "(\<exists>k. Suc k < i \<and> x = fst (ps ! k)) \<longleftrightarrow> (\<exists>k < n - 1. Suc k < i \<and> x = fst (ps ! k))" by blast
    moreover have "(\<exists>k. k < i \<and> k < n - 1 \<and> x = snd (ps ! k)) \<longleftrightarrow> (\<exists>k < n - 1. k < i \<and> x = snd (ps ! k))" by blast
    ultimately show ?thesis using parent_table_at [of i n ps t0 x] assms(3) by simp
  qed
  have rea: "?closed (fst (ps ! k)) \<longleftrightarrow> Suc k < i" if "k < n - 1" for k
    using differ(1,2) [OF that] that by blast
  have wri: "?closed (snd (ps ! k)) \<longleftrightarrow> k < i" if "k < n - 1" for k
    using differ(3) [OF that] differ(1) [of _ k] that by metis
  have "\<not> ?closed 0" "\<not> ?closed 1" using differ(4-7) by metis+
  then have std: "parent_table n ps i t0 0 = Some Tty" "parent_table n ps i t0 1 = Some Tty" using at ends(3,4) by simp_all
  have "parent_table n ps i t0 x = Some (Read_end k) \<longleftrightarrow> k < n - 1 \<and> i \<le> Suc k \<and> x = fst (ps ! k)" for x k
    using rea [of k] ends(1) [of x k] by (auto simp: at)
  moreover have "parent_table n ps i t0 x = Some (Write_end k) \<longleftrightarrow> k < n - 1 \<and> i \<le> k \<and> x = snd (ps ! k)" for x k
    using wri [of k] ends(2) [of x k] by (auto simp: at)
  moreover have "length ps = n - 1" using assms(1) by (simp add: opened_def)
  ultimately show ?thesis using std by (simp add: ends_from_def)
qed

lemma write_fd_sink:
  assumes "child_output n i c = Inr snk" "i < n"
  shows "(snk = To_terminal \<and> write_fd n ps i c = -1) \<or>
     (\<exists>k. snk = To_pipe k \<and> write_fd n ps i c = int (snd (ps ! k)) \<and> i \<le> k \<and> k < n - 1)"
  using assms
  by (auto simp: child_output_def write_fd_def pipe_index_def Let_def nat_add_distrib split: if_splits)

text \<open>The table after line 538.\<close>

definition reads_from :: "nat \<Rightarrow> nat \<Rightarrow> (nat \<times> nat) list \<Rightarrow> fd_object \<Rightarrow> fd_table \<Rightarrow> bool" where
  "reads_from n i ps src t \<longleftrightarrow> t 0 = Some src \<and> t 1 = Some Tty \<and>
     (\<forall>x k. t x = Some (Read_end k) \<longrightarrow> 0 < i \<and> k = i - 1) \<and>
     (\<forall>x k. t x = Some (Write_end k) \<longleftrightarrow> k < n - 1 \<and> i \<le> k \<and> x = snd (ps ! k))"

definition input_object :: "nat \<Rightarrow> nat \<Rightarrow> command \<Rightarrow> fd_object" where
  "input_object n i c =
     (if i = 0 then Tty else if i < n - 1 \<and> must_copy c then Temp_read else Read_end (i - 1))"

lemma child_reads_from:
  assumes ends: "ends_from n i ps t" and d: "numbers_differ (n - 1) ps" and i: "i < n" "must_copy c \<longrightarrow> 0 < i"
    and free: "2 \<le> length (filter (\<lambda>x. t x = None) [0..<lim])"
  shows "\<exists>t'. child_reads lim junk n ps i c t = Inr t' \<and> reads_from n i ps (input_object n i c) t'"
proof -
  note differ = differD [OF d]
  have len: "length ps = n - 1" and std: "t 0 = Some Tty" "t 1 = Some Tty"
    and re: "\<And>x k. t x = Some (Read_end k) \<longleftrightarrow> k < n - 1 \<and> i \<le> Suc k \<and> x = fst (ps ! k)"
    and we: "\<And>x k. t x = Some (Write_end k) \<longleftrightarrow> k < n - 1 \<and> i \<le> k \<and> x = snd (ps ! k)"
    using ends by (simp_all add: ends_from_def)
  have closed: "closeAllFdExcept ps e True u x = (if \<exists>k < n - 1. x = fst (ps ! k) \<and> int x \<noteq> e then None else u x)" for e u x
    unfolding closeAll_index len by simp
  have keep: "closeAllFdExcept ps e True u x = u x" if "x \<in> {0, 1} \<or> (\<exists>k < n - 1. x = snd (ps ! k))" for e u x
    using that differ(1,4,6) unfolding closed by (metis empty_iff insertE)
  have wr: "closeAllFdExcept ps e True u x = Some (Write_end k) \<longleftrightarrow> u x = Some (Write_end k)"
    if "\<And>x k. u x = Some (Write_end k) \<Longrightarrow> k < n - 1 \<and> x = snd (ps ! k)" for e u x k
  proof
    assume "closeAllFdExcept ps e True u x = Some (Write_end k)"
    then show "u x = Some (Write_end k)" by (simp add: closed split: if_splits)
  next
    assume u: "u x = Some (Write_end k)"
    then have "\<exists>k < n - 1. x = snd (ps ! k)" using that by blast
    with u keep [of x e u] show "closeAllFdExcept ps e True u x = Some (Write_end k)" by simp
  qed
  consider "i = 0" | "0 < i" "i < n - 1 \<and> must_copy c" | "0 < i" "\<not> (i < n - 1 \<and> must_copy c)" by blast
  then show ?thesis
  proof cases
    case 1
    let ?t = "closeAllFdExcept ps (-1) True t"
    have "?t x \<noteq> Some (Read_end k)" for x k using re [of x k] unfolding closed by auto
    moreover have "?t x = Some (Write_end k) \<longleftrightarrow> k < n - 1 \<and> i \<le> k \<and> x = snd (ps ! k)" for x k
      using wr [of t "-1" x k] we by blast
    moreover have "?t 0 = Some Tty" "?t 1 = Some Tty" using keep std by simp_all
    ultimately show ?thesis using 1 i(2) by (simp add: child_reads_def reads_from_def input_object_def)
  next
    case 2
    obtain a b rest where ab: "filter (\<lambda>x. t x = None) [0..<lim] = a # b # rest"
      using free by (cases "filter (\<lambda>x. t x = None) [0..<lim]" rule: remdups_adj.cases) auto
    let ?u = "t(a \<mapsto> Temp_read, b \<mapsto> Temp_write)"
    have pipe: "fd_pipe lim Temp_read Temp_write t = Inr ((a, b), ?u)" by (simp add: fd_pipe_def ab)
    note p = fd_pipe_Inr [OF pipe]
    let ?v = "?u(b := None, 0 \<mapsto> Temp_read)"
    let ?t = "closeAllFdExcept ps (-1) True ?v"
    have ne: "a \<noteq> 0" "b \<noteq> 0" "a \<noteq> 1" "b \<noteq> 1" using p(1,2) std by (metis option.distinct(1))+
    have "fd_dup2 (int a) 0 (fd_close (int b) ?u) = Inr ?v" using p(3) by (simp add: fd_dup2_def fd_close_def)
    with pipe 2 have "child_reads lim junk n ps i c t = Inr ?t" by (simp add: child_reads_def)
    moreover have "?t x \<noteq> Some (Read_end k)" for x k using re [of x k] unfolding closed by auto
    moreover have "?t x = Some (Write_end k) \<longleftrightarrow> k < n - 1 \<and> i \<le> k \<and> x = snd (ps ! k)" for x k
    proof -
      have "?v x = Some (Write_end k) \<longleftrightarrow> t x = Some (Write_end k)" for x k using p(1-3) std ne by auto
      with wr [of ?v "-1" x k] we show ?thesis by blast
    qed
    moreover have "?t 0 = Some Temp_read" "?t 1 = Some Tty" using keep std ne by simp_all
    ultimately show ?thesis using 2 by (simp add: reads_from_def input_object_def)
  next
    case 3
    let ?r = "fst (ps ! (i - 1))"
    let ?t = "(closeAllFdExcept ps (int ?r) True t)(0 \<mapsto> Read_end (i - 1))"
    have r: "i - 1 < n - 1" "t ?r = Some (Read_end (i - 1))" using re [of ?r "i - 1"] 3(1) i(1) by auto
    have "closeAllFdExcept ps (int ?r) True t ?r = Some (Read_end (i - 1))" using r(2) by (simp add: closed)
    then have "child_reads lim junk n ps i c t = Inr ?t" using 3 by (auto simp: child_reads_def fd_dup2_def)
    moreover have "k = i - 1" if "?t x = Some (Read_end k)" for x k
    proof (cases "x = 0")
      case False
      with that have x: "closeAllFdExcept ps (int ?r) True t x = Some (Read_end k)" by simp
      then have "t x = Some (Read_end k)" by (simp add: closed split: if_splits)
      with re have "k < n - 1" "x = fst (ps ! k)" by blast+
      with x have "x = ?r" by (auto simp: closed split: if_splits)
      with \<open>x = fst (ps ! k)\<close> show ?thesis using differ(2) [OF \<open>k < n - 1\<close> r(1)] by simp
    qed (use that in simp)
    moreover have "?t x = Some (Write_end k) \<longleftrightarrow> k < n - 1 \<and> i \<le> k \<and> x = snd (ps ! k)" for x k
    proof (cases "x = 0")
      case True
      have "t 0 \<noteq> Some (Write_end k)" using std by simp
      with True show ?thesis using we [of 0 k] by auto
    next
      case False
      have "closeAllFdExcept ps (int ?r) True t x = Some (Write_end k) \<longleftrightarrow> t x = Some (Write_end k)"
        by (rule wr) (use we in blast)
      with False we [of x k] show ?thesis by simp
    qed
    moreover have "?t 1 = Some Tty" using keep std by simp
    ultimately show ?thesis using 3 by (simp add: reads_from_def input_object_def)
  qed
qed

section \<open>Properties\<close>

lemma child_table_ends:
  assumes d: "numbers_differ (n - 1) ps" and len: "length ps = n - 1" and "i < n" "child_output n i c = Inr snk"
    and "child_reads lim junk n ps i c t1 = Inr u" "reads_from n i ps (input_object n i c) u"
  shows "\<exists>t'. child_table lim junk n ps i c t1 = Inr t' \<and> t' 0 = Some (input_object n i c) \<and>
     t' 1 = Some (case snk of To_pipe k \<Rightarrow> Write_end k | _ \<Rightarrow> Tty) \<and>
     (\<forall>x k. t' x = Some (Write_end k) \<longrightarrow> snk = To_pipe k) \<and>
     (\<forall>x k. t' x = Some (Read_end k) \<longrightarrow> 0 < i \<and> k = i - 1)"
proof -
  have u0: "u 0 = Some (input_object n i c)" "u 1 = Some Tty"
    and ur: "\<And>x k. u x = Some (Read_end k) \<Longrightarrow> 0 < i \<and> k = i - 1"
    and uw: "\<And>x k. u x = Some (Write_end k) \<longleftrightarrow> k < n - 1 \<and> i \<le> k \<and> x = snd (ps ! k)"
    using assms(6) by (auto simp: reads_from_def)
  let ?w = "write_fd n ps i c"
  let ?v = "closeAllFdExcept ps ?w False u"
  have v: "?v x = (if \<exists>k < n - 1. x = snd (ps ! k) \<and> int x \<noteq> ?w then None else u x)" for x
    unfolding closeAll_index len by simp
  have v01: "?v 0 = u 0" "?v 1 = u 1" using differD(5,7) [OF d] unfolding v by metis+
  have vw: "int x = ?w" if "?v x = Some (Write_end k)" for x k
    using that uw [of x k] by (auto simp: v split: if_splits)
  have vr: "0 < i \<and> k = i - 1" if "?v x = Some (Read_end k)" for x k
    using that ur [of x k] by (auto simp: v split: if_splits)
  consider "snk = To_terminal" "?w = -1" | k where "snk = To_pipe k" "?w = int (snd (ps ! k))" "i \<le> k" "k < n - 1"
    using write_fd_sink [OF assms(4,3)] by blast
  then show ?thesis
  proof cases
    case 1
    then have "child_table lim junk n ps i c t1 = Inr ?v" using assms(5) by (simp add: child_table_def Let_def)
    moreover have "?v x \<noteq> Some (Write_end k)" for x k using vw [of x k] 1(2) by auto
    ultimately show ?thesis using 1(1) u0 v01 vr by (intro exI [of _ ?v]) simp
  next
    case (2 k)
    define T where "T = ?v(1 \<mapsto> Write_end k)"
    have "?v (snd (ps ! k)) = u (snd (ps ! k))" unfolding v using 2(2) by auto
    then have "?v (snd (ps ! k)) = Some (Write_end k)" using 2(3,4) uw [of "snd (ps ! k)" k] by simp
    then have run: "child_table lim junk n ps i c t1 = Inr T"
      using assms(5) 2(2) by (simp add: child_table_def fd_dup2_def Let_def T_def)
    have tw: "snk = To_pipe l" if "T x = Some (Write_end l)" for x l
    proof (cases "x = 1")
      case False
      with that have x: "?v x = Some (Write_end l)" by (simp add: T_def)
      then have "u x = Some (Write_end l)" by (simp add: v split: if_splits)
      with uw have "l < n - 1" "x = snd (ps ! l)" by blast+
      with vw [OF x] 2(1,2) show ?thesis using differD(3) [OF d \<open>l < n - 1\<close> 2(4)] by simp
    qed (use that 2(1) in \<open>simp add: T_def\<close>)
    have tr: "0 < i \<and> l = i - 1" if "T x = Some (Read_end l)" for x l
      using that vr [of x l] by (cases "x = 1") (auto simp: T_def)
    have "T 0 = Some (input_object n i c)" "T 1 = Some (case snk of To_pipe k \<Rightarrow> Write_end k | _ \<Rightarrow> Tty)"
      using v01 u0 2(1) by (simp_all add: T_def)
    with run tw tr show ?thesis by blast
  qed
qed

lemma parent_keeps_no_end:
  assumes o: "opened 0 (n - 1) ps t t0" and "stdio t" and len: "length ps = n - 1"
  shows "closeAllPipeFd ps (parent_table n ps n t0) x \<notin> {Some (Read_end k), Some (Write_end k)}"
proof -
  have "parent_table n ps n t0 x = None \<or> parent_table n ps n t0 x = t0 x"
    using parent_table_at [of n n ps t0 x] by auto
  then show ?thesis
    using opened_ends(1,2) [OF o assms(2), of x k] by (auto simp: closeAllPipeFd_def closeAll_index len split: if_splits)
qed

text \<open>
  C22: the descriptors do what the plumbing says. In every round of a pipeline, whatever numbers the system
  gave the pipes, nobody still holds the write end of the pipe the child reads, so its end comes; the
  child runs its program with the input \<open>Shell_Exec\<close> gives it on descriptor 0 and its output on descriptor 1,
  with no other write end and no read end but that of its own input; and at the end the parent has closed
  every pipe.
\<close>

theorem descriptors_match_plumbing:
  assumes "open_pipes lim 0 (n - 1) t = Inr (ps, t0)" "stdio t" "i < n" "must_copy c \<longrightarrow> 0 < i"
    and "child_output n i c = Inr snk" "2 \<le> length (filter (\<lambda>x. parent_table n ps i t0 x = None) [0..<lim])"
  shows "\<exists>t'. child_table lim junk n ps i c (parent_table n ps i t0) = Inr t' \<and>
     t' 0 = Some (input_object n i c) \<and>
     t' 1 = Some (case snk of To_pipe k \<Rightarrow> Write_end k | _ \<Rightarrow> Tty) \<and>
     (\<forall>x k. t' x = Some (Write_end k) \<longrightarrow> snk = To_pipe k) \<and>
     (\<forall>x k. t' x = Some (Read_end k) \<longrightarrow> 0 < i \<and> k = i - 1) \<and>
     (0 < i \<longrightarrow> (\<forall>x. parent_table n ps i t0 x \<noteq> Some (Write_end (i - 1)))) \<and>
     (\<forall>x k. closeAllPipeFd ps (parent_table n ps n t0) x \<notin> {Some (Read_end k), Some (Write_end k)})"
proof -
  have o: "opened 0 (n - 1) ps t t0" by (rule open_pipes_opened [OF assms(1)])
  have d: "numbers_differ (n - 1) ps" by (rule opened_differ [OF o assms(2)])
  have ends: "ends_from n i ps (parent_table n ps i t0)" by (rule parent_ends [OF o assms(2,3)])
  have len: "length ps = n - 1" using ends by (simp add: ends_from_def)
  obtain u where u: "child_reads lim junk n ps i c (parent_table n ps i t0) = Inr u" "reads_from n i ps (input_object n i c) u"
    using child_reads_from [OF ends d assms(3,4,6)] by blast
  have "0 < i \<longrightarrow> (\<forall>x. parent_table n ps i t0 x \<noteq> Some (Write_end (i - 1)))" using ends by (auto simp: ends_from_def)
  then show ?thesis
    using child_table_ends [OF d len assms(3,5) u] parent_keeps_no_end [OF o assms(2) len] by blast
qed

theorem descriptors_match_plumbing_witness:
  "\<exists>ps t0 t'. open_pipes 64 0 2 [0 \<mapsto> Tty, 1 \<mapsto> Tty, 2 \<mapsto> Tty] = Inr (ps, t0) \<and>
     child_table 64 7 3 ps 1 (initCmd\<lparr>par_offset := -1, prev_pipe_count := DOUBLE_PIPE\<rparr>) (parent_table 3 ps 1 t0) = Inr t' \<and>
     t' 0 = Some Temp_read \<and> t' 1 = Some Tty \<and> (\<forall>x k. t' x \<noteq> Some (Write_end k))"
proof -
  let ?t = "[0 \<mapsto> Tty, 1 \<mapsto> Tty, 2 \<mapsto> Tty] :: fd_table"
  let ?c = "initCmd\<lparr>par_offset := -1, prev_pipe_count := DOUBLE_PIPE\<rparr>"
  let ?ps = "[(3, 4), (5, 6)] :: (nat \<times> nat) list"
  let ?tab = "?t(3 \<mapsto> Read_end 0, 4 \<mapsto> Write_end 0, 5 \<mapsto> Read_end 1, 6 \<mapsto> Write_end 1)"
  have up: "[0..<64] = 0 # 1 # 2 # 3 # 4 # 5 # 6 # 7 # [8..<64::nat]" by (simp add: upt_rec)
  have open_all: "open_pipes 64 0 (3 - 1) ?t = Inr (?ps, ?tab)"
  proof -
    have two: "3 - 1 = Suc (Suc 0)" by simp
    have "fd_pipe 64 (Read_end 0) (Write_end 0) ?t = Inr ((3, 4), ?t(3 \<mapsto> Read_end 0, 4 \<mapsto> Write_end 0))"
      by (simp add: fd_pipe_def up)
    moreover have "fd_pipe 64 (Read_end 1) (Write_end 1) (?t(3 \<mapsto> Read_end 0, 4 \<mapsto> Write_end 0)) = Inr ((5, 6), ?tab)"
      by (simp add: fd_pipe_def up)
    ultimately show ?thesis unfolding two by simp
  qed
  have std: "stdio ?t" by (simp add: stdio_def)
  have copy: "must_copy ?c \<longrightarrow> 0 < (1 :: nat)" by simp
  have out: "child_output 3 1 ?c = Inr To_terminal" by (simp add: child_output_def initCmd_def Let_def)
  have "parent_table 3 ?ps 1 ?tab = ?tab(4 := None)" by (simp add: parent_closes_def fd_close_def)
  then have "2 \<le> length (filter (\<lambda>x. parent_table 3 ?ps 1 ?tab x = None) [0..<64])" by (simp add: up)
  from descriptors_match_plumbing [OF open_all std _ copy out this, of 7] obtain t' where
    "child_table 64 7 3 ?ps 1 ?c (parent_table 3 ?ps 1 ?tab) = Inr t'" "t' 0 = Some (input_object 3 1 ?c)" "t' 1 = Some Tty"
    "\<forall>x k. t' x = Some (Write_end k) \<longrightarrow> To_terminal = To_pipe k"
    by auto
  moreover have "input_object 3 1 ?c = Temp_read" by (simp add: input_object_def must_copy_def)
  moreover have "open_pipes 64 0 2 ?t = Inr (?ps, ?tab)" using open_all by simp
  ultimately show ?thesis by (intro exI [of _ ?ps] exI [of _ ?tab] exI [of _ t']) auto
qed

end
