(* ===== verification/Linked_Store.thy ===== *)
theory Linked_Store
  imports Prelude
begin

text \<open>
  Doubly linked lists of blocks in a store. A pointer is an address or \<open>None\<close> for NULL; a store maps the
  addresses of the allocated blocks to their contents. \<open>nxt\<close> and \<open>prv\<close> read the two links of a block;
  the locale \<open>block_links\<close> says how a record with two such fields is updated. The preforking server's
  workers and the groups of the group chat are linked in this way.
\<close>

section \<open>Reading and writing a block\<close>

definition block_at :: "(nat \<Rightarrow> 'b option) \<Rightarrow> nat \<Rightarrow> 'b res" where
  "block_at s a = (case s a of None \<Rightarrow> Inl Use_after_free | Some b \<Rightarrow> Inr b)"

lemma block_at_Some [simp]: "s a = Some b \<Longrightarrow> block_at s a = Inr b"
  by (simp add: block_at_def)

lemma block_at_None [simp]: "s a = None \<Longrightarrow> block_at s a = Inl Use_after_free"
  by (simp add: block_at_def)

section \<open>Segments\<close>

abbreviation first_of :: "nat list \<Rightarrow> nat option \<Rightarrow> nat option" where
  "first_of as q \<equiv> (case as of [] \<Rightarrow> q | b # bs \<Rightarrow> Some b)"

abbreviation last_of :: "nat option \<Rightarrow> nat list \<Rightarrow> nat option" where
  "last_of p as \<equiv> (if as = [] then p else Some (last as))"

text \<open>The blocks \<open>as\<close> are linked in this order, behind \<open>p\<close> and before \<open>q\<close>.\<close>

fun dseg :: "('b \<Rightarrow> nat option) \<Rightarrow> ('b \<Rightarrow> nat option) \<Rightarrow> (nat \<Rightarrow> 'b option) \<Rightarrow> nat option \<Rightarrow> nat list \<Rightarrow> nat option \<Rightarrow> bool" where
  "dseg nxt prv s p [] q \<longleftrightarrow> True"
| "dseg nxt prv s p (a # as) q \<longleftrightarrow>
     (\<exists>b. s a = Some b \<and> prv b = p \<and> nxt b = first_of as q) \<and> dseg nxt prv s (Some a) as q"

lemma dseg_append:
  "dseg nxt prv s p (xs @ ys) q \<longleftrightarrow> dseg nxt prv s p xs (first_of ys q) \<and> dseg nxt prv s (last_of p xs) ys q"
  by (induction xs arbitrary: p) (auto split: list.splits)

lemma dseg_frame: "\<forall>a \<in> set xs. s' a = s a \<Longrightarrow> dseg nxt prv s' p xs q = dseg nxt prv s p xs q"
  by (induction xs arbitrary: p) auto

lemma dseg_other [simp]: "a \<notin> set xs \<Longrightarrow> dseg nxt prv (s(a := v)) p xs q = dseg nxt prv s p xs q"
  by (rule dseg_frame) auto

lemma dseg_update:
  "s a = Some w \<Longrightarrow> nxt v = nxt w \<Longrightarrow> prv v = prv w \<Longrightarrow> dseg nxt prv (s(a \<mapsto> v)) p xs q = dseg nxt prv s p xs q"
  by (induction xs arbitrary: p) auto

lemma dseg_mem: "dseg nxt prv s p xs q \<Longrightarrow> a \<in> set xs \<Longrightarrow> \<exists>w. s a = Some w"
  by (induction xs arbitrary: p) auto

text \<open>A block of a segment with its neighbours.\<close>

lemma dseg_split:
  "dseg nxt prv s p (xs @ a # ys) q \<longleftrightarrow>
     dseg nxt prv s p xs (Some a) \<and> (\<exists>b. s a = Some b \<and> prv b = last_of p xs \<and> nxt b = first_of ys q) \<and>
     dseg nxt prv s (Some a) ys q"
  by (simp add: dseg_append)

section \<open>Changing the links\<close>

locale block_links =
  fixes nxt prv :: "'b \<Rightarrow> nat option"
    and set_next set_prev :: "nat option \<Rightarrow> 'b \<Rightarrow> 'b"
  assumes next_set: "nxt (set_next q b) = q" "nxt (set_prev q b) = nxt b"
    and prev_set: "prv (set_prev p b) = p" "prv (set_next p b) = prv b"
begin

lemma change_prev:
  assumes "dseg nxt prv s p (b # bs) q" "distinct (b # bs)" "s b = Some w"
  shows "dseg nxt prv (s(b \<mapsto> set_prev p' w)) p' (b # bs) q"
  using assms by (auto simp: next_set prev_set)

lemma change_next:
  assumes "dseg nxt prv s p (xs @ [b]) q" "distinct (xs @ [b])" "s b = Some w"
  shows "dseg nxt prv (s(b \<mapsto> set_next q' w)) p (xs @ [b]) q'"
  using assms by (auto simp: dseg_append next_set prev_set)

text \<open>Unlinking the block \<open>a\<close>: the forward link before it and the backward link behind it skip it.\<close>

definition bypass :: "(nat \<Rightarrow> 'b option) \<Rightarrow> nat option \<Rightarrow> nat option \<Rightarrow> (nat \<Rightarrow> 'b option)" where
  "bypass s before behind =
     (let s = (case before of None \<Rightarrow> s | Some x \<Rightarrow> s(x := map_option (set_next behind) (s x)))
      in case behind of None \<Rightarrow> s | Some y \<Rightarrow> s(y := map_option (set_prev before) (s y)))"

lemma unlink:
  assumes seg: "dseg nxt prv s None (xs @ a # ys) None" and d: "distinct (xs @ a # ys)"
  shows "dseg nxt prv (bypass s (last_of None xs) (first_of ys None)) None (xs @ ys) None"
proof -
  have parts: "dseg nxt prv s None xs (Some a)" "dseg nxt prv s (Some a) ys None"
    using seg by (simp_all add: dseg_append)
  let ?q = "first_of ys None"
  define s1 where "s1 = (case last_of None xs of None \<Rightarrow> s | Some x \<Rightarrow> s(x := map_option (set_next ?q) (s x)))"
  have 1: "dseg nxt prv s1 None xs ?q"
  proof (cases xs rule: rev_cases)
    case (snoc zs x)
    then obtain w where w: "s x = Some w" using dseg_mem [OF parts(1), of x] by auto
    with snoc parts(1) d change_next [of s None zs x "Some a" w ?q] show ?thesis by (simp add: s1_def)
  qed simp
  have 2: "dseg nxt prv s1 (Some a) ys None"
  proof (cases "xs = []")
    case False
    then have "last xs \<in> set xs" by simp
    then have "last xs \<notin> set ys" using d by auto
    with parts(2) False show ?thesis by (simp add: s1_def)
  qed (use parts(2) in \<open>simp add: s1_def\<close>)
  have b: "bypass s (last_of None xs) ?q =
      (case ?q of None \<Rightarrow> s1 | Some y \<Rightarrow> s1(y := map_option (set_prev (last_of None xs)) (s1 y)))"
    unfolding bypass_def Let_def s1_def ..
  show ?thesis
  proof (cases ys)
    case Nil
    with 1 b show ?thesis by simp
  next
    case (Cons y zs)
    then obtain w where w: "s1 y = Some w" using dseg_mem [OF 2, of y] by auto
    have "dseg nxt prv (s1(y \<mapsto> set_prev (last_of None xs) w)) (last_of None xs) ys None"
      using change_prev [OF 2 [unfolded Cons], of w] w d Cons by simp
    moreover have "dseg nxt prv (s1(y \<mapsto> set_prev (last_of None xs) w)) None xs (Some y)"
      using 1 d Cons by auto
    ultimately show ?thesis using b w Cons by (simp add: dseg_append)
  qed
qed

text \<open>Linking a block behind the last one.\<close>

lemma append_block:
  assumes seg: "dseg nxt prv s None xs None" and d: "distinct xs" "a \<notin> set xs"
    and b: "nxt b = None" "prv b = None" "s a = Some b"
  shows "dseg nxt prv (case last_of None xs of None \<Rightarrow> s
       | Some x \<Rightarrow> (s(x := map_option (set_next (Some a)) (s x)))(a \<mapsto> set_prev (Some x) b)) None (xs @ [a]) None"
proof (cases xs rule: rev_cases)
  case Nil
  with b show ?thesis by simp
next
  case (snoc zs x)
  then obtain w where w: "s x = Some w" using dseg_mem [OF seg, of x] by auto
  have "dseg nxt prv (s(x \<mapsto> set_next (Some a) w)) None xs (Some a)"
    using change_next [of s None zs x None w "Some a"] seg d snoc w by simp
  then have "dseg nxt prv ((s(x \<mapsto> set_next (Some a) w))(a \<mapsto> set_prev (Some x) b)) None xs (Some a)"
    using d by simp
  with w snoc b show ?thesis by (simp add: dseg_append next_set prev_set)
qed

end

end
