(* ===== verification/Prefork.thy ===== *)
theory Prefork
  imports Linked_Store
begin

text \<open>
  The preforking web server, \<open>assignment-2/q2/prefork_server.c\<close>: the doubly linked list of workers
  in an explicit store, the spawning of workers, the parent's reaction to control messages, and the
  loop of a worker process. The process table of the parent's children is the field \<open>children\<close>;
  \<open>fork\<close> is a parameter that is given the number of forks before it and the live children. The signal
  handlers of both kinds of processes come last.
\<close>

section \<open>Data\<close>

abbreviation (input) GOT_REQUEST :: int where "GOT_REQUEST \<equiv> 1"
abbreviation (input) COMPLETED_REQUEST :: int where "COMPLETED_REQUEST \<equiv> 2"
abbreviation (input) READ_ALLOWED :: int where "READ_ALLOWED \<equiv> 3"

record control_msg =
  msg_type :: int
  msg_pid :: int
  msg_reqs :: int

record worker =
  pid :: int
  reqs_handled :: int
  is_idle :: bool
  to_harvest :: bool
  wnext :: "nat option"
  wprev :: "nat option"

record config =
  minSpareServers :: int
  maxSpareServers :: int
  maxRequestsPerChild :: int

text \<open>\<open>store\<close> holds the blocks \<open>malloc\<close> gave out and \<open>free\<close> has not taken back; \<open>fresh\<close> is the next one.\<close>

record server =
  store :: "nat \<Rightarrow> worker option"
  fresh :: nat
  workers_head :: "nat option"
  num_idle_workers :: int
  num_workers :: int
  children :: "int list"
  forked :: nat

datatype event = Forked int | Killed int | Acked int

type_synonym kernel_fork = "nat \<Rightarrow> int list \<Rightarrow> int"

definition server_init :: server where
  "server_init = \<lparr>store = Map.empty, fresh = 0, workers_head = None, num_idle_workers = 0,
     num_workers = 0, children = [], forked = 0\<rparr>"

section \<open>The list of workers\<close>

definition rd :: "server \<Rightarrow> nat \<Rightarrow> worker res" where
  "rd st a = (case store st a of None \<Rightarrow> Inl Use_after_free | Some w \<Rightarrow> Inr w)"

definition wr :: "server \<Rightarrow> nat \<Rightarrow> (worker \<Rightarrow> worker) \<Rightarrow> server res" where
  "wr st a f = rbind (rd st a) (\<lambda>w. Inr (st\<lparr>store := (store st)(a \<mapsto> f w)\<rparr>))"

text \<open>
  The loop of \<open>get_worker_by_id\<close>. A list that does not end would keep it running forever; it
  has at most \<open>fresh\<close> blocks, so more steps than that are reported as \<open>Blocked\<close>.
\<close>

fun find_worker :: "nat \<Rightarrow> server \<Rightarrow> int \<Rightarrow> nat option \<Rightarrow> nat option res" where
  "find_worker k st p None = Inr None"
| "find_worker 0 st p (Some a) = Inl Blocked"
| "find_worker (Suc k) st p (Some a) =
     rbind (rd st a) (\<lambda>w. if pid w = p then Inr (Some a) else find_worker k st p (wnext w))"

definition get_worker_by_id :: "int \<Rightarrow> server \<Rightarrow> nat option res" where
  "get_worker_by_id p st = find_worker (fresh st) st p (workers_head st)"

text \<open>\<open>kill\<close> and \<open>waitpid\<close> take the child out of the process table.\<close>

definition remove_worker :: "nat option \<Rightarrow> server \<Rightarrow> (event list \<times> server) res" where
  "remove_worker wk st =
     (case wk of
        None \<Rightarrow> Inr ([], st)
      | Some a \<Rightarrow>
          rbind (rd st a) (\<lambda>w.
          let st = st\<lparr>num_workers := num_workers st - 1, num_idle_workers := num_idle_workers st - 1,
                      children := remove1 (pid w) (children st)\<rparr>
          in
          case workers_head st of
            None \<Rightarrow> Inl Null_deref
          | Some h \<Rightarrow>
              rbind (rd st h) (\<lambda>hw.
              rbind
                (if pid w = pid hw then
                   let st = st\<lparr>workers_head := wnext w\<rparr> in
                   (case wnext w of
                      None \<Rightarrow> Inl Null_deref
                    | Some b \<Rightarrow> wr st b (\<lambda>x. x\<lparr>wprev := None\<rparr>))
                 else
                   (case wprev w of
                      None \<Rightarrow> Inl Null_deref
                    | Some p \<Rightarrow>
                        rbind (wr st p (\<lambda>x. x\<lparr>wnext := wnext w\<rparr>)) (\<lambda>st.
                        case wnext w of
                          None \<Rightarrow> Inr st
                        | Some b \<Rightarrow> wr st b (\<lambda>x. x\<lparr>wprev := wprev w\<rparr>))))
                (\<lambda>st. Inr ([Killed (pid w)], st\<lparr>store := (store st)(a := None)\<rparr>)))))"

definition add_worker :: "int \<Rightarrow> server \<Rightarrow> server res" where
  "add_worker p st =
     (let a = fresh st;
          w = \<lparr>pid = p, reqs_handled = 0, is_idle = True, to_harvest = False, wnext = None, wprev = None\<rparr>;
          st = st\<lparr>fresh := fresh st + 1, num_idle_workers := num_idle_workers st + 1,
                  num_workers := num_workers st + 1\<rparr>
      in
      case workers_head st of
        None \<Rightarrow> Inr (st\<lparr>store := (store st)(a \<mapsto> w), workers_head := Some a\<rparr>)
      | Some h \<Rightarrow>
          rbind (wr (st\<lparr>store := (store st)(a \<mapsto> w\<lparr>wnext := Some h\<rparr>)\<rparr>) h (\<lambda>x. x\<lparr>wprev := Some a\<rparr>))
            (\<lambda>st. Inr (st\<lparr>workers_head := Some a\<rparr>)))"

text \<open>What \<open>print_worker_stats\<close> prints: the two counters, then pid, requests and activity of each worker.\<close>

fun print_workers :: "nat \<Rightarrow> server \<Rightarrow> nat option \<Rightarrow> (int \<times> int \<times> bool) list res" where
  "print_workers k st None = Inr []"
| "print_workers 0 st (Some a) = Inl Blocked"
| "print_workers (Suc k) st (Some a) =
     rbind (rd st a) (\<lambda>w.
     rbind (print_workers k st (wnext w)) (\<lambda>ls. Inr ((pid w, reqs_handled w, \<not> is_idle w) # ls)))"

definition print_worker_stats :: "server \<Rightarrow> (int \<times> int \<times> (int \<times> int \<times> bool) list) res" where
  "print_worker_stats st =
     rbind (print_workers (fresh st) st (workers_head st)) (\<lambda>ls. Inr (num_workers st, num_idle_workers st, ls))"

section \<open>Spawning\<close>

text \<open>The parent's side of \<open>create_new_worker\<close>; the child's side is \<open>start_worker\<close> below.\<close>

definition create_new_worker :: "kernel_fork \<Rightarrow> server \<Rightarrow> (event list \<times> server) res" where
  "create_new_worker fork st =
     (let p = fork (forked st) (children st);
          st = st\<lparr>forked := forked st + 1, children := p # children st\<rparr>
      in rbind (add_worker p st) (\<lambda>st. Inr ([Forked p], st)))"

fun spawn_loop :: "kernel_fork \<Rightarrow> nat \<Rightarrow> server \<Rightarrow> (event list \<times> server) res" where
  "spawn_loop fork 0 st = Inr ([], st)"
| "spawn_loop fork (Suc n) st =
     rbind (create_new_worker fork st) (\<lambda>(es, st).
     rbind (spawn_loop fork n st) (\<lambda>(es', st). Inr (es @ es', st)))"

text \<open>\<open>None\<close> means that the recursion does not end.\<close>

partial_function (option) exponential_spawn ::
  "kernel_fork \<Rightarrow> config \<Rightarrow> int \<Rightarrow> server \<Rightarrow> (event list \<times> server) res option" where
  "exponential_spawn fork cf n st =
     (case spawn_loop fork (nat (if 32 < n then 32 else n)) st of
        Inl e \<Rightarrow> Some (Inl e)
      | Inr (es, st') \<Rightarrow>
          if minSpareServers cf \<le> num_idle_workers st' then Some (Inr (es, st'))
          else
            Option.bind (exponential_spawn fork cf ((if 32 < n then 32 else n) * 2) st') (\<lambda>r.
              Some (rbind r (\<lambda>(es', st''). Inr (es @ es', st'')))))"

section \<open>Control messages\<close>

definition handle_control_msg ::
  "kernel_fork \<Rightarrow> config \<Rightarrow> control_msg \<Rightarrow> server \<Rightarrow> (event list \<times> server) res" where
  "handle_control_msg fork cf m st =
     (if msg_type m = GOT_REQUEST then
        rbind (get_worker_by_id (msg_pid m) st) (\<lambda>wk.
        case wk of
          None \<Rightarrow> Inl Null_deref
        | Some a \<Rightarrow>
            rbind (wr st a (\<lambda>w. w\<lparr>is_idle := False\<rparr>)) (\<lambda>st.
            let st = st\<lparr>num_idle_workers := num_idle_workers st - 1\<rparr> in
            if num_idle_workers st < minSpareServers cf then create_new_worker fork st
            else Inr ([], st)))
      else if msg_type m = COMPLETED_REQUEST then
        rbind (get_worker_by_id (msg_pid m) st) (\<lambda>wk.
        case wk of
          None \<Rightarrow> Inl Null_deref
        | Some a \<Rightarrow>
            rbind (wr st a (\<lambda>w. w\<lparr>is_idle := True, reqs_handled := msg_reqs m\<rparr>)) (\<lambda>st.
            let st = st\<lparr>num_idle_workers := num_idle_workers st + 1\<rparr> in
            if maxSpareServers cf < num_idle_workers st then remove_worker wk st
            else if msg_reqs m = maxRequestsPerChild cf then
              rbind (remove_worker wk st) (\<lambda>(es, st).
              rbind (create_new_worker fork st) (\<lambda>(es', st). Inr (es @ es', st)))
            else rbind (rd st a) (\<lambda>w. Inr ([Acked (pid w)], st))))
      else Inr ([], st))"

text \<open>Reading the command line and spawning the first workers.\<close>

definition server_main ::
  "kernel_fork \<Rightarrow> string list \<Rightarrow> (config \<times> event list \<times> server) res option" where
  "server_main fork argv =
     (if length argv < 4 then Some (Inl (Exit_failure ''Usage''))
      else
        let cf = \<lparr>minSpareServers = atoi (argv ! 1), maxSpareServers = atoi (argv ! 2),
                  maxRequestsPerChild = atoi (argv ! 3)\<rparr>
        in
        case exponential_spawn fork cf 1 server_init of
          None \<Rightarrow> None
        | Some (Inl e) \<Rightarrow> Some (Inl e)
        | Some (Inr (es, st)) \<Rightarrow> Some (Inr (cf, es, st)))"

section \<open>A worker process\<close>

text \<open>
  Where the loop of \<open>start_worker\<close> waits for a system call; the number is its \<open>reqs_handled\<close>.
  One step takes the outcome of that call and gives the messages sent to the parent.
\<close>

datatype proc =
    Binding
  | Wait_ack int
  | Accepting int
  | Sending_got int
  | Reading int
  | Replying int
  | Sending_completed int
  | Exited int

fun start_worker :: "int \<Rightarrow> bool \<Rightarrow> proc \<Rightarrow> proc \<times> control_msg list" where
  "start_worker p ok Binding = (if ok then Accepting 0 else Exited (-1), [])"
| "start_worker p ok (Wait_ack n) = (if ok then Accepting n else Wait_ack n, [])"
| "start_worker p ok (Accepting n) = (if ok then Sending_got n else Exited (-1), [])"
| "start_worker p ok (Sending_got n) =
     (if ok then (Reading n, [\<lparr>msg_type = GOT_REQUEST, msg_pid = p, msg_reqs = n\<rparr>]) else (Exited (-1), []))"
| "start_worker p ok (Reading n) = (if ok then Replying n else Exited (-1), [])"
| "start_worker p ok (Replying n) = (if ok then Sending_completed n else Exited (-1), [])"
| "start_worker p ok (Sending_completed n) =
     (if ok then (Wait_ack (n + 1), [\<lparr>msg_type = COMPLETED_REQUEST, msg_pid = p, msg_reqs = n + 1\<rparr>])
      else (Exited (-1), []))"
| "start_worker p ok (Exited s) = (Exited s, [])"

text \<open>The address of a worker's socket: the 108 bytes of \<open>sun_path\<close>.\<close>

definition get_worker_sock_addr :: "int \<Rightarrow> string res" where
  "get_worker_sock_addr p =
     rbind (strcpy_to 64 (''childsock_'' @ show_int p)) (\<lambda>path.
     rbind (strcpy_to 107 path) (\<lambda>path. Inr (NUL # path @ replicate (107 - length path) NUL)))"

section \<open>The store holds a list\<close>

text \<open>The workers form a list in the sense of \<open>Linked_Store\<close>.\<close>

abbreviation wseg :: "(nat \<Rightarrow> worker option) \<Rightarrow> nat option \<Rightarrow> nat list \<Rightarrow> nat option \<Rightarrow> bool" where
  "wseg \<equiv> dseg wnext wprev"

interpretation worker_links: block_links wnext wprev "\<lambda>q w. w\<lparr>wnext := q\<rparr>" "\<lambda>p w. w\<lparr>wprev := p\<rparr>"
  by unfold_locales simp_all

type_synonym entry = "int \<times> int \<times> bool"

definition view :: "worker \<Rightarrow> entry" where
  "view w = (pid w, reqs_handled w, is_idle w)"

definition pool :: "(nat \<Rightarrow> worker option) \<Rightarrow> nat list \<Rightarrow> entry list" where
  "pool s as = map (\<lambda>a. view (the (s a))) as"

lemma pool_simps [simp]:
  "pool s [] = []" "pool s (a # as) = view (the (s a)) # pool s as" "pool s (xs @ ys) = pool s xs @ pool s ys"
  by (simp_all add: pool_def)

lemma fst_view [simp]: "fst (view w) = pid w"
  by (simp add: view_def)

lemma pool_frame: "\<forall>a \<in> set as. s' a = s a \<Longrightarrow> pool s' as = pool s as"
  by (simp add: pool_def)

lemma pool_other [simp]: "a \<notin> set as \<Longrightarrow> pool (s(a := v)) as = pool s as"
  by (rule pool_frame) auto

lemma pool_same_view: "s a = Some w \<Longrightarrow> view v = view w \<Longrightarrow> pool (s(a \<mapsto> v)) as = pool s as"
  by (simp add: pool_def)

definition wf_list :: "server \<Rightarrow> nat list \<Rightarrow> bool" where
  "wf_list st as \<longleftrightarrow> wseg (store st) None as None \<and> distinct as \<and>
     workers_head st = first_of as None \<and> (\<forall>a \<in> set as. a < fresh st)"

lemma wf_list_length: "wf_list st as \<Longrightarrow> length as \<le> fresh st"
proof -
  assume wf: "wf_list st as"
  then have "set as \<subseteq> {..<fresh st}" "distinct as" by (auto simp: wf_list_def)
  then show ?thesis by (metis card_lessThan card_mono distinct_card finite_lessThan)
qed

subsection \<open>Searching and printing\<close>

lemma find_worker_list:
  "wseg (store st) q as None \<Longrightarrow> length as \<le> k \<Longrightarrow>
     find_worker k st p (first_of as None) = Inr (find (\<lambda>a. pid (the (store st a)) = p) as)"
proof (induction as arbitrary: k q)
  case Nil
  then show ?case by simp
next
  case (Cons a as)
  then obtain k' where "k = Suc k'" by (cases k) auto
  with Cons show ?case by (fastforce simp: rd_def)
qed

lemma get_worker_by_id_list:
  "wf_list st as \<Longrightarrow> get_worker_by_id p st = Inr (find (\<lambda>a. pid (the (store st a)) = p) as)"
  unfolding get_worker_by_id_def wf_list_def
  using find_worker_list [of st None as "fresh st" p] wf_list_length [of st as]
  by (simp add: wf_list_def)

lemma print_workers_list:
  "wseg (store st) q as None \<Longrightarrow> length as \<le> k \<Longrightarrow>
     print_workers k st (first_of as None) = Inr (map (\<lambda>(p, r, i). (p, r, \<not> i)) (pool (store st) as))"
proof (induction as arbitrary: k q)
  case Nil
  then show ?case by simp
next
  case (Cons a as)
  then obtain k' where "k = Suc k'" by (cases k) auto
  with Cons show ?case by (fastforce simp: rd_def view_def)
qed

subsection \<open>Adding, updating and removing a worker\<close>

lemma add_worker_list:
  assumes "wf_list st as"
  shows "\<exists>st'. add_worker p st = Inr st' \<and> wf_list st' (fresh st # as) \<and>
     pool (store st') (fresh st # as) = (p, 0, True) # pool (store st) as \<and>
     num_workers st' = num_workers st + 1 \<and> num_idle_workers st' = num_idle_workers st + 1 \<and>
     children st' = children st \<and> forked st' = forked st"
proof -
  have new: "fresh st \<notin> set as" and lt: "\<forall>a \<in> set as. a < fresh st + 1"
    using assms by (auto simp: wf_list_def)
  show ?thesis
  proof (cases as)
    case Nil
    with assms show ?thesis by (simp add: add_worker_def wf_list_def view_def Let_def)
  next
    case (Cons b bs)
    with assms obtain w where w: "store st b = Some w" by (auto simp: wf_list_def)
    let ?new = "\<lparr>pid = p, reqs_handled = 0, is_idle = True, to_harvest = False, wnext = Some b, wprev = None\<rparr>"
    let ?s = "(store st)(fresh st \<mapsto> ?new, b \<mapsto> w\<lparr>wprev := Some (fresh st)\<rparr>)"
    have neq: "b \<noteq> fresh st" using new Cons by auto
    have "wseg ((store st)(fresh st \<mapsto> ?new)) None as None"
      using assms new by (simp add: wf_list_def)
    then have "wseg ?s (Some (fresh st)) as None"
      using worker_links.change_prev [of "(store st)(fresh st \<mapsto> ?new)" None b bs None w "Some (fresh st)"]
        assms w neq by (simp add: Cons wf_list_def)
    moreover have "pool ?s as = pool (store st) as"
      using new w by (auto simp: pool_def view_def)
    ultimately show ?thesis
      using assms w neq new lt Cons
      by (simp add: add_worker_def wr_def rd_def wf_list_def view_def less_SucI Let_def)
  qed
qed

lemma wr_list:
  assumes "wf_list st as" "a \<in> set as" "store st a = Some w"
    and "wnext (f w) = wnext w" "wprev (f w) = wprev w"
  shows "\<exists>st'. wr st a f = Inr st' \<and> st' = st\<lparr>store := (store st)(a \<mapsto> f w)\<rparr> \<and> wf_list st' as"
  using assms dseg_update [of "store st" a w wnext "f w" wprev] by (simp add: wr_def rd_def wf_list_def)

lemma remove_worker_only:
  "wf_list st [a] \<Longrightarrow> remove_worker (Some a) st = Inl Null_deref"
  by (auto simp: remove_worker_def wf_list_def rd_def Let_def)

text \<open>Removing the worker in block \<open>a\<close> when it is not the only one.\<close>

lemma remove_worker_list:
  assumes wf: "wf_list st (xs @ a # ys)" and other: "xs @ ys \<noteq> []"
    and dist: "distinct (map fst (pool (store st) (xs @ a # ys)))" and w: "store st a = Some w"
  shows "\<exists>st'. remove_worker (Some a) st = Inr ([Killed (pid w)], st') \<and> wf_list st' (xs @ ys) \<and>
     pool (store st') (xs @ ys) = pool (store st) (xs @ ys) \<and>
     num_workers st' = num_workers st - 1 \<and> num_idle_workers st' = num_idle_workers st - 1 \<and>
     children st' = remove1 (pid w) (children st) \<and> forked st' = forked st"
proof -
  let ?s = "store st"
  have d: "wseg ?s None (xs @ a # ys) None" "distinct (xs @ a # ys)"
    and lt: "\<forall>b \<in> set (xs @ a # ys). b < fresh st" and hd: "workers_head st = first_of (xs @ a # ys) None"
    using wf by (auto simp: wf_list_def)
  have seg: "wseg ?s None xs (Some a)" "wprev w = last_of None xs" "wnext w = first_of ys None"
    "wseg ?s (Some a) ys None"
    using d(1) w by (auto simp: dseg_append)
  show ?thesis
  proof (cases xs)
    case Nil
    with other obtain b bs where ys: "ys = b # bs" by (cases ys) auto
    with seg obtain v where v: "?s b = Some v" by auto
    let ?t = "?s(b \<mapsto> v\<lparr>wprev := None\<rparr>)"
    have "wseg (?t(a := None)) None ys None"
      using worker_links.change_prev [of ?s "Some a" b bs None v None] seg(4) d(2) v ys Nil by auto
    moreover have "pool (?t(a := None)) ys = pool ?s ys"
      using d(2) v ys Nil by (auto simp: view_def pool_def)
    ultimately show ?thesis
      using Nil ys seg w v d lt hd
      by (simp add: remove_worker_def rd_def wr_def wf_list_def Let_def)
  next
    case (Cons h hs)
    obtain zs p where xs: "xs = zs @ [p]" using Cons by (metis list.distinct(1) rev_exhaust)
    have hw: "\<exists>hw. ?s h = Some hw \<and> pid hw \<noteq> pid w"
      using dseg_mem [OF seg(1), of h] dist Cons w by auto
    obtain pw where pw: "?s p = Some pw" using dseg_mem [OF seg(1), of p] xs by auto
    let ?t = "?s(p \<mapsto> pw\<lparr>wnext := first_of ys None\<rparr>)"
    have xs_seg: "wseg ?t None xs (first_of ys None)"
      using worker_links.change_next [of ?s None zs p "Some a" pw] seg(1) d(2) pw xs by auto
    have xs_pool: "pool ?t xs = pool ?s xs"
      using pw by (intro pool_same_view) (auto simp: view_def)
    have at: "workers_head st = Some h" using hd Cons by simp
    have "last xs = p" using xs by simp
    then have prev: "wprev w = Some p" using seg(2) Cons by simp
    let ?out = "\<lambda>s. st\<lparr>num_workers := num_workers st - 1, num_idle_workers := num_idle_workers st - 1,
        children := remove1 (pid w) (children st), store := s\<rparr>"
    show ?thesis
    proof (cases ys)
      case Nil
      have "remove_worker (Some a) st = Inr ([Killed (pid w)], ?out (?t(a := None)))"
        using hw pw w at prev seg(3) Nil by (auto simp: remove_worker_def rd_def wr_def Let_def)
      moreover have "wseg (?t(a := None)) None xs None" "pool (?t(a := None)) xs = pool ?s xs"
        using xs_seg xs_pool d(2) Nil by auto
      ultimately show ?thesis using Nil \<open>xs = h # hs\<close> d(2) lt at by (auto simp: wf_list_def)
    next
      case (Cons b bs)
      with seg obtain v where v: "?s b = Some v" by auto
      have neq: "p \<noteq> b" "p \<noteq> a" "b \<noteq> a" using d(2) xs Cons by auto
      let ?u = "(?t(b \<mapsto> v\<lparr>wprev := Some p\<rparr>))(a := None)"
      have "remove_worker (Some a) st = Inr ([Killed (pid w)], ?out ?u)"
        using hw pw w at prev seg(3) Cons v neq by (auto simp: remove_worker_def rd_def wr_def Let_def)
      moreover have "wseg ?u None (xs @ ys) None"
      proof -
        have "wseg ?u (Some p) ys None"
          using worker_links.change_prev [of ?s "Some a" b bs None v "Some p"] seg(4) d(2) v Cons xs
          by (auto simp: fun_upd_twist)
        moreover have "wseg ?u None xs (Some b)" using xs_seg d(2) Cons by auto
        moreover have "last_of None xs = Some p" using xs by simp
        ultimately show ?thesis using Cons by (simp only: dseg_append list.case)
      qed
      moreover have "first_of (xs @ ys) None = Some h" using \<open>xs = h # hs\<close> by simp
      moreover have "pool ?u xs = pool ?s xs" using d(2) Cons xs_pool by simp
      moreover have "pool ?u ys = pool ?s ys" using d(2) Cons v xs by (auto simp: view_def)
      ultimately show ?thesis using d(2) lt at by (simp add: wf_list_def)
    qed
  qed
qed

section \<open>The pool of workers\<close>

text \<open>
  What the parent promises, on the list of entries alone. \<open>q\<close> is the pid a fork gives; \<open>None\<close>
  is the removal of the only worker, for which \<open>remove_worker\<close> has no branch.
\<close>

definition idle_count :: "entry list \<Rightarrow> nat" where
  "idle_count es = length (filter (\<lambda>(_, _, i). i) es)"

definition mark :: "int \<Rightarrow> (entry \<Rightarrow> entry) \<Rightarrow> entry list \<Rightarrow> entry list" where
  "mark p g es = map (\<lambda>e. if fst e = p then g e else e) es"

definition drop_worker :: "int \<Rightarrow> entry list \<Rightarrow> entry list" where
  "drop_worker p es = filter (\<lambda>e. fst e \<noteq> p) es"

definition busy :: "entry \<Rightarrow> entry" where
  "busy e = (fst e, fst (snd e), False)"

definition done_with :: "int \<Rightarrow> entry \<Rightarrow> entry" where
  "done_with r e = (fst e, r, True)"

definition pool_step :: "config \<Rightarrow> int \<Rightarrow> control_msg \<Rightarrow> entry list \<Rightarrow> (event list \<times> entry list) option" where
  "pool_step cf q m es =
     (let p = msg_pid m in
      if msg_type m = GOT_REQUEST then
        let es = mark p busy es in
        Some (if int (idle_count es) < minSpareServers cf then ([Forked q], (q, 0, True) # es) else ([], es))
      else if msg_type m = COMPLETED_REQUEST then
        let es = mark p (done_with (msg_reqs m)) es; rest = drop_worker p es in
        if maxSpareServers cf < int (idle_count es) then (if rest = [] then None else Some ([Killed p], rest))
        else if msg_reqs m = maxRequestsPerChild cf then
          (if rest = [] then None else Some ([Killed p, Forked q], (q, 0, True) # rest))
        else Some ([Acked p], es)
      else Some ([], es))"

definition wf_at :: "server \<Rightarrow> nat list \<Rightarrow> entry list \<Rightarrow> bool" where
  "wf_at st as es \<longleftrightarrow> wf_list st as \<and> es = pool (store st) as \<and> distinct (map fst es) \<and>
     num_workers st = int (length es) \<and> num_idle_workers st = int (idle_count es) \<and>
     distinct (children st) \<and> set (children st) = fst ` set es"

definition wf_server :: "server \<Rightarrow> entry list \<Rightarrow> bool" where
  "wf_server st es \<longleftrightarrow> (\<exists>as. wf_at st as es)"

text \<open>What the kernel promises of \<open>fork\<close>: a positive pid that no live child has.\<close>

definition fork_ok :: "kernel_fork \<Rightarrow> bool" where
  "fork_ok fork \<longleftrightarrow> (\<forall>n ps. 0 < fork n ps \<and> fork n ps \<notin> set ps)"

lemma idle_count_simps [simp]:
  "idle_count [] = 0" "idle_count (e # es) = (if snd (snd e) then 1 else 0) + idle_count es"
  "idle_count (xs @ ys) = idle_count xs + idle_count ys"
  by (simp_all add: idle_count_def split: prod.splits)

lemma mark_absent: "p \<notin> fst ` set es \<Longrightarrow> mark p g es = es"
  by (induction es) (auto simp: mark_def)

lemma drop_worker_absent: "p \<notin> fst ` set es \<Longrightarrow> drop_worker p es = es"
  by (induction es) (auto simp: drop_worker_def)

lemma drop_worker_split:
  "fst e \<notin> fst ` set xs \<Longrightarrow> fst e \<notin> fst ` set ys \<Longrightarrow> drop_worker (fst e) (xs @ e # ys) = xs @ ys"
  by (simp add: drop_worker_absent [unfolded drop_worker_def] drop_worker_def)

lemma mark_split:
  "fst e \<notin> fst ` set xs \<Longrightarrow> fst e \<notin> fst ` set ys \<Longrightarrow> mark (fst e) g (xs @ e # ys) = xs @ g e # ys"
  by (simp add: mark_absent [unfolded mark_def] mark_def)

lemma split_pool:
  assumes "distinct (map fst es)" "e \<in> set es"
  obtains xs ys where "es = xs @ e # ys" "\<And>g. mark (fst e) g es = xs @ g e # ys"
    "drop_worker (fst e) es = xs @ ys"
proof -
  from assms(2) obtain xs ys where es: "es = xs @ e # ys" by (auto simp: in_set_conv_decomp)
  then have "fst e \<notin> fst ` set xs" "fst e \<notin> fst ` set ys" using assms(1) by auto
  with es show ?thesis by (intro that [of xs ys]) (simp_all add: mark_split drop_worker_split)
qed

lemma map_fst_mark: "(\<And>e. fst (g e) = fst e) \<Longrightarrow> map fst (mark p g es) = map fst es"
  by (induction es) (simp_all add: mark_def)

lemma length_mark [simp]: "length (mark p g es) = length es"
  by (simp add: mark_def)

lemma drop_worker_mark: "(\<And>e. fst (g e) = fst e) \<Longrightarrow> drop_worker p (mark p g es) = drop_worker p es"
  by (induction es) (simp_all add: mark_def drop_worker_def)

lemma create_new_worker_wf:
  assumes "wf_server st es" "fork_ok fork"
  shows "\<exists>q st'. 0 < q \<and> create_new_worker fork st = Inr ([Forked q], st') \<and> wf_server st' ((q, 0, True) # es)"
proof -
  let ?q = "fork (forked st) (children st)"
  let ?st = "st\<lparr>forked := forked st + 1, children := ?q # children st\<rparr>"
  from assms(1) obtain as where wf: "wf_at st as es" by (auto simp: wf_server_def)
  then have "wf_list ?st as" by (simp add: wf_at_def wf_list_def)
  from add_worker_list [OF this, of ?q] obtain st' where
    st': "add_worker ?q ?st = Inr st'" "wf_list st' (fresh st # as)"
      "pool (store st') (fresh st # as) = (?q, 0, True) # es"
      "num_workers st' = num_workers st + 1" "num_idle_workers st' = num_idle_workers st + 1"
      "children st' = ?q # children st"
    using wf by (auto simp: wf_at_def)
  have "?q \<notin> set (children st)" "0 < ?q" using assms(2) by (auto simp: fork_ok_def)
  then have "wf_at st' (fresh st # as) ((?q, 0, True) # es)"
    using st'(2-6) wf by (auto simp: wf_at_def simp del: pool_simps)
  with st'(1) \<open>0 < ?q\<close> show ?thesis by (auto simp: create_new_worker_def wf_server_def Let_def)
qed

lemma remove_worker_wf:
  assumes wf: "wf_at st as es" and a: "a \<in> set as" "pid (the (store st a)) = p" and idle: "(p, r, True) \<in> set es"
  shows "if drop_worker p es = [] then remove_worker (Some a) st = Inl Null_deref
         else \<exists>st'. remove_worker (Some a) st = Inr ([Killed p], st') \<and> wf_server st' (drop_worker p es)"
proof -
  from a(1) obtain xs ys where as: "as = xs @ a # ys" by (auto simp: in_set_conv_decomp)
  have l: "wf_list st (xs @ a # ys)" and es: "es = pool (store st) (xs @ a # ys)"
    and dist: "distinct (map fst (pool (store st) (xs @ a # ys)))"
    using wf unfolding wf_at_def as by blast+
  obtain w where w: "store st a = Some w" using l dseg_mem [of wnext wprev "store st" None as None a] a(1) as
    by (auto simp: wf_list_def)
  have p: "pid w = p" using a(2) w by simp
  have inxs: "view w \<in> set es" using es w by simp
  have "view w = (p, r, True)"
    using eq_key_imp_eq_value [of es p "snd (view w)" "(r, True)"] idle inxs p wf
    by (auto simp: wf_at_def view_def)
  have drop: "drop_worker p es = pool (store st) (xs @ ys)"
    using drop_worker_split [of "view w" "pool (store st) xs" "pool (store st) ys"] es w p dist by simp
  show ?thesis
  proof (cases "xs @ ys = []")
    case True
    then show ?thesis using drop l remove_worker_only by (auto simp: pool_def)
  next
    case False
    from remove_worker_list [OF l False dist w] obtain st' where
      st': "remove_worker (Some a) st = Inr ([Killed p], st')" "wf_list st' (xs @ ys)"
        "pool (store st') (xs @ ys) = drop_worker p es"
        "num_workers st' = num_workers st - 1" "num_idle_workers st' = num_idle_workers st - 1"
        "children st' = remove1 p (children st)"
      using p drop by auto
    let ?rest = "drop_worker p es"
    have "p \<notin> fst ` set ?rest" "set (children st) = insert p (fst ` set ?rest)" "distinct (map fst ?rest)"
      "length es = Suc (length ?rest)" "idle_count es = Suc (idle_count ?rest)"
    proof -
      have es2: "es = pool (store st) xs @ (p, r, True) # pool (store st) ys"
        and rest: "?rest = pool (store st) xs @ pool (store st) ys"
        using es w \<open>view w = (p, r, True)\<close> drop by simp_all
      have "distinct (map fst es)" "set (children st) = fst ` set es"
        using wf unfolding wf_at_def by blast+
      then show "p \<notin> fst ` set ?rest" "set (children st) = insert p (fst ` set ?rest)" "distinct (map fst ?rest)"
          "length es = Suc (length ?rest)" "idle_count es = Suc (idle_count ?rest)"
        unfolding rest unfolding es2 by (simp_all add: image_Un)
    qed
    then have "wf_at st' (xs @ ys) ?rest"
      using st'(2-6) wf by (simp add: wf_at_def set_remove1_eq)
    with False drop st'(1) show ?thesis by (auto simp: pool_def wf_server_def)
  qed
qed

text \<open>The search for the sender and the update of its entry, which both handlers begin with.\<close>

lemma update_worker_wf:
  assumes wf: "wf_server st es" and e: "e \<in> set es"
    and f: "\<And>w. view (f w) = g (view w)" "\<And>w. pid (f w) = pid w" "\<And>w. wnext (f w) = wnext w"
      "\<And>w. wprev (f w) = wprev w"
  shows "\<exists>as a st1 w. get_worker_by_id (fst e) st = Inr (Some a) \<and> wr st a f = Inr st1 \<and>
     store st1 a = Some w \<and> pid w = fst e \<and> a \<in> set as \<and> num_idle_workers st1 = num_idle_workers st \<and>
     wf_at (st1\<lparr>num_idle_workers := int (idle_count (mark (fst e) g es))\<rparr>) as (mark (fst e) g es)"
proof -
  let ?p = "fst e"
  from wf obtain as where at: "wf_at st as es" by (auto simp: wf_server_def)
  then have l: "wf_list st as" and es: "es = pool (store st) as" and dist: "distinct (map fst es)"
    unfolding wf_at_def by blast+
  from e es obtain b where b: "b \<in> set as" "pid (the (store st b)) = ?p"
    by (auto simp: pool_def)
  then have "find (\<lambda>a. pid (the (store st a)) = ?p) as \<noteq> None" by (auto simp: find_None_iff)
  then obtain a where fnd: "find (\<lambda>a. pid (the (store st a)) = ?p) as = Some a" by auto
  then have a: "a \<in> set as" "pid (the (store st a)) = ?p" by (auto dest: find_Some_first)
  from l have "wseg (store st) None as None" by (simp add: wf_list_def)
  from dseg_mem [OF this a(1)] obtain w where w: "store st a = Some w" ..
  from a(1) obtain xs ys where as: "as = xs @ a # ys" by (auto simp: in_set_conv_decomp)
  have notin: "a \<notin> set xs" "a \<notin> set ys" using l as by (auto simp: wf_list_def)
  let ?st1 = "st\<lparr>store := (store st)(a \<mapsto> f w)\<rparr>"
  have st1: "wr st a f = Inr ?st1" "wf_list ?st1 as" using wr_list [OF l a(1) w] f by auto
  have "mark ?p g es = pool (store st) xs @ g (view w) # pool (store st) ys"
    using mark_split [of "view w" "pool (store st) xs" "pool (store st) ys" g] es as w a dist by simp
  also have "\<dots> = pool (store ?st1) as" using as notin f(1) by simp
  finally have pl: "mark ?p g es = pool (store ?st1) as" .
  have "fst (g (view w')) = fst (view w')" for w' using f(1,2) by (metis fst_view)
  then have "map fst (mark ?p g es) = map fst es"
    unfolding es by (auto simp: mark_def pool_def)
  moreover from this have "fst ` set (mark ?p g es) = fst ` set es" by (metis list.set_map)
  moreover have "num_workers st = int (length es)" "distinct (children st)" "set (children st) = fst ` set es"
    using at unfolding wf_at_def by blast+
  ultimately have "wf_at (?st1\<lparr>num_idle_workers := int (idle_count (mark ?p g es))\<rparr>) as (mark ?p g es)"
    using dist st1(2) pl length_mark [of ?p g es] by (simp add: wf_at_def wf_list_def)
  moreover have "get_worker_by_id ?p st = Inr (Some a)"
    using get_worker_by_id_list [OF l] fnd by simp
  moreover have "store ?st1 a = Some (f w)" "pid (f w) = ?p" using a w f(2) by simp_all
  ultimately show ?thesis using st1(1) a(1)
    by (intro exI [of _ as] exI [of _ a] exI [of _ ?st1] exI [of _ "f w"]) simp
qed

lemma idle_count_mark:
  assumes "distinct (map fst es)" "(p, r, i) \<in> set es"
  shows "int (idle_count (mark p g es)) =
     int (idle_count es) - (if i then 1 else 0) + (if snd (snd (g (p, r, i))) then 1 else 0)"
proof -
  obtain xs ys where "es = xs @ (p, r, i) # ys" "\<And>g. mark (fst (p, r, i)) g es = xs @ g (p, r, i) # ys"
    using split_pool [OF assms] by metis
  then show ?thesis by simp
qed

section \<open>The parent refines the pool\<close>

text \<open>A message fits when its sender is in the pool and in the state the message says it leaves.\<close>

definition msg_fits :: "control_msg \<Rightarrow> entry list \<Rightarrow> bool" where
  "msg_fits m es \<longleftrightarrow>
     (msg_type m = GOT_REQUEST \<longrightarrow> (\<exists>r. (msg_pid m, r, True) \<in> set es)) \<and>
     (msg_type m = COMPLETED_REQUEST \<longrightarrow> (\<exists>r. (msg_pid m, r, False) \<in> set es))"

definition refines_step ::
  "(event list \<times> entry list) option \<Rightarrow> (event list \<times> server) res \<Rightarrow> bool" where
  "refines_step spec res \<longleftrightarrow>
     (case spec of
        None \<Rightarrow> res = Inl Null_deref
      | Some (evs, es) \<Rightarrow> (case res of Inl _ \<Rightarrow> False | Inr (evs', st) \<Rightarrow> evs' = evs \<and> wf_server st es))"

lemma handle_got_request:
  assumes wf: "wf_server st es" and fork: "fork_ok fork" and m: "msg_type m = GOT_REQUEST" "msg_fits m es"
  shows "\<exists>q. 0 < q \<and> refines_step (pool_step cf q m es) (handle_control_msg fork cf m st)"
proof -
  let ?es = "mark (msg_pid m) busy es"
  from m obtain r where e: "(msg_pid m, r, True) \<in> set es" by (auto simp: msg_fits_def)
  obtain as a st1 w where u: "get_worker_by_id (msg_pid m) st = Inr (Some a)"
      "wr st a (\<lambda>w. w\<lparr>is_idle := False\<rparr>) = Inr st1" "num_idle_workers st1 = num_idle_workers st"
      "wf_at (st1\<lparr>num_idle_workers := int (idle_count ?es)\<rparr>) as ?es"
    using update_worker_wf [OF wf e, of "\<lambda>w. w\<lparr>is_idle := False\<rparr>" busy] by (auto simp: view_def busy_def)
  have "distinct (map fst es)" "num_idle_workers st = int (idle_count es)"
    using wf by (auto simp: wf_server_def wf_at_def)
  then have n: "num_idle_workers st1 - 1 = int (idle_count ?es)"
    using idle_count_mark [OF _ e, of busy] u(3) by (simp add: busy_def)
  let ?st2 = "st1\<lparr>num_idle_workers := int (idle_count ?es)\<rparr>"
  have wf2: "wf_server ?st2 ?es" using u(4) by (auto simp: wf_server_def)
  have h: "handle_control_msg fork cf m st =
      (if int (idle_count ?es) < minSpareServers cf then create_new_worker fork ?st2 else Inr ([], ?st2))"
    using m(1) u(1,2) n by (simp add: handle_control_msg_def Let_def)
  from create_new_worker_wf [OF wf2 fork] obtain q st' where
    "0 < q" "create_new_worker fork ?st2 = Inr ([Forked q], st')" "wf_server st' ((q, 0, True) # ?es)" by blast
  with wf2 m(1) show ?thesis unfolding h
    by (intro exI [of _ q]) (simp add: refines_step_def pool_step_def Let_def)
qed

lemma handle_completed_request:
  assumes wf: "wf_server st es" and fork: "fork_ok fork" and m: "msg_type m = COMPLETED_REQUEST" "msg_fits m es"
  shows "\<exists>q. 0 < q \<and> refines_step (pool_step cf q m es) (handle_control_msg fork cf m st)"
proof -
  let ?p = "msg_pid m" and ?f = "\<lambda>w. w\<lparr>is_idle := True, reqs_handled := msg_reqs m\<rparr>"
  let ?es = "mark ?p (done_with (msg_reqs m)) es"
  from m obtain r where e: "(?p, r, False) \<in> set es" by (auto simp: msg_fits_def)
  obtain as a st1 w where u: "get_worker_by_id ?p st = Inr (Some a)" "wr st a ?f = Inr st1"
      "store st1 a = Some w" "pid w = ?p" "a \<in> set as" "num_idle_workers st1 = num_idle_workers st"
      "wf_at (st1\<lparr>num_idle_workers := int (idle_count ?es)\<rparr>) as ?es"
    using update_worker_wf [OF wf e, of ?f "done_with (msg_reqs m)"] by (auto simp: view_def done_with_def)
  have dist: "distinct (map fst es)" "num_idle_workers st = int (idle_count es)"
    using wf by (auto simp: wf_server_def wf_at_def)
  then have n: "num_idle_workers st1 + 1 = int (idle_count ?es)"
    using idle_count_mark [OF _ e, of "done_with (msg_reqs m)"] u(6) by (simp add: done_with_def)
  let ?st2 = "st1\<lparr>num_idle_workers := int (idle_count ?es)\<rparr>"
  have idle: "(?p, msg_reqs m, True) \<in> set ?es" using e by (force simp: mark_def done_with_def)
  have h: "handle_control_msg fork cf m st =
      (if maxSpareServers cf < int (idle_count ?es) then remove_worker (Some a) ?st2
       else if msg_reqs m = maxRequestsPerChild cf then
         rbind (remove_worker (Some a) ?st2) (\<lambda>(evs, st).
         rbind (create_new_worker fork st) (\<lambda>(evs', st). Inr (evs @ evs', st)))
       else Inr ([Acked ?p], ?st2))"
    using m(1) u(1-4) n by (simp add: handle_control_msg_def Let_def rd_def)
  have rem: "if drop_worker ?p ?es = [] then remove_worker (Some a) ?st2 = Inl Null_deref
      else \<exists>st'. remove_worker (Some a) ?st2 = Inr ([Killed ?p], st') \<and> wf_server st' (drop_worker ?p ?es)"
    using remove_worker_wf [OF u(7) u(5) _ idle] u(3,4) by simp
  have wf2: "wf_server ?st2 ?es" using u(7) by (auto simp: wf_server_def)
  show ?thesis
  proof (cases "drop_worker ?p ?es = []")
    case True
    with rem wf2 m(1) show ?thesis unfolding h
      by (intro exI [of _ 1], cases "msg_reqs m = maxRequestsPerChild cf")
         (simp_all add: refines_step_def pool_step_def Let_def)
  next
    case False
    with rem obtain st3 where st3: "remove_worker (Some a) ?st2 = Inr ([Killed ?p], st3)"
        "wf_server st3 (drop_worker ?p ?es)" by auto
    from create_new_worker_wf [OF st3(2) fork] obtain q st' where
      "0 < q" "create_new_worker fork st3 = Inr ([Forked q], st')"
      "wf_server st' ((q, 0, True) # drop_worker ?p ?es)" by blast
    with False st3 wf2 m(1) show ?thesis unfolding h
      by (intro exI [of _ q], cases "msg_reqs m = maxRequestsPerChild cf")
         (simp_all add: refines_step_def pool_step_def Let_def)
  qed
qed

lemma handle_control_msg_refines:
  assumes "wf_server st es" "fork_ok fork" "msg_fits m es"
  shows "\<exists>q. 0 < q \<and> refines_step (pool_step cf q m es) (handle_control_msg fork cf m st)"
proof -
  consider "msg_type m = GOT_REQUEST" | "msg_type m = COMPLETED_REQUEST"
    | "msg_type m \<noteq> GOT_REQUEST" "msg_type m \<noteq> COMPLETED_REQUEST" by blast
  then show ?thesis
  proof cases
    case 3
    with assms show ?thesis
      by (intro exI [of _ 1]) (simp add: refines_step_def pool_step_def handle_control_msg_def Let_def)
  qed (use assms handle_got_request handle_completed_request in blast)+
qed

section \<open>Start-up\<close>

definition all_new :: "entry list \<Rightarrow> bool" where
  "all_new es \<longleftrightarrow> (\<forall>(p, r, i) \<in> set es. 0 < p \<and> r = 0 \<and> i)"

lemma all_new_simps [simp]:
  "all_new []" "all_new ((p, r, i) # es) \<longleftrightarrow> 0 < p \<and> r = 0 \<and> i \<and> all_new es"
  by (auto simp: all_new_def)

lemma spawn_loop_wf:
  "wf_server st es \<Longrightarrow> fork_ok fork \<Longrightarrow> all_new es \<Longrightarrow>
     \<exists>qs st'. spawn_loop fork n st = Inr (map Forked qs, st') \<and> length qs = n \<and>
       (\<exists>es'. wf_server st' es' \<and> length es' = length es + n \<and> all_new es' \<and>
         fst ` set es' = set qs \<union> fst ` set es)"
proof (induction n arbitrary: st es)
  case 0
  then show ?case by auto
next
  case (Suc n)
  from create_new_worker_wf [OF Suc.prems(1,2)] obtain q st1 where q: "0 < q"
    "create_new_worker fork st = Inr ([Forked q], st1)" "wf_server st1 ((q, 0, True) # es)" by blast
  from Suc.IH [OF q(3) Suc.prems(2)] Suc.prems(3) q(1) obtain qs st' es' where
    "spawn_loop fork n st1 = Inr (map Forked qs, st')" "length qs = n" "wf_server st' es'"
    "length es' = Suc (length es) + n" "all_new es'"
    "fst ` set es' = set qs \<union> insert q (fst ` set es)"
    by auto
  with q(2) show ?case by (intro exI [of _ "q # qs"]) auto
qed

lemma idle_count_all: "all_new es \<Longrightarrow> idle_count es = length es"
  by (induction es) (auto simp: all_new_def)

lemma wf_server_counts:
  "wf_server st es \<Longrightarrow> num_workers st = int (length es) \<and> num_idle_workers st = int (idle_count es) \<and>
     distinct (map fst es)"
  by (auto simp: wf_server_def wf_at_def)

lemma wf_server_init: "wf_server server_init []"
  by (auto simp: wf_server_def wf_at_def wf_list_def server_init_def intro!: exI [of _ "[]"])

text \<open>
  Every level adds at least one worker, so the recursion ends; the last level starts below the
  minimum and adds at most 32.
\<close>

lemma exponential_spawn_wf:
  assumes "wf_server st es" "fork_ok fork" "all_new es" "1 \<le> n"
    and "es = [] \<and> n = 1 \<or> int (length es) < minSpareServers cf"
  shows "\<exists>qs st' es'. exponential_spawn fork cf n st = Some (Inr (map Forked qs, st')) \<and> wf_server st' es' \<and>
     all_new es' \<and> fst ` set es' = set qs \<union> fst ` set es \<and>
     minSpareServers cf \<le> int (length es') \<and> 1 \<le> length es' \<and>
     int (length es') < max 2 (minSpareServers cf + 32)"
  using assms
proof (induction "nat (minSpareServers cf - int (length es))" arbitrary: es st n rule: less_induct)
  case less
  define k where "k = (if 32 < n then 32 else n)"
  have k: "1 \<le> k" "k \<le> 32" "n = 1 \<Longrightarrow> k = 1" using less.prems(4) by (auto simp: k_def)
  note unfold = exponential_spawn.simps [of fork cf n st, folded k_def]
  from spawn_loop_wf [OF less.prems(1-3), of "nat k"] obtain qs st1 es1 where
    s: "spawn_loop fork (nat k) st = Inr (map Forked qs, st1)" "wf_server st1 es1"
      "length es1 = length es + nat k" "all_new es1"
      "fst ` set es1 = set qs \<union> fst ` set es"
    by blast
  have n1: "num_idle_workers st1 = int (length es1)"
    using wf_server_counts [OF s(2)] idle_count_all [OF s(4)] by simp
  have len: "int (length es1) = int (length es) + k" using s(3) k(1) by simp
  show ?case
  proof (cases "minSpareServers cf \<le> int (length es1)")
    case True
    have "int (length es1) < max 2 (minSpareServers cf + 32)" using less.prems(5) len k by auto
    moreover have "1 \<le> length es1" using len k(1) by linarith
    moreover have "exponential_spawn fork cf n st = Some (Inr (map Forked qs, st1))"
      using True s(1) n1 by (simp add: unfold)
    ultimately show ?thesis using True s by blast
  next
    case False
    then have lt: "nat (minSpareServers cf - int (length es1)) < nat (minSpareServers cf - int (length es))"
      using len k(1) by linarith
    have "1 \<le> k * 2" "int (length es1) < minSpareServers cf" using k(1) False by linarith+
    from less.hyps [OF lt s(2) less.prems(2) s(4) this(1)] this(2)
    obtain qs' st' es' where "exponential_spawn fork cf (k * 2) st1 = Some (Inr (map Forked qs', st'))"
        "wf_server st' es'" "all_new es'"
        "fst ` set es' = set qs' \<union> fst ` set es1" "minSpareServers cf \<le> int (length es')"
        "1 \<le> length es'" "int (length es') < max 2 (minSpareServers cf + 32)"
      by blast
    moreover from this False s(1) n1
    have "exponential_spawn fork cf n st = Some (Inr (map Forked (qs @ qs'), st'))"
      by (simp add: unfold)
    moreover have "fst ` set es' = set (qs @ qs') \<union> fst ` set es" using calculation(4) s(5) by auto
    ultimately show ?thesis by blast
  qed
qed

section \<open>Parent and workers together\<close>

text \<open>
  \<open>procs\<close> is where each live worker is, \<open>queue\<close> the messages the parent has not read yet,
  \<open>acks\<close> how many acknowledgements wait in a worker's socket.
\<close>

record system =
  parent :: server
  procs :: "int \<Rightarrow> proc option"
  queue :: "control_msg list"
  acks :: "int \<Rightarrow> nat"

fun apply_event :: "event \<Rightarrow> system \<Rightarrow> system" where
  "apply_event (Forked p) y = y\<lparr>procs := (procs y)(p \<mapsto> Binding), acks := (acks y)(p := 0)\<rparr>"
| "apply_event (Killed p) y = y\<lparr>procs := (procs y)(p := None), acks := (acks y)(p := 0)\<rparr>"
| "apply_event (Acked p) y = y\<lparr>acks := (acks y)(p := acks y p + 1)\<rparr>"

definition boot :: "event list \<Rightarrow> server \<Rightarrow> system" where
  "boot evs st = fold apply_event evs \<lparr>parent = st, procs = Map.empty, queue = [], acks = (\<lambda>_. 0)\<rparr>"

fun takes_ack :: "bool \<Rightarrow> proc \<Rightarrow> bool" where
  "takes_ack ok (Wait_ack n) = ok"
| "takes_ack ok x = False"

text \<open>One worker takes a step, or the parent handles the oldest message.\<close>

inductive reachable :: "kernel_fork \<Rightarrow> config \<Rightarrow> system \<Rightarrow> bool" for fork cf where
  start: "exponential_spawn fork cf 1 server_init = Some (Inr (evs, st)) \<Longrightarrow> reachable fork cf (boot evs st)"
| worker: "reachable fork cf y \<Longrightarrow> procs y p = Some x \<Longrightarrow> (takes_ack ok x \<Longrightarrow> 0 < acks y p) \<Longrightarrow>
    start_worker p ok x = (x', ms) \<Longrightarrow>
    reachable fork cf (y\<lparr>procs := (procs y)(p \<mapsto> x'), queue := queue y @ ms,
      acks := (acks y)(p := (if takes_ack ok x then acks y p - 1 else acks y p))\<rparr>)"
| handle: "reachable fork cf y \<Longrightarrow> queue y = m # ms \<Longrightarrow>
    handle_control_msg fork cf m (parent y) = Inr (evs, st) \<Longrightarrow>
    reachable fork cf (fold apply_event evs (y\<lparr>parent := st, queue := ms\<rparr>))"

definition below :: "config \<Rightarrow> int \<Rightarrow> bool" where
  "below cf n \<longleftrightarrow> 0 \<le> n \<and> (1 \<le> maxRequestsPerChild cf \<longrightarrow> n < maxRequestsPerChild cf)"

abbreviation got :: "int \<Rightarrow> int \<Rightarrow> control_msg" where
  "got p n \<equiv> \<lparr>msg_type = GOT_REQUEST, msg_pid = p, msg_reqs = n\<rparr>"

abbreviation completed :: "int \<Rightarrow> int \<Rightarrow> control_msg" where
  "completed p n \<equiv> \<lparr>msg_type = COMPLETED_REQUEST, msg_pid = p, msg_reqs = n\<rparr>"

text \<open>How a worker, its unread messages and acknowledgements, and its entry in the pool agree.\<close>

fun consistent :: "config \<Rightarrow> int \<Rightarrow> proc \<Rightarrow> control_msg list \<Rightarrow> nat \<Rightarrow> int \<Rightarrow> bool \<Rightarrow> bool" where
  "consistent cf p Binding ms k r i \<longleftrightarrow> ms = [] \<and> k = 0 \<and> i \<and> r = 0"
| "consistent cf p (Accepting n) ms k r i \<longleftrightarrow> ms = [] \<and> k = 0 \<and> i \<and> r = n \<and> below cf n"
| "consistent cf p (Sending_got n) ms k r i \<longleftrightarrow> ms = [] \<and> k = 0 \<and> i \<and> r = n \<and> below cf n"
| "consistent cf p (Reading n) ms k r i \<longleftrightarrow>
     k = 0 \<and> r = n \<and> below cf n \<and> (ms = [got p n] \<and> i \<or> ms = [] \<and> \<not> i)"
| "consistent cf p (Replying n) ms k r i \<longleftrightarrow>
     k = 0 \<and> r = n \<and> below cf n \<and> (ms = [got p n] \<and> i \<or> ms = [] \<and> \<not> i)"
| "consistent cf p (Sending_completed n) ms k r i \<longleftrightarrow>
     k = 0 \<and> r = n \<and> below cf n \<and> (ms = [got p n] \<and> i \<or> ms = [] \<and> \<not> i)"
| "consistent cf p (Wait_ack n) ms k r i \<longleftrightarrow>
     below cf (n - 1) \<and>
     (k = 0 \<and> r = n - 1 \<and> (ms = [got p (n - 1), completed p n] \<and> i \<or> ms = [completed p n] \<and> \<not> i) \<or>
      k = 1 \<and> r = n \<and> ms = [] \<and> i \<and> below cf n)"
| "consistent cf p (Exited s) ms k r i \<longleftrightarrow> k = 0 \<and> below cf r \<and> (ms = [] \<or> ms = [got p r] \<and> i)"

abbreviation of_pid :: "int \<Rightarrow> control_msg list \<Rightarrow> control_msg list" where
  "of_pid p q \<equiv> filter (\<lambda>m. msg_pid m = p) q"

definition winv :: "config \<Rightarrow> entry list \<Rightarrow> (int \<Rightarrow> proc option) \<Rightarrow> control_msg list \<Rightarrow> (int \<Rightarrow> nat) \<Rightarrow> bool" where
  "winv cf es pr q ak \<longleftrightarrow>
     distinct (map fst es) \<and> (\<forall>p x. pr p = Some x \<longrightarrow> p \<in> fst ` set es) \<and> (\<forall>m \<in> set q. msg_pid m \<in> fst ` set es) \<and>
     (\<forall>p r i. (p, r, i) \<in> set es \<longrightarrow>
        0 < p \<and> (\<exists>x. pr p = Some x \<and> consistent cf p x (of_pid p q) (ak p) r i))"

lemma winvD:
  assumes "winv cf es pr q ak"
  shows "distinct (map fst es)" "pr p = Some x \<Longrightarrow> p \<in> fst ` set es" "m \<in> set q \<Longrightarrow> msg_pid m \<in> fst ` set es"
    "(p, r, i) \<in> set es \<Longrightarrow> 0 < p \<and> (\<exists>x. pr p = Some x \<and> consistent cf p x (of_pid p q) (ak p) r i)"
  using assms unfolding winv_def by blast+

lemma winvI:
  assumes "distinct (map fst es)" "\<And>p x. pr p = Some x \<Longrightarrow> p \<in> fst ` set es"
    "\<And>m. m \<in> set q \<Longrightarrow> msg_pid m \<in> fst ` set es"
    "\<And>p r i. (p, r, i) \<in> set es \<Longrightarrow> 0 < p \<and> (\<exists>x. pr p = Some x \<and> consistent cf p x (of_pid p q) (ak p) r i)"
  shows "winv cf es pr q ak"
  using assms unfolding winv_def by blast

lemma winv_fork:
  assumes inv: "winv cf es pr q ak" and p: "p \<notin> fst ` set es" "0 < p"
  shows "winv cf ((p, 0, True) # es) (pr(p \<mapsto> Binding)) q (ak(p := 0))"
proof (rule winvI)
  have nil: "of_pid p q = []" using winvD(3) [OF inv] p(1) by (auto simp: filter_empty_conv)
  fix p' r i
  assume "(p', r, i) \<in> set ((p, 0, True) # es)"
  then consider "p' = p" "r = 0" "i" | "(p', r, i) \<in> set es" "p' \<noteq> p" using p(1) by force
  then show "0 < p' \<and> (\<exists>x. (pr(p \<mapsto> Binding)) p' = Some x \<and>
      consistent cf p' x (of_pid p' q) ((ak(p := 0)) p') r i)"
    by cases (use p(2) nil winvD(4) [OF inv] in auto)
qed (use inv p in \<open>auto dest: winvD split: if_splits\<close>)

lemma fst_drop_worker: "fst ` set (drop_worker p es) = fst ` set es - {p}"
  by (auto simp: drop_worker_def)

lemma winv_kill:
  assumes inv: "winv cf es pr (m # q) ak" and m: "msg_pid m = p" and nil: "of_pid p q = []"
  shows "winv cf (drop_worker p es) (pr(p := None)) q (ak(p := 0))"
proof (rule winvI)
  show "distinct (map fst (drop_worker p es))"
    using winvD(1) [OF inv] by (simp add: drop_worker_def distinct_map_filter)
  show "msg_pid m \<in> fst ` set (drop_worker p es)" if "m \<in> set q" for m
    using winvD(3) [OF inv, of m] nil that by (auto simp: fst_drop_worker filter_empty_conv)
  show "p' \<in> fst ` set (drop_worker p es)" if "(pr(p := None)) p' = Some x" for p' x
    using that winvD(2) [OF inv] by (auto simp: fst_drop_worker split: if_splits)
  fix p' r i
  assume "(p', r, i) \<in> set (drop_worker p es)"
  then have "(p', r, i) \<in> set es" "p' \<noteq> p" by (auto simp: drop_worker_def)
  with winvD(4) [OF inv] m show "0 < p' \<and> (\<exists>x. (pr(p := None)) p' = Some x \<and>
      consistent cf p' x (of_pid p' q) ((ak(p := 0)) p') r i)"
    by fastforce
qed

lemma in_mark: "(p', r', i') \<in> set (mark p g es) \<Longrightarrow> (\<And>e. fst (g e) = fst e) \<Longrightarrow>
    (p' \<noteq> p \<and> (p', r', i') \<in> set es) \<or> (p' = p \<and> (\<exists>r i. (p, r, i) \<in> set es \<and> g (p, r, i) = (p, r', i')))"
  by (auto simp: mark_def split: if_splits) (metis fst_conv)+

lemma winv_mark:
  assumes inv: "winv cf es pr (m # q) ak" and m: "msg_pid m = p" and g: "\<And>e. fst (g e) = fst e"
    and e: "(p, r, i) \<in> set es" "g (p, r, i) = (p, r', i')" and x: "pr p = Some x"
    and c: "consistent cf p x (of_pid p q) k r' i'"
  shows "winv cf (mark p g es) pr q (ak(p := k))"
proof (rule winvI)
  have fsts: "fst ` set (mark p g es) = fst ` set es" using map_fst_mark [of g p es] g by (metis list.set_map)
  show "distinct (map fst (mark p g es))" using winvD(1) [OF inv] map_fst_mark [of g, OF g] by simp
  show "p' \<in> fst ` set (mark p g es)" if "pr p' = Some y" for p' y
    unfolding fsts using winvD(2) [OF inv that] .
  show "msg_pid m' \<in> fst ` set (mark p g es)" if "m' \<in> set q" for m'
    unfolding fsts using winvD(3) [OF inv, of m'] that by simp
  fix p' r2 i2
  assume in2: "(p', r2, i2) \<in> set (mark p g es)"
  from in_mark [OF in2 g]
  show "0 < p' \<and> (\<exists>x. pr p' = Some x \<and> consistent cf p' x (of_pid p' q) ((ak(p := k)) p') r2 i2)"
  proof
    assume "p' \<noteq> p \<and> (p', r2, i2) \<in> set es"
    with winvD(4) [OF inv, of p' r2 i2] m show ?thesis by auto
  next
    assume "p' = p \<and> (\<exists>r i. (p, r, i) \<in> set es \<and> g (p, r, i) = (p, r2, i2))"
    then obtain r0 i0 where g0: "p' = p" "(p, r0, i0) \<in> set es" "g (p, r0, i0) = (p, r2, i2)" by auto
    have "(r0, i0) = (r, i)" using eq_key_imp_eq_value [OF winvD(1) [OF inv] g0(2) e(1)] .
    with g0 e winvD(4) [OF inv e(1)] x c show ?thesis by auto
  qed
qed

lemma winv_worker:
  assumes inv: "winv cf es pr q ak" and x: "pr p = Some x" and ms: "\<forall>m \<in> set ms. msg_pid m = p"
    and c: "\<And>r i. consistent cf p x (of_pid p q) (ak p) r i \<Longrightarrow> consistent cf p x' (of_pid p q @ ms) k r i"
  shows "winv cf es (pr(p \<mapsto> x')) (q @ ms) (ak(p := k))"
proof (rule winvI)
  have new: "of_pid p ms = ms" "\<And>p'. p' \<noteq> p \<Longrightarrow> of_pid p' ms = []"
    using ms by (auto simp: filter_empty_conv)
  have p: "p \<in> fst ` set es" using winvD(2) [OF inv x] .
  show "distinct (map fst es)" by (rule winvD(1) [OF inv])
  show "p' \<in> fst ` set es" if "(pr(p \<mapsto> x')) p' = Some y" for p' y
    using that p winvD(2) [OF inv, of p'] by (auto split: if_splits)
  show "msg_pid m \<in> fst ` set es" if "m \<in> set (q @ ms)" for m
    using that p ms winvD(3) [OF inv, of m] by auto
  fix p' r i
  assume "(p', r, i) \<in> set es"
  from winvD(4) [OF inv this] show "0 < p' \<and> (\<exists>y. (pr(p \<mapsto> x')) p' = Some y \<and>
      consistent cf p' y (of_pid p' (q @ ms)) ((ak(p := k)) p') r i)"
    using x c new by (cases "p' = p") auto
qed

lemma start_worker_consistent:
  assumes "start_worker p ok x = (x', ms)" "takes_ack ok x \<Longrightarrow> 0 < k" "consistent cf p x qs k r i"
  shows "consistent cf p x' (qs @ ms) (if takes_ack ok x then k - 1 else k) r i"
    and "\<forall>m \<in> set ms. msg_pid m = p"
proof -
  show "consistent cf p x' (qs @ ms) (if takes_ack ok x then k - 1 else k) r i"
    using assms by (cases x; cases ok) (auto simp: below_def)
  show "\<forall>m \<in> set ms. msg_pid m = p"
    using assms(1) by (cases x; cases ok) auto
qed

text \<open>What the oldest message tells about its sender.\<close>

lemma winv_oldest:
  assumes inv: "winv cf es pr (m # q) ak"
  obtains (got_request) r x where "msg_type m = GOT_REQUEST" "(msg_pid m, r, True) \<in> set es"
      "pr (msg_pid m) = Some x" "consistent cf (msg_pid m) x (of_pid (msg_pid m) q) (ak (msg_pid m)) r False"
  | (completed_request) r x where "msg_type m = COMPLETED_REQUEST" "(msg_pid m, r, False) \<in> set es"
      "pr (msg_pid m) = Some x" "of_pid (msg_pid m) q = []" "ak (msg_pid m) = 0"
      "msg_reqs m \<noteq> maxRequestsPerChild cf \<Longrightarrow> consistent cf (msg_pid m) x [] 1 (msg_reqs m) True"
proof -
  obtain t p n where m: "m = \<lparr>msg_type = t, msg_pid = p, msg_reqs = n\<rparr>" by (cases m) auto
  have "p \<in> fst ` set es" using winvD(3) [OF inv, of m] m by simp
  then obtain r i where e: "(p, r, i) \<in> set es" by force
  from winvD(4) [OF inv e] obtain x where x: "pr p = Some x" "consistent cf p x (m # of_pid p q) (ak p) r i"
    using m by auto
  have "(t = GOT_REQUEST \<and> i \<and> consistent cf p x (of_pid p q) (ak p) r False) \<or>
        (t = COMPLETED_REQUEST \<and> \<not> i \<and> of_pid p q = [] \<and> ak p = 0 \<and>
           (n \<noteq> maxRequestsPerChild cf \<longrightarrow> consistent cf p x [] 1 n True))"
    using x(2) by (cases x) (auto simp: below_def m)
  with e x(1) got_request completed_request show ?thesis by (cases i) (auto simp: m)
qed

lemma winv_msg_fits: "winv cf es pr (m # q) ak \<Longrightarrow> msg_fits m es"
  by (erule winv_oldest) (auto simp: msg_fits_def)

definition within :: "config \<Rightarrow> int \<Rightarrow> bool" where
  "within cf n \<longleftrightarrow> minSpareServers cf \<le> n \<and> n \<le> max (maxSpareServers cf) (max 1 (minSpareServers cf + 31))"

lemma idle_count_drop:
  assumes "distinct (map fst es)" "(p, r, i) \<in> set es"
  shows "int (idle_count (drop_worker p es)) = int (idle_count es) - (if i then 1 else 0)"
proof -
  obtain xs ys where "es = xs @ (p, r, i) # ys" "drop_worker (fst (p, r, i)) es = xs @ ys"
    using split_pool [OF assms] by metis
  then show ?thesis by simp
qed

lemma pool_step_inv:
  assumes inv: "winv cf es pr (m # q) ak" and idle: "within cf (int (idle_count es))"
    and s: "pool_step cf f m es = Some (evs, es')" "distinct (map fst es')" "0 < f"
  shows "\<exists>y. fold apply_event evs \<lparr>parent = st, procs = pr, queue = q, acks = ak\<rparr> = y \<and>
     parent y = st \<and> queue y = q \<and> winv cf es' (procs y) q (acks y) \<and> within cf (int (idle_count es'))"
  using inv
proof (cases rule: winv_oldest)
  case (got_request r x)
  let ?p = "msg_pid m" and ?es = "mark (msg_pid m) busy es"
  have b: "fst (busy e) = fst e" "busy (?p, r, True) = (?p, r, False)" for e by (simp_all add: busy_def)
  have inv1: "winv cf ?es pr q (ak(?p := ak ?p))"
    by (rule winv_mark [OF inv refl b(1) got_request(2) b(2) got_request(3,4)])
  have n: "int (idle_count ?es) = int (idle_count es) - 1"
    using idle_count_mark [OF winvD(1) [OF inv] got_request(2), of busy] by (simp add: busy_def)
  show ?thesis
  proof (cases "int (idle_count ?es) < minSpareServers cf")
    case True
    with s(1) got_request(1) have "evs = [Forked f]" "es' = (f, 0, True) # ?es"
      by (auto simp: pool_step_def Let_def)
    with inv1 s(2,3) n idle winv_fork [of cf ?es pr q ak f] show ?thesis by (simp add: within_def)
  next
    case False
    with s(1) got_request(1) have "evs = []" "es' = ?es" by (auto simp: pool_step_def Let_def)
    with inv1 n idle False show ?thesis by (simp add: within_def)
  qed
next
  case (completed_request r x)
  let ?p = "msg_pid m" and ?g = "done_with (msg_reqs m)"
  let ?es = "mark ?p ?g es"
  have g: "fst (?g e) = fst e" "?g (?p, r, False) = (?p, msg_reqs m, True)" for e
    by (simp_all add: done_with_def)
  have n: "int (idle_count ?es) = int (idle_count es) + 1"
    using idle_count_mark [OF winvD(1) [OF inv] completed_request(2), of ?g] by (simp add: done_with_def)
  have drop: "drop_worker ?p ?es = drop_worker ?p es" by (rule drop_worker_mark) (rule g)
  have nd: "int (idle_count (drop_worker ?p es)) = int (idle_count es)"
    using idle_count_drop [OF winvD(1) [OF inv] completed_request(2)] by simp
  have killed: "winv cf (drop_worker ?p es) (pr(?p := None)) q (ak(?p := 0))"
    by (rule winv_kill [OF inv refl completed_request(4)])
  consider "maxSpareServers cf < int (idle_count ?es)" "evs = [Killed ?p]" "es' = drop_worker ?p es"
    | "\<not> maxSpareServers cf < int (idle_count ?es)" "evs = [Killed ?p, Forked f]"
        "es' = (f, 0, True) # drop_worker ?p es"
    | "\<not> maxSpareServers cf < int (idle_count ?es)" "msg_reqs m \<noteq> maxRequestsPerChild cf"
        "evs = [Acked ?p]" "es' = ?es"
    using s(1) completed_request(1) drop by (auto simp: pool_step_def Let_def split: if_splits)
  then show ?thesis
  proof cases
    case 1
    with killed nd idle show ?thesis by simp
  next
    case 2
    with winv_fork [OF killed, of f] s(2,3) n nd idle show ?thesis by (simp add: within_def)
  next
    case 3
    from completed_request(6) [OF 3(2)] completed_request(4)
    have "consistent cf ?p x (of_pid ?p q) 1 (msg_reqs m) True" by simp
    from winv_mark [OF inv refl g(1) completed_request(2) g(2) completed_request(3) this]
    show ?thesis using 3 n idle completed_request(5) by (simp add: within_def)
  qed
qed

definition sys_inv :: "config \<Rightarrow> system \<Rightarrow> entry list \<Rightarrow> bool" where
  "sys_inv cf y es \<longleftrightarrow> wf_server (parent y) es \<and> winv cf es (procs y) (queue y) (acks y) \<and>
     within cf (int (idle_count es))"

lemma boot_inv:
  assumes "exponential_spawn fork cf 1 server_init = Some (Inr (evs, st))" "fork_ok fork"
  shows "\<exists>es. sys_inv cf (boot evs st) es"
proof -
  obtain qs st' es where s: "exponential_spawn fork cf 1 server_init = Some (Inr (map Forked qs, st'))"
      "wf_server st' es" "all_new es" "fst ` set es = set qs" "minSpareServers cf \<le> int (length es)"
      "int (length es) < max 2 (minSpareServers cf + 32)"
    using exponential_spawn_wf [OF wf_server_init assms(2), of 1 cf] by auto
  have fold: "fold apply_event (map Forked qs) y =
      y\<lparr>procs := (\<lambda>p. if p \<in> set qs then Some Binding else procs y p),
        acks := (\<lambda>p. if p \<in> set qs then 0 else acks y p)\<rparr>" for y
  proof (induction qs arbitrary: y)
    case (Cons a qs)
    show ?case by (simp add: Cons) (auto simp: fun_eq_iff)
  qed simp
  have "winv cf es (\<lambda>p. if p \<in> set qs then Some Binding else None) [] (\<lambda>p. 0)"
  proof (rule winvI)
    fix p r i
    assume in_es: "(p, r, i) \<in> set es"
    then have "p \<in> set qs" using s(4) by force
    with in_es s(3) show "0 < p \<and> (\<exists>x. (if p \<in> set qs then Some Binding else None) = Some x \<and>
        consistent cf p x (of_pid p []) 0 r i)"
      by (auto simp: all_new_def)
  qed (use s(4) wf_server_counts [OF s(2)] in \<open>auto split: if_splits\<close>)
  moreover have "within cf (int (idle_count es))"
    using s(5,6) idle_count_all [OF s(3)] by (auto simp: within_def)
  moreover have "boot (map Forked qs) st =
      \<lparr>parent = st, procs = (\<lambda>p. if p \<in> set qs then Some Binding else None), queue = [], acks = (\<lambda>p. 0)\<rparr>"
    by (simp add: boot_def fold fun_eq_iff)
  ultimately show ?thesis
    using assms(1) s(1,2) by (auto simp: sys_inv_def)
qed

lemma reachable_inv:
  assumes "reachable fork cf y" and fork: "fork_ok fork"
  shows "\<exists>es. sys_inv cf y es"
  using assms(1)
proof induction
  case (start evs st)
  then show ?case by (rule boot_inv) (rule fork)
next
  case (worker y p x ok x' ms)
  then obtain es where es: "sys_inv cf y es" by blast
  have c: "consistent cf p x' (of_pid p (queue y) @ ms) (if takes_ack ok x then acks y p - 1 else acks y p) r i"
    if "consistent cf p x (of_pid p (queue y)) (acks y p) r i" for r i
    using start_worker_consistent(1) [OF worker(4) _ that] worker(3) by auto
  obtain r i where "(p, r, i) \<in> set es" using es worker(2) by (force simp: sys_inv_def dest: winvD(2))
  then have "\<forall>m \<in> set ms. msg_pid m = p"
    using es worker(2,3) start_worker_consistent(2) [OF worker(4)] winvD(4)
    by (metis sys_inv_def option.inject)
  moreover have "winv cf es (procs y) (queue y) (acks y)" using es by (simp add: sys_inv_def)
  ultimately have "winv cf es ((procs y)(p \<mapsto> x')) (queue y @ ms)
      ((acks y)(p := if takes_ack ok x then acks y p - 1 else acks y p))"
    using worker(2) by (intro winv_worker c)
  with es show ?case by (auto simp: sys_inv_def)
next
  case (handle y m ms evs st)
  then obtain es where es: "wf_server (parent y) es" "winv cf es (procs y) (m # ms) (acks y)"
      "within cf (int (idle_count es))" by (auto simp: sys_inv_def)
  obtain f where "0 < f" "refines_step (pool_step cf f m es) (handle_control_msg fork cf m (parent y))"
    using handle_control_msg_refines [OF es(1) fork winv_msg_fits [OF es(2)]] by blast
  with handle(3) obtain es' where f: "0 < f" "pool_step cf f m es = Some (evs, es')" "wf_server st es'"
    by (auto simp: refines_step_def split: option.splits)
  have "distinct (map fst es')" using wf_server_counts [OF f(3)] by simp
  from pool_step_inv [OF es(2,3) f(2) this f(1), of st] f(3)
  show ?case by (cases y) (auto simp: sys_inv_def)
qed

section \<open>Properties\<close>

text \<open>
  C1: the parent's reaction to a message implements the pool specification on the linked list in the
  store: a request marks its sender busy and spawns a worker when too few are idle; a completed
  request makes it idle again, retires it when too many are idle, replaces it after
  \<open>maxRequestsPerChild\<close> requests, and otherwise allows it to read on. List, counters and process
  table stay in agreement; only the removal of the last worker dereferences NULL.
\<close>

theorem parent_refines_pool:
  assumes "wf_server st es" "fork_ok fork" "msg_fits m es"
  shows "\<exists>q > 0.
     (case pool_step cf q m es of
        None \<Rightarrow> handle_control_msg fork cf m st = Inl Null_deref
      | Some (evs, es') \<Rightarrow> \<exists>st'. handle_control_msg fork cf m st = Inr (evs, st') \<and> wf_server st' es')"
proof -
  obtain q where "0 < q" "refines_step (pool_step cf q m es) (handle_control_msg fork cf m st)"
    using handle_control_msg_refines [OF assms] by blast
  then show ?thesis
    by (intro exI [of _ q]; cases "handle_control_msg fork cf m st")
       (auto simp: refines_step_def split: option.splits)
qed

definition max_fork :: kernel_fork where
  "max_fork n ps = 1 + fold max ps 0"

lemma fold_max_ge: "(b :: int) \<le> fold max ps b \<and> (\<forall>p \<in> set ps. p \<le> fold max ps b)"
proof (induction ps arbitrary: b)
  case (Cons p ps)
  from Cons [of "max p b"] show ?case by auto
qed simp

lemma max_fork_ok: "fork_ok max_fork"
proof -
  have "0 < max_fork n ps" "max_fork n ps \<notin> set ps" for n ps
    using fold_max_ge [of 0 ps] by (auto simp: max_fork_def)
  then show ?thesis by (simp add: fork_ok_def)
qed

definition one_worker :: server where
  "one_worker = \<lparr>store = [0 \<mapsto> \<lparr>pid = 1, reqs_handled = 0, is_idle = True, to_harvest = False,
      wnext = None, wprev = None\<rparr>], fresh = 1, workers_head = Some 0, num_idle_workers = 1,
      num_workers = 1, children = [1], forked = 1\<rparr>"

lemma wf_one_worker: "wf_server one_worker [(1, 0, True)]"
  by (auto simp: wf_server_def wf_at_def wf_list_def one_worker_def view_def intro!: exI [of _ "[0]"])

theorem parent_refines_pool_witness:
  "\<exists>q > 0. \<exists>st'. handle_control_msg max_fork
       \<lparr>minSpareServers = 1, maxSpareServers = 3, maxRequestsPerChild = 10\<rparr> (got 1 0) one_worker =
       Inr ([Forked q], st') \<and> wf_server st' [(q, 0, True), (1, 0, False)]"
  using parent_refines_pool [OF wf_one_worker max_fork_ok, of "got 1 0"
      "\<lparr>minSpareServers = 1, maxSpareServers = 3, maxRequestsPerChild = 10\<rparr>"]
  by (auto simp: msg_fits_def pool_step_def mark_def busy_def)

text \<open>
  C34: start-up ends. Whatever the command line asks for, the doubling recursion of
  \<open>exponential_spawn\<close> returns, with a well-formed list of new, idle workers: at least
  \<open>MinSpareServers\<close> and at least one, and fewer than \<open>MinSpareServers + 32\<close> if that is positive.
\<close>

theorem startup_spawns_enough:
  assumes "fork_ok fork" "4 \<le> length argv"
  shows "\<exists>cf evs st es. server_main fork argv = Some (Inr (cf, evs, st)) \<and> wf_server st es \<and>
     minSpareServers cf = atoi (argv ! 1) \<and>
     num_workers st = int (length es) \<and> num_idle_workers st = int (length es) \<and>
     max 1 (minSpareServers cf) \<le> int (length es) \<and> int (length es) < max 2 (minSpareServers cf + 32)"
proof -
  let ?cf = "\<lparr>minSpareServers = atoi (argv ! 1), maxSpareServers = atoi (argv ! 2),
                  maxRequestsPerChild = atoi (argv ! 3)\<rparr>"
  obtain qs st' es where s: "exponential_spawn fork ?cf 1 server_init = Some (Inr (map Forked qs, st'))"
      "wf_server st' es" "all_new es" "minSpareServers ?cf \<le> int (length es)" "1 \<le> length es"
      "int (length es) < max 2 (minSpareServers ?cf + 32)"
    using exponential_spawn_wf [OF wf_server_init assms(1), of 1 ?cf] by auto
  have "num_workers st' = int (length es)" "num_idle_workers st' = int (length es)"
    using wf_server_counts [OF s(2)] idle_count_all [OF s(3)] by simp_all
  with s assms(2) show ?thesis by (auto simp: server_main_def)
qed

theorem startup_spawns_enough_witness:
  "\<exists>cf evs st es. server_main max_fork [''pserver'', ''5'', ''9'', ''10''] = Some (Inr (cf, evs, st)) \<and>
     wf_server st es \<and> minSpareServers cf = 5 \<and> 5 \<le> length es \<and> length es < 37"
proof -
  have "atoi ''5'' = 5" by code_simp
  then show ?thesis
    using startup_spawns_enough [OF max_fork_ok, of "[''pserver'', ''5'', ''9'', ''10'']"] by auto
qed

lemma stats_report:
  assumes "wf_server st es"
  shows "print_worker_stats st = Inr (int (length es), int (idle_count es), map (\<lambda>(p, r, i). (p, r, \<not> i)) es)"
proof -
  obtain as where as: "wf_list st as" "es = pool (store st) as"
    using assms by (auto simp: wf_server_def wf_at_def)
  then show ?thesis
    using print_workers_list [of st None as "fresh st"] wf_list_length [OF as(1)] wf_server_counts [OF assms]
    by (simp add: print_worker_stats_def wf_list_def)
qed

text \<open>
  C7: in every state the server and its workers can reach, whatever the workers' system calls do,
  the parent's list is well formed and its counters are exact, \<open>print_worker_stats\<close> reports them,
  the sender of every unread message is in the list, at least \<open>MinSpareServers\<close> workers and at most
  the start-up number or \<open>MaxSpareServers\<close> count as idle, and no worker has served
  \<open>MaxRequestsPerChild\<close> requests.
\<close>

theorem server_invariant:
  assumes "reachable fork cf y" "fork_ok fork"
  shows "\<exists>es. wf_server (parent y) es \<and>
     print_worker_stats (parent y) =
       Inr (int (length es), int (idle_count es), map (\<lambda>(p, r, i). (p, r, \<not> i)) es) \<and>
     (\<forall>m \<in> set (queue y). msg_pid m \<in> fst ` set es) \<and>
     minSpareServers cf \<le> int (idle_count es) \<and>
     int (idle_count es) \<le> max (maxSpareServers cf) (max 1 (minSpareServers cf + 31)) \<and>
     (1 \<le> maxRequestsPerChild cf \<longrightarrow> (\<forall>(p, r, i) \<in> set es. r < maxRequestsPerChild cf))"
proof -
  obtain es where es: "wf_server (parent y) es" "winv cf es (procs y) (queue y) (acks y)"
      "within cf (int (idle_count es))"
    using reachable_inv [OF assms] by (auto simp: sys_inv_def)
  note stats_report [OF es(1)]
  moreover have "r < maxRequestsPerChild cf"
    if e: "(p, r, i) \<in> set es" and "1 \<le> maxRequestsPerChild cf" for p r i
  proof -
    obtain x where "consistent cf p x (of_pid p (queue y)) (acks y p) r i" using winvD(4) [OF es(2) e] by blast
    with that(2) show ?thesis by (cases x) (auto simp: below_def)
  qed
  ultimately show ?thesis using es winvD(3) [OF es(2)] by (intro exI [of _ es]) (auto simp: within_def)
qed

theorem server_invariant_witness:
  "\<exists>evs st es. exponential_spawn max_fork \<lparr>minSpareServers = 2, maxSpareServers = 4, maxRequestsPerChild = 10\<rparr> 1
       server_init = Some (Inr (evs, st)) \<and> wf_server st es \<and> 2 \<le> int (idle_count es) \<and> int (idle_count es) \<le> 33"
proof -
  let ?cf = "\<lparr>minSpareServers = 2, maxSpareServers = 4, maxRequestsPerChild = 10\<rparr>"
  obtain evs st where s: "exponential_spawn max_fork ?cf 1 server_init = Some (Inr (evs, st))"
    using exponential_spawn_wf [OF wf_server_init max_fork_ok, of 1 ?cf] by auto
  have par: "parent (fold apply_event evs y) = parent y" for y
  proof (induction evs arbitrary: y)
    case (Cons e evs)
    then show ?case by (cases e) simp_all
  qed simp
  from server_invariant [OF reachable.start [OF s] max_fork_ok] s show ?thesis
    by (auto simp: boot_def par)
qed

text \<open>
  C14: with at least one spare server required, the parent never crashes: in every reachable state it
  handles the oldest message without dereferencing a null or freed worker.
\<close>

theorem server_never_crashes:
  assumes "reachable fork cf y" "fork_ok fork" "1 \<le> minSpareServers cf" "queue y = m # ms"
  shows "\<exists>evs st. handle_control_msg fork cf m (parent y) = Inr (evs, st)"
proof -
  obtain es where es: "wf_server (parent y) es" "winv cf es (procs y) (m # ms) (acks y)"
      "within cf (int (idle_count es))"
    using reachable_inv [OF assms(1,2)] assms(4) by (auto simp: sys_inv_def)
  obtain f where f: "refines_step (pool_step cf f m es) (handle_control_msg fork cf m (parent y))"
    using handle_control_msg_refines [OF es(1) assms(2) winv_msg_fits [OF es(2)]] by blast
  have "drop_worker (msg_pid m) (mark (msg_pid m) (done_with (msg_reqs m)) es) \<noteq> []"
    if type: "msg_type m = COMPLETED_REQUEST"
  proof -
    obtain r where r: "(msg_pid m, r, False) \<in> set es"
      using winv_msg_fits [OF es(2)] type unfolding msg_fits_def by blast
    have "int (idle_count (drop_worker (msg_pid m) es)) = int (idle_count es)"
      using idle_count_drop [OF winvD(1) [OF es(2)] r] by simp
    then have "drop_worker (msg_pid m) es \<noteq> []" using es(3) assms(3) by (auto simp: within_def)
    moreover have "fst (done_with (msg_reqs m) e) = fst e" for e by (simp add: done_with_def)
    ultimately show ?thesis by (simp add: drop_worker_mark)
  qed
  then have "pool_step cf f m es \<noteq> None" by (auto simp: pool_step_def Let_def)
  with f show ?thesis
    by (cases "handle_control_msg fork cf m (parent y)") (auto simp: refines_step_def)
qed

theorem server_never_crashes_witness:
  "\<exists>y m. reachable max_fork \<lparr>minSpareServers = 1, maxSpareServers = 4, maxRequestsPerChild = 10\<rparr> y \<and>
     queue y = [m] \<and> (\<exists>evs st. handle_control_msg max_fork
       \<lparr>minSpareServers = 1, maxSpareServers = 4, maxRequestsPerChild = 10\<rparr> m (parent y) = Inr (evs, st))"
proof -
  let ?cf = "\<lparr>minSpareServers = 1, maxSpareServers = 4, maxRequestsPerChild = 10\<rparr>"
  let ?y = "\<lambda>x. boot [Forked 1] one_worker\<lparr>procs := [1 \<mapsto> x]\<rparr>"
  have s: "exponential_spawn max_fork ?cf 1 server_init = Some (Inr ([Forked 1], one_worker))"
    by (subst exponential_spawn.simps)
       (simp add: create_new_worker_def add_worker_def server_init_def one_worker_def max_fork_def Let_def)
  have b: "boot [Forked 1] one_worker = ?y Binding" by (simp add: boot_def)
  have r0: "reachable max_fork ?cf (?y Binding)" using reachable.start [OF s] b by simp
  have r1: "reachable max_fork ?cf (?y (Accepting 0))"
    using reachable.worker [OF r0, of 1 Binding True "Accepting 0" "[]"] by (simp add: boot_def)
  have r2: "reachable max_fork ?cf (?y (Sending_got 0))"
    using reachable.worker [OF r1, of 1 "Accepting 0" True "Sending_got 0" "[]"] by (simp add: boot_def)
  have r3: "reachable max_fork ?cf ((?y (Reading 0))\<lparr>queue := [got 1 0]\<rparr>)"
    using reachable.worker [OF r2, of 1 "Sending_got 0" True "Reading 0" "[got 1 0]"] by (simp add: boot_def)
  show ?thesis
    using r3 server_never_crashes [OF r3 max_fork_ok, of "got 1 0" "[]"]
    by (intro exI [of _ "(?y (Reading 0))\<lparr>queue := [got 1 0]\<rparr>"] exI [of _ "got 1 0"]) simp
qed

text \<open>
  When the list holds a single worker and that worker has to go, because no idle server is allowed
  or because it has served its last request, \<open>remove_worker\<close> crashes on \<open>head->prev\<close> after it has
  set \<open>head\<close> to NULL.
\<close>

theorem retiring_only_worker_crashes:
  assumes "wf_server st [(p, r, False)]" "fork_ok fork" "msg_type m = COMPLETED_REQUEST" "msg_pid m = p"
    and "maxSpareServers cf < 1 \<or> msg_reqs m = maxRequestsPerChild cf"
  shows "handle_control_msg fork cf m st = Inl Null_deref"
proof -
  have "msg_fits m [(p, r, False)]" using assms(3,4) by (simp add: msg_fits_def)
  from handle_control_msg_refines [OF assms(1,2) this]
  obtain q where "refines_step (pool_step cf q m [(p, r, False)]) (handle_control_msg fork cf m st)" by blast
  moreover have "pool_step cf q m [(p, r, False)] = None"
    using assms(3-5) by (auto simp: pool_step_def mark_def done_with_def drop_worker_def)
  ultimately show ?thesis by (simp add: refines_step_def)
qed

theorem retiring_only_worker_crashes_witness:
  "\<exists>st. handle_control_msg max_fork \<lparr>minSpareServers = 0, maxSpareServers = 1, maxRequestsPerChild = 1\<rparr>
       (got 1 0) one_worker = Inr ([], st) \<and>
     handle_control_msg max_fork \<lparr>minSpareServers = 0, maxSpareServers = 1, maxRequestsPerChild = 1\<rparr>
       (completed 1 1) st = Inl Null_deref"
proof -
  let ?cf = "\<lparr>minSpareServers = 0, maxSpareServers = 1, maxRequestsPerChild = 1\<rparr>"
  have "msg_fits (got 1 0) [(1, 0, True)]" by (simp add: msg_fits_def)
  from handle_control_msg_refines [OF wf_one_worker max_fork_ok this, of ?cf]
  obtain st where st: "handle_control_msg max_fork ?cf (got 1 0) one_worker = Inr ([], st)"
      "wf_server st [(1, 0, False)]"
    by (auto simp: refines_step_def pool_step_def mark_def busy_def split: sum.splits)
  with retiring_only_worker_crashes [OF st(2) max_fork_ok, of "completed 1 1" ?cf] show ?thesis by simp
qed

section \<open>Socket addresses\<close>

text \<open>Workers with different pids have different addresses, so an acknowledgement reaches its worker.\<close>

lemma show_int_no_NUL: "c \<in> set (show_int v) \<Longrightarrow> c \<noteq> NUL"
proof -
  have "c \<noteq> NUL" if "c \<in> set (show_nat n)" for c n
    using that show_nat_digits [of n] isdigit_neq(6) [of c] by blast
  moreover assume "c \<in> set (show_int v)"
  ultimately show ?thesis by (auto simp: show_int_def split: if_splits)
qed

lemma get_worker_sock_addr_inj:
  assumes "get_worker_sock_addr p = Inr a" "get_worker_sock_addr q = Inr a" "in_int p" "in_int q"
  shows "p = q"
proof -
  let ?name = "\<lambda>p. ''childsock_'' @ show_int p"
  have name: "takeWhile (\<lambda>c. c \<noteq> NUL) (tl a) = ?name r"
    if "get_worker_sock_addr r = Inr a" for r
  proof -
    from that have "tl a = ?name r @ replicate (107 - length (?name r)) NUL"
      by (auto simp: get_worker_sock_addr_def rbind_Inr_iff)
    moreover have "c \<noteq> NUL" if "c \<in> set (?name r)" for c using that show_int_no_NUL by auto
    then have "takeWhile (\<lambda>c. c \<noteq> NUL) (?name r @ ys) = ?name r @ takeWhile (\<lambda>c. c \<noteq> NUL) ys" for ys
      by (rule takeWhile_append2)
    moreover have "takeWhile (\<lambda>c. c \<noteq> NUL) (replicate k NUL) = ''''" for k by (cases k) simp_all
    ultimately show ?thesis by (simp only: append_Nil2)
  qed
  have "?name p = ?name q" using trans [OF name [OF assms(1), symmetric] name [OF assms(2)]] .
  then have "show_int p = show_int q" by (simp only: same_append_eq)
  then have "atoi (show_int p) = atoi (show_int q)" by (rule arg_cong)
  then show ?thesis by (simp only: atoi_show_int [OF assms(3)] atoi_show_int [OF assms(4)])
qed

section \<open>Signals\<close>

text \<open>
  \<open>sigquit_handler\<close>: what it removes, whether it closes the TCP socket, what it prints and the status it
  exits with. It ends the process it is delivered to and sends nothing to the workers.
\<close>

record quit_effects =
  unlinked :: "string option"
  closes_tcp :: bool
  prints :: string
  exit_status :: nat

definition sigquit_handler :: "bool \<Rightarrow> int \<Rightarrow> quit_effects" where
  "sigquit_handler is_worker p =
     (if \<not> is_worker then
        \<lparr>unlinked = Some ''preforkserver1.sock'', closes_tcp = True,
         prints = ''Unlinked local socket.'' @ [NL] @ ''Closing TCP socket...'' @ [NL] @ ''TCP socket closed.'' @ [NL],
         exit_status = 0\<rparr>
      else
        \<lparr>unlinked = None, closes_tcp = False, prints = ''Child '' @ show_int p @ '' exited.'' @ [NL], exit_status = 0\<rparr>)"

definition stats_text :: "int \<times> int \<times> (int \<times> int \<times> bool) list \<Rightarrow> string" where
  "stats_text s =
     (case s of (n, idle, ls) \<Rightarrow>
        [NL] @ show_int n @ '' worker processes are running, '' @ show_int idle @ '' are idle'' @ [NL] @
        concat (map (\<lambda>(p, r, busy).
          ''Worker pid = '' @ show_int p @ '' | clients_handled = '' @ show_int r @ '' | active = '' @
          (if busy then ''1'' else ''0'') @ [NL]) ls))"

definition sigint_handler :: "bool \<Rightarrow> server \<Rightarrow> string res" where
  "sigint_handler is_worker st =
     (if \<not> is_worker then rbind (print_worker_stats st) (\<lambda>s. Inr (stats_text s)) else Inr [])"

text \<open>\<open>SIGINT\<close> never faults the parent between two of its steps: it prints the pool it keeps.\<close>

lemma sigint_prints_pool:
  assumes "reachable fork cf y" "fork_ok fork"
  shows "\<exists>es. wf_server (parent y) es \<and> sigint_handler False (parent y) =
     Inr (stats_text (int (length es), int (idle_count es), map (\<lambda>(p, r, i). (p, r, \<not> i)) es))"
proof -
  obtain es where "wf_server (parent y) es" using reachable_inv [OF assms] by (auto simp: sys_inv_def)
  from stats_report [OF this] this show ?thesis by (auto simp: sigint_handler_def)
qed

end
