(* ===== verification/Rtt_Map.thy ===== *)
theory Rtt_Map
  imports Assoc_Store
begin

text \<open>
  The hash table of the RTT prober, \<open>assignment-2/q1/hash_map.c\<close>: chains of nodes keyed by the text
  of an IP address, found by the hash \<open>djb2Hash\<close>. A failing \<open>calloc\<close> that the code reports by a
  return value is the argument \<open>alloc\<close> being \<open>False\<close>. The functions share their names with those of
  the shell's table and carry the prefix \<open>ip_\<close> here.
\<close>

section \<open>The hash\<close>

text \<open>
  \<open>hash\<close> is an \<open>unsigned long\<close>; \<open>map_size\<close> is converted to it before each remainder. Only
  letters and digits are hashed.
\<close>

definition djb2_step :: "64 word \<Rightarrow> 64 word \<Rightarrow> char \<Rightarrow> 64 word" where
  "djb2_step n hash c =
     (if isalnum c then ((push_bit 5 hash mod n + hash) mod n + word_of_nat (code c)) mod n else hash)"

fun djb2_loop :: "64 word \<Rightarrow> 64 word \<Rightarrow> string \<Rightarrow> 64 word" where
  "djb2_loop n hash [] = hash"
| "djb2_loop n hash (c # cs) = djb2_loop n (djb2_step n hash c) cs"

definition djb2Hash :: "string \<Rightarrow> nat \<Rightarrow> nat" where
  "djb2Hash str map_size = unat (djb2_loop (word_of_nat map_size) 5381 str mod word_of_nat map_size)"

section \<open>Data and operations\<close>

record 'v ip_node =
  ip :: string
  ip_data :: 'v

record 'v ip_bucket =
  ip_head :: "'v ip_node list"
  ip_capacity :: nat

record 'v ip_map =
  ip_buckets :: "'v ip_bucket list"
  ip_map_size :: nat

definition ip_init_map :: "bool \<Rightarrow> nat \<Rightarrow> 'v ip_map option" where
  "ip_init_map alloc map_size =
     (if alloc then Some \<lparr>ip_buckets = replicate map_size \<lparr>ip_head = [], ip_capacity = 0\<rparr>, ip_map_size = map_size\<rparr>
      else None)"

definition ip_insert_into_bucket ::
  "bool \<Rightarrow> 'v ip_bucket \<Rightarrow> string \<Rightarrow> 'v \<Rightarrow> int \<times> 'v ip_bucket" where
  "ip_insert_into_bucket alloc b a d =
     (if \<not> alloc then (-1, b)
      else (0, b\<lparr>ip_head := \<lparr>ip = a, ip_data = d\<rparr> # ip_head b, ip_capacity := ip_capacity b + 1\<rparr>))"

fun ip_find_in_nodes :: "'v ip_node list \<Rightarrow> string \<Rightarrow> 'v option" where
  "ip_find_in_nodes [] to_find = None"
| "ip_find_in_nodes (n # ns) to_find = (if to_find = ip n then Some (ip_data n) else ip_find_in_nodes ns to_find)"

definition ip_find_in_bucket :: "'v ip_bucket \<Rightarrow> string \<Rightarrow> 'v option" where
  "ip_find_in_bucket b to_find = (if ip_capacity b = 0 then None else ip_find_in_nodes (ip_head b) to_find)"

definition ip_bucket_at :: "'v ip_map \<Rightarrow> nat \<Rightarrow> 'v ip_bucket res" where
  "ip_bucket_at m i = (if i < length (ip_buckets m) then Inr (ip_buckets m ! i) else Inl Out_of_bounds)"

definition ip_find_in_map :: "'v ip_map \<Rightarrow> string \<Rightarrow> 'v option res" where
  "ip_find_in_map m to_find =
     (if ip_map_size m = 0 then Inl Division_by_zero
      else rbind (ip_bucket_at m (djb2Hash to_find (ip_map_size m))) (\<lambda>b. Inr (ip_find_in_bucket b to_find)))"

definition ip_insert_into_map :: "bool \<Rightarrow> 'v ip_map \<Rightarrow> string \<Rightarrow> 'v \<Rightarrow> (int \<times> 'v ip_map) res" where
  "ip_insert_into_map alloc m a d =
     rbind (ip_find_in_map m a) (\<lambda>found.
     if found \<noteq> None then Inr (-2, m)
     else
       let bucket_idx = djb2Hash a (ip_map_size m) in
       rbind (ip_bucket_at m bucket_idx) (\<lambda>b.
       let (res, b') = ip_insert_into_bucket alloc b a d in
       Inr (res, m\<lparr>ip_buckets := (ip_buckets m)[bucket_idx := b']\<rparr>)))"

text \<open>The nodes \<open>deallocate_map_node\<close> frees, from the last one to the first.\<close>

fun ip_deallocate_map_node :: "'v ip_node list \<Rightarrow> 'v ip_node list res" where
  "ip_deallocate_map_node [] = Inl Null_deref"
| "ip_deallocate_map_node [n] = Inr [n]"
| "ip_deallocate_map_node (n # ns) = rbind (ip_deallocate_map_node ns) (\<lambda>fs. Inr (fs @ [n]))"

definition ip_deallocate_map_bucket :: "'v ip_bucket \<Rightarrow> 'v ip_node list res" where
  "ip_deallocate_map_bucket b = (if ip_capacity b \<noteq> 0 then ip_deallocate_map_node (ip_head b) else Inr [])"

fun ip_deallocate_buckets :: "'v ip_bucket list \<Rightarrow> 'v ip_node list res" where
  "ip_deallocate_buckets [] = Inr []"
| "ip_deallocate_buckets (b # bs) =
     rbind (ip_deallocate_map_bucket b) (\<lambda>fs. rbind (ip_deallocate_buckets bs) (\<lambda>gs. Inr (fs @ gs)))"

definition ip_delete_map :: "'v ip_map \<Rightarrow> 'v ip_node list res" where
  "ip_delete_map m = ip_deallocate_buckets (ip_buckets m)"

section \<open>The hash does not overflow\<close>

definition djb2_spec :: "nat \<Rightarrow> string \<Rightarrow> nat" where
  "djb2_spec n s = fold (\<lambda>c h. (33 * h + code c) mod n) (filter isalnum s) 5381 mod n"

lemma code_less: "code c < 256"
  by (simp add: code_def of_char_def)

lemma djb2_step_unat:
  assumes "0 < n" "n < 2 ^ 31" "unat h < 2 ^ 31"
  shows "unat (djb2_step (word_of_nat n) h c) = (if isalnum c then (33 * unat h + code c) mod n else unat h)"
proof -
  have n: "unat (word_of_nat n :: 64 word) = n"
    using assms(2) by (simp add: unat_of_nat take_bit_nat_eq_self)
  have c: "unat (word_of_nat (code c) :: 64 word) = code c"
    using code_less [of c] by (simp add: unat_of_nat take_bit_nat_eq_self)
  have push: "unat (push_bit 5 h) = 32 * unat h"
    using assms(3) by (simp add: push_bit_eq_mult unat_word_ariths)
  have small: "x mod n < 2 ^ 31" for x using assms(1,2) by (meson mod_less_divisor order.strict_trans)
  have s1: "unat (push_bit 5 h mod word_of_nat n + h) = 32 * unat h mod n + unat h"
    using small [of "32 * unat h"] assms(3) n push by (simp add: unat_word_ariths unat_mod_distrib)
  have s2: "unat ((push_bit 5 h mod word_of_nat n + h) mod word_of_nat n + word_of_nat (code c)) =
      (32 * unat h mod n + unat h) mod n + code c"
    using small [of "32 * unat h mod n + unat h"] code_less [of c] n c s1
    by (simp add: unat_word_ariths unat_mod_distrib)
  show ?thesis
    using s2 n by (simp add: djb2_step_def unat_mod_distrib mod_simps add.commute)
qed

lemma djb2_loop_unat:
  assumes "0 < n" "n < 2 ^ 31" "unat h < 2 ^ 31"
  shows "unat (djb2_loop (word_of_nat n) h s) = fold (\<lambda>c h. (33 * h + code c) mod n) (filter isalnum s) (unat h)"
  using assms(3)
proof (induction s arbitrary: h)
  case Nil
  then show ?case by simp
next
  case (Cons c s)
  have step: "unat (djb2_step (word_of_nat n) h c) = (if isalnum c then (33 * unat h + code c) mod n else unat h)"
    by (rule djb2_step_unat [OF assms(1,2) Cons.prems])
  moreover have "(33 * unat h + code c) mod n < 2 ^ 31"
    using assms(1,2) by (meson mod_less_divisor order.strict_trans)
  ultimately have "unat (djb2_step (word_of_nat n) h c) < 2 ^ 31" using Cons.prems by simp
  from Cons.IH [OF this] step show ?case by simp
qed

lemma djb2Hash_spec:
  assumes "0 < n" "n < 2 ^ 31"
  shows "djb2Hash s n = djb2_spec n s"
proof -
  have "unat (word_of_nat n :: 64 word) = n"
    using assms(2) by (simp add: unat_of_nat take_bit_nat_eq_self)
  moreover have "unat (5381 :: 64 word) = 5381" by simp
  ultimately show ?thesis
    using djb2_loop_unat [OF assms, of 5381 s]
    by (simp add: djb2Hash_def djb2_spec_def unat_mod_distrib)
qed

lemma djb2Hash_less: "0 < n \<Longrightarrow> n < 2 ^ 31 \<Longrightarrow> djb2Hash s n < n"
  by (simp add: djb2Hash_spec djb2_spec_def)

section \<open>The table as a finite map\<close>

definition wf_ip_bucket :: "nat \<Rightarrow> nat \<Rightarrow> 'v ip_bucket \<Rightarrow> bool" where
  "wf_ip_bucket n i b \<longleftrightarrow>
     ip_capacity b = length (ip_head b) \<and> distinct (map ip (ip_head b)) \<and>
     (\<forall>x \<in> set (ip_head b). djb2Hash (ip x) n = i)"

definition wf_ip_map :: "'v ip_map \<Rightarrow> bool" where
  "wf_ip_map m \<longleftrightarrow> 0 < ip_map_size m \<and> ip_map_size m < 2 ^ 31 \<and> length (ip_buckets m) = ip_map_size m \<and>
     (\<forall>i < length (ip_buckets m). wf_ip_bucket (ip_map_size m) i (ip_buckets m ! i))"

definition ip_alpha :: "'v ip_map \<Rightarrow> string \<Rightarrow> 'v option" where
  "ip_alpha m a = ip_find_in_nodes (ip_head (ip_buckets m ! djb2Hash a (ip_map_size m))) a"

lemma ip_find_in_nodes_None: "ip_find_in_nodes ns a = None \<longleftrightarrow> a \<notin> ip ` set ns"
  by (induction ns) auto

lemma wf_ip_map_bucket:
  assumes "wf_ip_map m"
  shows "djb2Hash a (ip_map_size m) < length (ip_buckets m)"
    and "ip_bucket_at m (djb2Hash a (ip_map_size m)) = Inr (ip_buckets m ! djb2Hash a (ip_map_size m))"
    and "wf_ip_bucket (ip_map_size m) (djb2Hash a (ip_map_size m)) (ip_buckets m ! djb2Hash a (ip_map_size m))"
  using assms djb2Hash_less [of "ip_map_size m" a] by (simp_all add: wf_ip_map_def ip_bucket_at_def)

lemma wf_ip_init: "0 < n \<Longrightarrow> n < 2 ^ 31 \<Longrightarrow> ip_init_map True n = Some m \<Longrightarrow> wf_ip_map m \<and> ip_alpha m a = None"
  using djb2Hash_less [of n a] by (auto simp: ip_init_map_def wf_ip_map_def wf_ip_bucket_def ip_alpha_def)

lemma ip_find_alpha:
  assumes "wf_ip_map m"
  shows "ip_find_in_map m a = Inr (ip_alpha m a)"
  using wf_ip_map_bucket [OF assms, of a] assms
  by (auto simp: ip_find_in_map_def ip_alpha_def ip_find_in_bucket_def wf_ip_map_def wf_ip_bucket_def)

lemma ip_insert_fresh:
  assumes wf: "wf_ip_map m" and none: "ip_alpha m a = None"
  shows "\<exists>m'. ip_insert_into_map True m a d = Inr (0, m') \<and> wf_ip_map m' \<and> ip_alpha m' = (ip_alpha m)(a \<mapsto> d)"
proof -
  let ?h = "\<lambda>a. djb2Hash a (ip_map_size m)"
  let ?b = "ip_buckets m ! ?h a"
  let ?b' = "?b\<lparr>ip_head := \<lparr>ip = a, ip_data = d\<rparr> # ip_head ?b, ip_capacity := ip_capacity ?b + 1\<rparr>"
  let ?m' = "m\<lparr>ip_buckets := (ip_buckets m)[?h a := ?b']\<rparr>"
  note b = wf_ip_map_bucket [OF wf, of a]
  have "a \<notin> ip ` set (ip_head ?b)" using none by (simp add: ip_alpha_def ip_find_in_nodes_None)
  with b(3) have "wf_ip_bucket (ip_map_size m) (?h a) ?b'" by (auto simp: wf_ip_bucket_def)
  then have "wf_ip_bucket (ip_map_size m) i ((ip_buckets m)[?h a := ?b'] ! i)" if "i < length (ip_buckets m)" for i
    using that wf by (cases "i = ?h a") (simp_all add: wf_ip_map_def)
  with wf have "wf_ip_map ?m'" by (simp add: wf_ip_map_def)
  moreover have "ip_alpha ?m' = (ip_alpha m)(a \<mapsto> d)"
  proof (rule ext)
    fix a'
    show "ip_alpha ?m' a' = ((ip_alpha m)(a \<mapsto> d)) a'"
      using b(1) by (cases "?h a' = ?h a") (auto simp: ip_alpha_def nth_list_update)
  qed
  moreover have "ip_insert_into_map True m a d = Inr (0, ?m')"
    using b(2) none by (simp add: ip_insert_into_map_def ip_find_alpha [OF wf] ip_insert_into_bucket_def Let_def)
  ultimately show ?thesis by blast
qed

lemma ip_insert_present:
  "wf_ip_map m \<Longrightarrow> ip_alpha m a \<noteq> None \<Longrightarrow> ip_insert_into_map alloc m a d = Inr (-2, m)"
  by (simp add: ip_insert_into_map_def ip_find_alpha)

text \<open>The table as the host table of the prober: a refused insertion is an error of the contract.\<close>

definition ip_insert_ok :: "'v ip_map \<Rightarrow> string \<Rightarrow> 'v \<Rightarrow> 'v ip_map res" where
  "ip_insert_ok m a d =
     rbind (ip_insert_into_map True m a d) (\<lambda>(r, m'). if r = 0 then Inr m' else Inl (Exit_failure ''duplicate''))"

interpretation hosts: assoc_store wf_ip_map "\<lambda>_. True" ip_alpha ip_find_in_map ip_insert_ok
proof (unfold_locales, goal_cases)
  case (1 m k)
  then show ?case by (simp add: ip_find_alpha)
next
  case (2 m k v)
  then show ?case using ip_insert_fresh [of m k v] by (auto simp: ip_insert_ok_def)
next
  case (3 m k v)
  then show ?case by (simp add: ip_insert_ok_def ip_insert_present)
qed

text \<open>All nodes of a well-formed table, and what \<open>delete_map\<close> frees.\<close>

definition ip_nodes :: "'v ip_map \<Rightarrow> 'v ip_node list" where
  "ip_nodes m = concat (map ip_head (ip_buckets m))"

lemma ip_deallocate_map_node_all: "ns \<noteq> [] \<Longrightarrow> ip_deallocate_map_node ns = Inr (rev ns)"
  by (induction ns rule: ip_deallocate_map_node.induct) auto

lemma ip_deallocate_buckets_all:
  "\<forall>b \<in> set bs. ip_capacity b = length (ip_head b) \<Longrightarrow>
     ip_deallocate_buckets bs = Inr (concat (map (rev \<circ> ip_head) bs))"
proof (induction bs)
  case (Cons b bs)
  then have "ip_deallocate_map_bucket b = Inr (rev (ip_head b))"
    by (auto simp: ip_deallocate_map_bucket_def ip_deallocate_map_node_all)
  with Cons show ?case by simp
qed simp

lemma ip_delete_map_all:
  assumes "wf_ip_map m"
  shows "\<exists>fs. ip_delete_map m = Inr fs \<and> length fs = length (ip_nodes m) \<and> set fs = set (ip_nodes m)"
proof -
  have "\<forall>b \<in> set (ip_buckets m). ip_capacity b = length (ip_head b)"
    using assms by (auto simp: wf_ip_map_def wf_ip_bucket_def in_set_conv_nth)
  from ip_deallocate_buckets_all [OF this] show ?thesis
    by (auto simp: ip_delete_map_def ip_nodes_def length_concat comp_def)
qed

section \<open>Properties\<close>

text \<open>
  The 64-bit arithmetic of \<open>djb2Hash\<close> computes the Bernstein hash modulo the table size: for every
  table size that fits an \<open>int\<close>, no intermediate value wraps around, and the result is the fold of
  \<open>33 * h + c\<close> over the letters and digits of the string, reduced at every step.
\<close>

theorem djb2Hash_is_bernstein:
  assumes "0 < n" "n < 2 ^ 31"
  shows "djb2Hash s n = fold (\<lambda>c h. (33 * h + code c) mod n) (filter isalnum s) 5381 mod n"
  using djb2Hash_spec [OF assms, of s] by (simp only: djb2_spec_def)

theorem djb2Hash_is_bernstein_witness:
  "djb2Hash ''a.1'' 7919 = ((33 * ((33 * 5381 + 97) mod 7919) + 49) mod 7919) mod 7919"
  using djb2Hash_is_bernstein [of 7919 "''a.1''"] by (simp add: isalnum_def isdigit_def code_def)

text \<open>The insertions of the prober's start-up, with the codes they return.\<close>

fun ip_insert_all :: "'v ip_map \<Rightarrow> (string \<times> 'v) list \<Rightarrow> (int list \<times> 'v ip_map) res" where
  "ip_insert_all m [] = Inr ([], m)"
| "ip_insert_all m ((a, d) # ads) =
     rbind (ip_insert_into_map True m a d) (\<lambda>(r, m').
     rbind (ip_insert_all m' ads) (\<lambda>(rs, m''). Inr (r # rs, m'')))"

text \<open>The codes: -2 for an address seen before, 0 otherwise.\<close>

fun insert_codes :: "string list \<Rightarrow> string list \<Rightarrow> int list" where
  "insert_codes seen [] = []"
| "insert_codes seen (a # as) = (if a \<in> set seen then -2 else 0) # insert_codes (a # seen) as"

lemma ip_insert_all_wf:
  "wf_ip_map m \<Longrightarrow> dom (ip_alpha m) = set seen \<Longrightarrow>
     \<exists>m'. ip_insert_all m ads = Inr (insert_codes seen (map fst ads), m') \<and> wf_ip_map m' \<and>
       ip_alpha m' = map_of ads ++ ip_alpha m"
proof (induction ads arbitrary: m seen)
  case Nil
  then show ?case by simp
next
  case (Cons ad ads)
  obtain a d where ad: "ad = (a, d)" by (cases ad)
  show ?case
  proof (cases "a \<in> set seen")
    case True
    then obtain v where v: "ip_alpha m a = Some v" using Cons.prems(2) by auto
    have "dom (ip_alpha m) = set (a # seen)" using Cons.prems(2) True by auto
    from Cons.IH [OF Cons.prems(1) this] obtain m' where
      "ip_insert_all m ads = Inr (insert_codes (a # seen) (map fst ads), m')" "wf_ip_map m'"
      "ip_alpha m' = map_of ads ++ ip_alpha m" by blast
    moreover have "map_of ads ++ ip_alpha m = map_of (ad # ads) ++ ip_alpha m"
      using v by (auto simp: ad map_add_def fun_eq_iff split: option.splits)
    ultimately have "ip_insert_all m ads = Inr (insert_codes (a # seen) (map fst ads), m')" "wf_ip_map m'"
      "ip_alpha m' = map_of (ad # ads) ++ ip_alpha m" by simp_all
    with True v Cons.prems(1) show ?thesis
      by (intro exI [of _ m'] conjI) (simp_all only: ad ip_insert_all.simps ip_insert_present option.distinct
          insert_codes.simps list.map fst_conv rbind_simps prod.case not_False_eq_True if_True simp_thms)
  next
    case False
    then have "ip_alpha m a = None" using Cons.prems(2) by blast
    from ip_insert_fresh [OF Cons.prems(1) this, of d] obtain m1 where
      m1: "ip_insert_into_map True m a d = Inr (0, m1)" "wf_ip_map m1" "ip_alpha m1 = (ip_alpha m)(a \<mapsto> d)" by blast
    have "dom (ip_alpha m1) = set (a # seen)" using m1(3) Cons.prems(2) by simp
    from Cons.IH [OF m1(2) this] obtain m' where
      "ip_insert_all m1 ads = Inr (insert_codes (a # seen) (map fst ads), m')" "wf_ip_map m'"
      "ip_alpha m' = map_of ads ++ ip_alpha m1" by blast
    moreover have "map_of ads ++ ip_alpha m1 = map_of (ad # ads) ++ ip_alpha m"
      using \<open>ip_alpha m a = None\<close> by (auto simp: ad m1(3) map_add_def fun_eq_iff split: option.splits)
    ultimately have "ip_insert_all m1 ads = Inr (insert_codes (a # seen) (map fst ads), m')" "wf_ip_map m'"
      "ip_alpha m' = map_of (ad # ads) ++ ip_alpha m" by simp_all
    with False m1(1) show ?thesis
      by (intro exI [of _ m'] conjI) (simp_all only: ad ip_insert_all.simps
          insert_codes.simps list.map fst_conv rbind_simps prod.case if_False)
  qed
qed

lemma ip_nodes_bucket: "i < length (ip_buckets m) \<Longrightarrow> set (ip_head (ip_buckets m ! i)) \<subseteq> set (ip_nodes m)"
  using nth_mem [of i "ip_buckets m"] by (fastforce simp: ip_nodes_def)

lemma ip_alpha_dom: "a \<in> dom (ip_alpha m) \<longleftrightarrow> a \<in> ip ` set (ip_head (ip_buckets m ! djb2Hash a (ip_map_size m)))"
  using ip_find_in_nodes_None [of "ip_head (ip_buckets m ! djb2Hash a (ip_map_size m))" a]
  by (simp add: ip_alpha_def domIff)

lemma dom_ip_alpha:
  assumes "wf_ip_map m"
  shows "dom (ip_alpha m) = ip ` set (ip_nodes m)" and "distinct (map ip (ip_nodes m))"
proof -
  have b: "wf_ip_bucket (ip_map_size m) i (ip_buckets m ! i)" if "i < length (ip_buckets m)" for i
    using assms that by (simp add: wf_ip_map_def)
  show "dom (ip_alpha m) = ip ` set (ip_nodes m)"
  proof (intro equalityI subsetI)
    fix a
    assume "a \<in> dom (ip_alpha m)"
    then show "a \<in> ip ` set (ip_nodes m)"
      using ip_nodes_bucket [OF wf_ip_map_bucket(1) [OF assms, of a]] by (auto simp: ip_alpha_dom)
  next
    fix a
    assume "a \<in> ip ` set (ip_nodes m)"
    then obtain x c where x: "c \<in> set (ip_buckets m)" "x \<in> set (ip_head c)" "a = ip x"
      by (auto simp: ip_nodes_def)
    from x(1) obtain i where "i < length (ip_buckets m)" "c = ip_buckets m ! i" by (auto simp: in_set_conv_nth)
    with x have i: "i < length (ip_buckets m)" "x \<in> set (ip_head (ip_buckets m ! i))" "a = ip x" by simp_all
    with b [OF i(1)] have "djb2Hash a (ip_map_size m) = i" by (simp add: wf_ip_bucket_def)
    with i show "a \<in> dom (ip_alpha m)" by (auto simp: ip_alpha_dom)
  qed
  have "distinct (concat (map (\<lambda>b. map ip (ip_head b)) bs))"
    if "\<forall>i < length bs. wf_ip_bucket (ip_map_size m) (k + i) (bs ! i)" for bs k
    using that
  proof (induction bs arbitrary: k)
    case (Cons c bs)
    have "\<forall>i < length bs. wf_ip_bucket (ip_map_size m) (Suc k + i) (bs ! i)"
    proof (intro allI impI)
      fix i
      assume "i < length bs"
      with Cons.prems [THEN spec, of "Suc i"] show "wf_ip_bucket (ip_map_size m) (Suc k + i) (bs ! i)" by simp
    qed
    note tail = this
    have "wf_ip_bucket (ip_map_size m) k c" using Cons.prems [THEN spec, of 0] by simp
    moreover have "djb2Hash a (ip_map_size m) \<noteq> k" if "a \<in> set (concat (map (\<lambda>b. map ip (ip_head b)) bs))" for a
    proof -
      from that obtain c x where c: "c \<in> set bs" "x \<in> set (ip_head c)" "a = ip x" by auto
      from c(1) obtain i where "i < length bs" "c = bs ! i" by (auto simp: in_set_conv_nth)
      with tail c have "djb2Hash a (ip_map_size m) = Suc k + i" by (simp add: wf_ip_bucket_def)
      then show ?thesis by simp
    qed
    ultimately have "distinct (map ip (ip_head c))"
        "set (map ip (ip_head c)) \<inter> set (concat (map (\<lambda>b. map ip (ip_head b)) bs)) = {}"
      by (auto simp: wf_ip_bucket_def)
    with Cons.IH [OF tail] show ?case by (simp only: list.map concat.simps distinct_append simp_thms)
  qed simp
  from this [of "ip_buckets m" 0] b show "distinct (map ip (ip_nodes m))"
    by (simp add: ip_nodes_def map_concat comp_def)
qed

text \<open>
  C36: the host table keeps one entry per address. Inserting any list of addresses into a fresh table
  returns 0 for the first occurrence of an address and -2 for every later one; afterwards every address
  is found with the value of its first occurrence, and \<open>delete_map\<close> frees exactly one node per address.
\<close>

theorem host_table_keeps_first:
  assumes "0 < n" "n < 2 ^ 31" "ip_init_map True n = Some m0"
  shows "\<exists>m fs. ip_insert_all m0 ads = Inr (insert_codes [] (map fst ads), m) \<and>
     (\<forall>a. ip_find_in_map m a = Inr (map_of ads a)) \<and>
     ip_delete_map m = Inr fs \<and> ip ` set fs = fst ` set ads \<and> length fs = card (fst ` set ads)"
proof -
  have "wf_ip_map m0" and none: "\<And>a. ip_alpha m0 a = None" using wf_ip_init [OF assms] by auto
  moreover from none have "dom (ip_alpha m0) = set []" by auto
  ultimately obtain m where m: "ip_insert_all m0 ads = Inr (insert_codes [] (map fst ads), m)" "wf_ip_map m"
      "ip_alpha m = map_of ads ++ ip_alpha m0"
    using ip_insert_all_wf by blast
  have "ip_alpha m0 = Map.empty" using none by auto
  with m(3) have alpha: "ip_alpha m = map_of ads" by simp
  obtain fs where fs: "ip_delete_map m = Inr fs" "length fs = length (ip_nodes m)" "set fs = set (ip_nodes m)"
    using ip_delete_map_all [OF m(2)] by blast
  have "ip ` set (ip_nodes m) = fst ` set ads" using dom_ip_alpha(1) [OF m(2)] alpha by (simp add: dom_map_of_conv_image_fst)
  moreover from this have "length (ip_nodes m) = card (fst ` set ads)"
    using dom_ip_alpha(2) [OF m(2)] distinct_card [of "map ip (ip_nodes m)"] by simp
  ultimately show ?thesis using m(1) fs hosts.lookup_alpha [OF m(2)] alpha by auto
qed

theorem host_table_keeps_first_witness:
  "\<exists>m fs. ip_insert_all \<lparr>ip_buckets = replicate 7 \<lparr>ip_head = [], ip_capacity = 0\<rparr>, ip_map_size = 7\<rparr>
       [(''8.8.8.8'', 0 :: nat), (''::1'', 1), (''8.8.8.8'', 2)] = Inr ([0, 0, -2], m) \<and>
     ip_find_in_map m ''8.8.8.8'' = Inr (Some 0) \<and> ip_delete_map m = Inr fs \<and> length fs = 2"
proof -
  let ?m0 = "\<lparr>ip_buckets = replicate 7 \<lparr>ip_head = [], ip_capacity = 0\<rparr>, ip_map_size = 7\<rparr>"
  let ?ads = "[(''8.8.8.8'', 0 :: nat), (''::1'', 1), (''8.8.8.8'', 2)]"
  have "ip_init_map True 7 = Some ?m0" by (simp add: ip_init_map_def)
  then obtain m fs where "ip_insert_all ?m0 ?ads = Inr (insert_codes [] (map fst ?ads), m)"
      "ip_find_in_map m ''8.8.8.8'' = Inr (map_of ?ads ''8.8.8.8'')"
      "ip_delete_map m = Inr fs" "length fs = card (fst ` set ?ads)"
    using host_table_keeps_first [of 7 ?m0 ?ads] by force
  moreover have "insert_codes [] (map fst ?ads) = [0, 0, -2]" "map_of ?ads ''8.8.8.8'' = Some 0"
    "card (fst ` set ?ads) = 2" by (simp_all add: card_insert_if)
  ultimately show ?thesis by metis
qed

end
