(* ===== verification/Rtt_Queue.thy ===== *)
theory Rtt_Queue
  imports Prelude
begin

text \<open>
  The job queue of the RTT prober, \<open>assignment-2/q1/queue.c\<close>. Elements are pushed and popped at
  \<open>front\<close>, so the structure is a stack. The contract the sender and the receivers rely on is the
  locale \<open>job_store\<close>.
\<close>

section \<open>Operations\<close>

text \<open>A \<open>queue *\<close> that may be NULL is an option; \<open>front\<close> is the chain from the front along \<open>prev\<close>.\<close>

record 'a job_queue =
  front :: "'a list"
  qcount :: nat

definition initQueue :: "bool \<Rightarrow> 'a job_queue option" where
  "initQueue alloc = (if alloc then Some \<lparr>front = [], qcount = 0\<rparr> else None)"

definition qFront :: "'a job_queue option \<Rightarrow> 'a option res" where
  "qFront q =
     (case q of
        None \<Rightarrow> Inr None
      | Some r \<Rightarrow>
          if qcount r = 0 then Inr None
          else (case front r of [] \<Rightarrow> Inl Null_deref | x # xs \<Rightarrow> Inr (Some x)))"

definition qPop :: "'a job_queue \<Rightarrow> 'a job_queue res" where
  "qPop r =
     (if qcount r = 0 then Inr r
      else (case front r of [] \<Rightarrow> Inl Null_deref | x # xs \<Rightarrow> Inr \<lparr>front = xs, qcount = qcount r - 1\<rparr>))"

definition qPush :: "bool \<Rightarrow> 'a job_queue option \<Rightarrow> 'a \<Rightarrow> int \<times> 'a job_queue option" where
  "qPush alloc q x =
     (case q of
        None \<Rightarrow> (-1, None)
      | Some r \<Rightarrow>
          if \<not> alloc then (-1, Some r) else (0, Some \<lparr>front = x # front r, qcount = qcount r + 1\<rparr>))"

fun pop_all :: "nat \<Rightarrow> 'a job_queue \<Rightarrow> 'a job_queue res" where
  "pop_all 0 r = Inr r"
| "pop_all (Suc n) r = rbind (qPop r) (pop_all n)"

definition deleteQueue :: "'a job_queue option \<Rightarrow> unit res" where
  "deleteQueue q = (case q of None \<Rightarrow> Inr () | Some r \<Rightarrow> rbind (pop_all (qcount r) r) (\<lambda>_. Inr ()))"

section \<open>The contract\<close>

fun drain :: "nat \<Rightarrow> ('q \<Rightarrow> 'a option res) \<Rightarrow> ('q \<Rightarrow> 'q res) \<Rightarrow> 'q \<Rightarrow> 'a list res" where
  "drain 0 frnt pop q = Inr []"
| "drain (Suc n) frnt pop q =
     rbind (frnt q) (\<lambda>x.
     case x of
       None \<Rightarrow> Inr []
     | Some a \<Rightarrow> rbind (pop q) (\<lambda>q'. rbind (drain n frnt pop q') (\<lambda>as. Inr (a # as))))"

locale job_store =
  fixes wf :: "'q \<Rightarrow> bool"
    and contents :: "'q \<Rightarrow> 'a list"
    and frnt :: "'q \<Rightarrow> 'a option res"
    and pop :: "'q \<Rightarrow> 'q res"
    and push :: "'q \<Rightarrow> 'a \<Rightarrow> 'q"
  assumes frnt_contents: "wf q \<Longrightarrow> frnt q = Inr (case contents q of [] \<Rightarrow> None | x # xs \<Rightarrow> Some x)"
    and pop_contents: "wf q \<Longrightarrow> \<exists>q'. pop q = Inr q' \<and> wf q' \<and> contents q' = tl (contents q)"
    and push_contents: "wf q \<Longrightarrow> wf (push q x) \<and> contents (push q x) = x # contents q"
begin

lemma push_all: "wf q \<Longrightarrow> wf (fold (\<lambda>x q. push q x) xs q) \<and> contents (fold (\<lambda>x q. push q x) xs q) = rev xs @ contents q"
  using push_contents by (induction xs arbitrary: q) auto

lemma drain_contents: "wf q \<Longrightarrow> drain n frnt pop q = Inr (take n (contents q))"
proof (induction n arbitrary: q)
  case 0
  then show ?case by simp
next
  case (Suc n)
  obtain q' where q': "pop q = Inr q'" "wf q'" "contents q' = tl (contents q)"
    using pop_contents [OF Suc.prems] by blast
  show ?case
  proof (cases "contents q")
    case Nil
    then show ?thesis using frnt_contents [OF Suc.prems] by simp
  next
    case (Cons x xs)
    then show ?thesis using frnt_contents [OF Suc.prems] Suc.IH [OF q'(2)] q' by simp
  qed
qed

lemma drain_after_push: "wf q \<Longrightarrow> drain (length xs) frnt pop (fold (\<lambda>x q. push q x) xs q) = Inr (rev xs)"
  using push_all [of q xs] by (simp add: drain_contents)

end

section \<open>The queue meets the contract\<close>

definition wf_queue :: "'a job_queue \<Rightarrow> bool" where
  "wf_queue r \<longleftrightarrow> qcount r = length (front r)"

definition push_job :: "'a job_queue \<Rightarrow> 'a \<Rightarrow> 'a job_queue" where
  "push_job r x = the (snd (qPush True (Some r) x))"

interpretation jobs: job_store wf_queue front "\<lambda>r. qFront (Some r)" qPop push_job
proof (unfold_locales, goal_cases)
  case (1 q)
  then show ?case by (cases "front q") (auto simp: wf_queue_def qFront_def)
next
  case (2 q)
  then show ?case by (cases "front q") (auto simp: wf_queue_def qPop_def)
next
  case (3 q x)
  then show ?case by (simp add: wf_queue_def push_job_def qPush_def)
qed

lemma wf_initQueue: "initQueue True = Some r \<Longrightarrow> wf_queue r \<and> front r = []"
  by (auto simp: initQueue_def wf_queue_def)

lemma pop_all_empty: "wf_queue r \<Longrightarrow> \<exists>r'. pop_all (qcount r) r = Inr r' \<and> front r' = []"
proof (induction "qcount r" arbitrary: r)
  case 0
  then show ?case by (auto simp: wf_queue_def)
next
  case (Suc n)
  obtain r' where r': "qPop r = Inr r'" "wf_queue r'" "front r' = tl (front r)"
    using jobs.pop_contents [OF Suc.prems] by blast
  have "qcount r' = n" using r' Suc by (simp add: wf_queue_def)
  with Suc.hyps(1) [of r'] r' Suc.hyps(2) [symmetric] show ?case by auto
qed

section \<open>Properties\<close>

text \<open>
  The job queue is last in, first out. Taking \<open>qFront\<close> and \<open>qPop\<close> after pushing \<open>xs\<close> onto a
  fresh queue gives the jobs in reverse order, whatever their number, and \<open>deleteQueue\<close> then empties
  it without touching a missing node.
\<close>

theorem job_queue_is_lifo:
  assumes "initQueue True = Some q"
  shows "drain (length xs) (\<lambda>r. qFront (Some r)) qPop (fold (\<lambda>x r. push_job r x) xs q) = Inr (rev xs) \<and>
     deleteQueue (Some (fold (\<lambda>x r. push_job r x) xs q)) = Inr ()"
proof -
  have wf: "wf_queue q" using wf_initQueue [OF assms] by simp
  then have "wf_queue (fold (\<lambda>x r. push_job r x) xs q)" using jobs.push_all by blast
  then show ?thesis using jobs.drain_after_push [OF wf] pop_all_empty by (fastforce simp: deleteQueue_def)
qed

theorem job_queue_is_lifo_witness:
  "drain 3 (\<lambda>r. qFront (Some r)) qPop (fold (\<lambda>x r. push_job r x) [1, 2, 3 :: nat] \<lparr>front = [], qcount = 0\<rparr>) =
     Inr [3, 2, 1]"
  using job_queue_is_lifo [of "\<lparr>front = [], qcount = 0\<rparr>" "[1, 2, 3 :: nat]"]
  by (simp add: initQueue_def eval_nat_numeral)

end
