(* ===== verification/Rtt_Icmp.thy ===== *)
theory Rtt_Icmp
  imports Prelude
begin

unbundle bit_operations_syntax

text \<open>
  The packet handling of the RTT prober, \<open>assignment-2/q1/utils.c\<close>: time differences, the Internet
  checksum, building and sending echo requests, reading echo replies, and parsing the file of
  addresses. Packets are lists of bytes in memory order on a little-endian machine, as the code
  reads and writes them through structures without byte swapping.
\<close>

section \<open>Time\<close>

record timeval =
  tv_sec :: int
  tv_usec :: int

text \<open>\<open>long\<close> is 64 bits wide.\<close>

definition clong :: "int \<Rightarrow> int res" where
  "clong v = (if - (2 ^ 63) \<le> v \<and> v < 2 ^ 63 then Inr v else Inl Signed_overflow)"

definition cdiv :: "int \<Rightarrow> int \<Rightarrow> int" where
  "cdiv a b = sgn a * (\<bar>a\<bar> div b)"

definition tv_sub :: "timeval \<Rightarrow> timeval \<Rightarrow> timeval res" where
  "tv_sub out inn =
     rbind (clong (tv_usec out - tv_usec inn)) (\<lambda>u.
     rbind (if u < 0 then rbind (clong (tv_sec out - 1)) (\<lambda>s. rbind (clong (u + 1000000)) (\<lambda>u. Inr (s, u)))
            else Inr (tv_sec out, u)) (\<lambda>(s, u).
     rbind (clong (s - tv_sec inn)) (\<lambda>s. Inr \<lparr>tv_sec = s, tv_usec = u\<rparr>)))"

text \<open>The value stored as RTT, in milliseconds.\<close>

definition rtt_ms :: "timeval \<Rightarrow> int res" where
  "rtt_ms t = rbind (clong (tv_sec t * 1000)) (\<lambda>m. clong (m + cdiv (tv_usec t) 1000))"

definition micros :: "timeval \<Rightarrow> int" where
  "micros t = tv_sec t * 1000000 + tv_usec t"

definition wf_timeval :: "timeval \<Rightarrow> bool" where
  "wf_timeval t \<longleftrightarrow> 0 \<le> tv_usec t \<and> tv_usec t < 1000000 \<and> - (2 ^ 50) \<le> tv_sec t \<and> tv_sec t < 2 ^ 50"

lemma tv_sub_micros:
  assumes "wf_timeval out" "wf_timeval inn"
  shows "\<exists>d. tv_sub out inn = Inr d \<and> 0 \<le> tv_usec d \<and> tv_usec d < 1000000 \<and>
     micros d = micros out - micros inn \<and> rtt_ms d = Inr ((micros out - micros inn) div 1000)"
proof -
  let ?u = "tv_usec out - tv_usec inn"
  let ?d = "if ?u < 0 then \<lparr>tv_sec = tv_sec out - 1 - tv_sec inn, tv_usec = ?u + 1000000\<rparr>
      else \<lparr>tv_sec = tv_sec out - tv_sec inn, tv_usec = ?u\<rparr>"
  have "tv_sub out inn = Inr ?d"
    using assms by (simp add: tv_sub_def clong_def wf_timeval_def)
  moreover have bounds: "0 \<le> tv_usec ?d" "tv_usec ?d < 1000000" using assms by (auto simp: wf_timeval_def)
  moreover have eq: "micros ?d = micros out - micros inn" by (simp add: micros_def)
  moreover have "rtt_ms ?d = Inr (micros ?d div 1000)"
  proof -
    have "tv_usec ?d div 1000 < 1000" "0 \<le> tv_usec ?d div 1000" using bounds by linarith+
    moreover have "cdiv (tv_usec ?d) 1000 = tv_usec ?d div 1000"
      using bounds(1) by (cases "tv_usec ?d = 0") (simp_all add: cdiv_def)
    moreover have "micros ?d div 1000 = tv_sec ?d * 1000 + tv_usec ?d div 1000"
      by (simp add: micros_def)
    moreover have "- (2 ^ 52) \<le> tv_sec ?d" "tv_sec ?d \<le> 2 ^ 52" using assms by (auto simp: wf_timeval_def)
    ultimately show ?thesis by (simp add: rtt_ms_def clong_def)
  qed
  ultimately show ?thesis by metis
qed

section \<open>The Internet checksum\<close>

type_synonym bytes = "8 word list"

text \<open>The loop over 16-bit words and the odd byte, in a 32-bit accumulator.\<close>

fun cksum_loop :: "bytes \<Rightarrow> 32 word \<Rightarrow> 32 word" where
  "cksum_loop [] s = s"
| "cksum_loop [b] s = s + ucast b"
| "cksum_loop (b # c # bs) s = cksum_loop bs (s + (ucast b + 256 * ucast c))"

definition in_cksum :: "bytes \<Rightarrow> 16 word" where
  "in_cksum bs =
     (let s = cksum_loop bs 0;
          s = drop_bit 16 s + (s AND 0xffff);
          s = s + drop_bit 16 s
      in NOT (ucast s))"

fun sum16 :: "bytes \<Rightarrow> nat" where
  "sum16 [] = 0"
| "sum16 [b] = unat b"
| "sum16 (b # c # bs) = unat b + 256 * unat c + sum16 bs"

definition fold16 :: "nat \<Rightarrow> nat" where
  "fold16 s = (let t = s div 65536 + s mod 65536 in (t + t div 65536) mod 65536)"

lemma unat8: "unat (b :: 8 word) < 256"
  using unsigned_less [of b] by simp

lemma ucast8: "unat (ucast (b :: 8 word) :: 32 word) = unat b"
  using unat8 [of b] by (simp add: unsigned_ucast_eq take_bit_nat_eq_self)

lemma unat_not16: "unat (NOT (w :: 16 word)) = 65535 - unat w"
proof -
  have "NOT w = - 1 - w" by (simp add: not_eq_complement)
  moreover have "unat (- 1 - w) = unat (- 1 :: 16 word) - unat w" by (rule unat_sub) simp
  ultimately show ?thesis by (simp add: unsigned_minus_1_eq_mask mask_eq_exp_minus_1)
qed

lemma sum16_bound: "sum16 bs \<le> 65535 * length bs"
proof (induction bs rule: sum16.induct)
  case (2 b)
  then show ?case using unat8 [of b] by simp
next
  case (3 b c bs)
  then show ?case using unat8 [of b] unat8 [of c] by simp
qed simp

lemma cksum_loop_sum16:
  "unat s + sum16 bs < 2 ^ 32 \<Longrightarrow> unat (cksum_loop bs s) = unat s + sum16 bs"
proof (induction bs s rule: cksum_loop.induct)
  case (2 b s)
  then show ?case by (simp add: unat_word_ariths ucast8)
next
  case (3 b c bs s)
  have "unat (ucast b + 256 * ucast c :: 32 word) = unat b + 256 * unat c"
    using unat8 [of b] unat8 [of c] by (simp add: unat_word_ariths ucast8)
  moreover from this 3(2) have "unat (s + (ucast b + 256 * ucast c)) = unat s + (unat b + 256 * unat c)"
    by (simp add: unat_word_ariths)
  ultimately show ?case using 3 by simp
qed simp

lemma in_cksum_fold16:
  assumes "length bs \<le> 1500"
  shows "unat (in_cksum bs) = 65535 - fold16 (sum16 bs)"
proof -
  let ?S = "sum16 bs"
  have S: "?S < 2 ^ 32" using sum16_bound [of bs] assms by simp
  then have s0: "unat (cksum_loop bs 0) = ?S" by (simp add: cksum_loop_sum16)
  let ?s1 = "drop_bit 16 (cksum_loop bs 0) + (cksum_loop bs 0 AND 0xffff)"
  have "cksum_loop bs 0 AND 0xffff = take_bit 16 (cksum_loop bs 0)"
    by (simp add: take_bit_eq_mask mask_eq_exp_minus_1)
  moreover have "?S div 65536 < 65536" using S by simp
  ultimately have s1: "unat ?s1 = ?S div 65536 + ?S mod 65536"
    using s0 by (simp add: unat_word_ariths unat_drop_bit_eq unsigned_take_bit_eq drop_bit_eq_div take_bit_eq_mod)
  have "?S div 65536 \<le> 65535" using S by simp
  moreover have "?S mod 65536 < 65536" by simp
  ultimately have t: "?S div 65536 + ?S mod 65536 \<le> 131070" by linarith
  have twice: "unat (w + drop_bit 16 w) = unat w + unat w div 65536" if "unat w \<le> 131070" for w :: "32 word"
  proof -
    have "unat w div 65536 \<le> 131070 div 65536" using that by (rule div_le_mono)
    then have "unat w + unat w div 65536 < 2 ^ 32" using that by simp
    then show ?thesis by (simp add: unat_word_ariths unat_drop_bit_eq drop_bit_eq_div)
  qed
  have s2: "unat (?s1 + drop_bit 16 ?s1) =
      ?S div 65536 + ?S mod 65536 + (?S div 65536 + ?S mod 65536) div 65536"
    using twice [of ?s1] s1 t by simp
  have "unat (ucast (?s1 + drop_bit 16 ?s1) :: 16 word) = fold16 ?S"
    using s2 by (simp add: unsigned_ucast_eq take_bit_eq_mod fold16_def Let_def)
  then show ?thesis by (simp add: in_cksum_def Let_def unat_not16)
qed

lemma fold16_props:
  assumes "s < 2 ^ 32"
  shows "fold16 s \<le> 65535" and "fold16 s mod 65535 = s mod 65535" and "0 < s \<Longrightarrow> 0 < fold16 s"
proof -
  define t where "t = s div 65536 + s mod 65536"
  have "s div 65536 < 65536" using assms by simp
  moreover have "s mod 65536 < 65536" by simp
  ultimately have t: "t \<le> 131070" unfolding t_def by linarith
  have s: "s = 65535 * (s div 65536) + t" by (simp add: t_def)
  have f: "fold16 s = (if t < 65536 then t else t - 65535)"
  proof (cases "t < 65536")
    case False
    then have "t div 65536 = 1" using t by simp
    then have "fold16 s = (t + 1) mod 65536" by (simp only: fold16_def Let_def t_def [symmetric])
    also have "\<dots> = t + 1 - 65536" using False t by (subst le_mod_geq) auto
    finally show ?thesis using False by simp
  qed (simp add: fold16_def Let_def t_def)
  show "fold16 s \<le> 65535" using f t by (cases "t < 65536") auto
  have "t mod 65535 = s mod 65535" by (subst s) simp
  moreover have "(t - 65535) mod 65535 = t mod 65535" if "\<not> t < 65536"
    using that by (subst (2) le_mod_geq) auto
  ultimately show "fold16 s mod 65535 = s mod 65535" using f by simp
  show "0 < fold16 s" if "0 < s"
  proof (cases "t < 65536")
    case True
    have "t \<noteq> 0" using that s by (cases "s div 65536 = 0") (auto simp: t_def)
    with True f show ?thesis by simp
  qed (use f in simp)
qed

text \<open>Little-endian numbers.\<close>

fun le_bytes :: "nat \<Rightarrow> int \<Rightarrow> bytes" where
  "le_bytes 0 v = []"
| "le_bytes (Suc n) v = word_of_int v # le_bytes n (v div 256)"

fun le_val :: "bytes \<Rightarrow> int" where
  "le_val [] = 0"
| "le_val (b # bs) = uint b + 256 * le_val bs"

lemma length_le_bytes [simp]: "length (le_bytes n v) = n"
  by (induction n arbitrary: v) simp_all

lemma le_val_le_bytes: "le_val (le_bytes n v) = v mod 256 ^ n"
proof (induction n arbitrary: v)
  case (Suc n)
  have "uint (word_of_int v :: 8 word) = v mod 256" by (simp add: uint_word_of_int)
  with Suc show ?case by (simp add: zmod_zmult2_eq add.commute)
qed simp

lemma le_bytes_2: "le_bytes 2 v = [word_of_int v, word_of_int (v div 256)]"
  by (simp add: eval_nat_numeral)

text \<open>Writing the checksum into the header makes the checksum of the whole packet zero.\<close>

lemma in_cksum_verifies:
  assumes k: "k = in_cksum (t # c # 0 # 0 # rest)" and len: "length rest \<le> 1400" and t: "t \<noteq> 0"
  shows "in_cksum (t # c # le_bytes 2 (uint k) @ rest) = 0"
proof -
  define S where "S = sum16 (t # c # 0 # 0 # rest)"
  have S: "0 < S" "S \<le> 65535 * 1404"
    using t sum16_bound [of "t # c # 0 # 0 # rest"] len by (auto simp: S_def unat_eq_0 intro: Nat.gr0I)
  have fold: "fold16 S \<le> 65535" "fold16 S mod 65535 = S mod 65535"
    using fold16_props [of S] S by auto
  have uk: "unat k = 65535 - fold16 S" using in_cksum_fold16 [of "t # c # 0 # 0 # rest"] len k by (simp add: S_def)
  have k2: "unat (word_of_int (uint k) :: 8 word) + 256 * unat (word_of_int (uint k div 256) :: 8 word) = unat k"
  proof -
    have "0 \<le> uint k" "uint k < 65536" using unsigned_less [of k] by simp_all
    moreover have low: "uint (word_of_int x :: 8 word) = x mod 256" for x by (simp add: uint_word_of_int)
    moreover have "x div 256 mod 256 = x div 256" if "0 \<le> x" "x < 65536" for x :: int
    proof -
      have "0 \<le> x div 256" "x div 256 < 256" using that by linarith+
      then show ?thesis by simp
    qed
    ultimately have "uint (word_of_int (uint k) :: 8 word) = uint k mod 256"
      "uint (word_of_int (uint k div 256) :: 8 word) = uint k div 256"
      by (simp_all only: low simp_thms)
    then have "int (unat (word_of_int (uint k) :: 8 word)) + 256 * int (unat (word_of_int (uint k div 256) :: 8 word)) = int (unat k)"
      by simp
    then show ?thesis by linarith
  qed
  let ?p = "t # c # le_bytes 2 (uint k) @ rest"
  have S': "sum16 ?p = S + (65535 - fold16 S)" using k2 uk by (simp add: le_bytes_2 S_def)
  have "(S + (65535 - fold16 S)) mod 65535 = 0"
  proof -
    have "(S + (65535 - fold16 S)) mod 65535 = (fold16 S mod 65535 + (65535 - fold16 S)) mod 65535"
      using fold(2) by (simp add: mod_simps)
    also have "\<dots> = (fold16 S + (65535 - fold16 S)) mod 65535" by (simp add: mod_simps)
    also have "\<dots> = 0" using fold(1) by simp
    finally show ?thesis .
  qed
  then have "sum16 ?p mod 65535 = 0" "0 < sum16 ?p" "sum16 ?p < 2 ^ 32" unfolding S' using S by simp_all
  then have "fold16 (sum16 ?p) mod 65535 = 0" "fold16 (sum16 ?p) \<le> 65535" "0 < fold16 (sum16 ?p)"
    using fold16_props [of "sum16 ?p"] by simp_all
  then have "fold16 (sum16 ?p) = 65535"
    by (metis le_neq_implies_less mod_less neq0_conv)
  then have "unat (in_cksum ?p) = 0" using in_cksum_fold16 [of ?p] len by simp
  then show ?thesis by (simp add: unat_eq_0)
qed

section \<open>The file of addresses\<close>

abbreviation IP_V4_BUF_LEN :: nat where "IP_V4_BUF_LEN \<equiv> 25"
abbreviation IP_V6_BUF_LEN :: nat where "IP_V6_BUF_LEN \<equiv> 100"

record ip_struct =
  isV4 :: bool
  ip_text :: string

text \<open>The search for \<open>.\<close> or \<open>:\<close> among the first ten characters of the buffer.\<close>

fun classify :: "string \<Rightarrow> bool" where
  "classify [] = False"
| "classify (c # cs) = (if c = CHR ''.'' then True else if c = CHR '':'' then False else classify cs)"

text \<open>
  The loop of \<open>parseIpList\<close> over the words \<open>fscanf\<close> reads into \<open>buff\<close>, which keeps what earlier
  words left behind the terminator. \<open>bytes\<close> is the size of the block \<open>list->ip\<close>; \<open>realloc\<close> is given
  the number of pointers as a number of bytes.
\<close>

fun parse_ips :: "string list \<Rightarrow> string \<Rightarrow> ip_struct list \<Rightarrow> nat \<Rightarrow> nat \<Rightarrow> ip_struct list res" where
  "parse_ips [] buff acc curr_sz bytes = Inr acc"
| "parse_ips (w # ws) buff acc curr_sz bytes =
     rbind (strcpy_to IP_V6_BUF_LEN w) (\<lambda>w.
     let buff = w @ [NUL] @ drop (length w + 1) buff;
         (curr_sz, bytes) = (if length acc = curr_sz then (curr_sz * 2, curr_sz * 2) else (curr_sz, bytes))
     in
     if bytes < 8 * (length acc + 1) then Inl Buffer_overflow
     else parse_ips ws buff (acc @ [\<lparr>isV4 = classify (take 10 buff), ip_text = w\<rparr>]) curr_sz bytes)"

definition parseIpList :: "string \<Rightarrow> string \<Rightarrow> ip_struct list res" where
  "parseIpList stack file = parse_ips (words file) stack [] 1000 8000"

section \<open>Hosts and probes\<close>

text \<open>\<open>paddr\<close> is the text of the address in \<open>sasend\<close>; in \<open>rtt\<close> the value -1 means no reply.\<close>

record proto =
  is_icmp4 :: bool
  paddr :: string
  nsent :: int
  rtt :: "int list"

text \<open>
  \<open>pton\<close> stands for \<open>inet_pton\<close> followed by \<open>inet_ntop\<close>: the canonical text of an address, or
  \<open>None\<close> when the text is no address; the code does not test that and keeps the zero address.
\<close>

definition initIp :: "(bool \<Rightarrow> string \<Rightarrow> string option) \<Rightarrow> ip_struct \<Rightarrow> proto" where
  "initIp pton i =
     \<lparr>is_icmp4 = isV4 i,
      paddr = (case pton (isV4 i) (ip_text i) of
                 Some a \<Rightarrow> a
               | None \<Rightarrow> if isV4 i then ''0.0.0.0'' else ''::''),
      nsent = 0, rtt = [-1, -1, -1]\<rparr>"

definition set_rtt :: "int \<Rightarrow> int \<Rightarrow> proto \<Rightarrow> proto res" where
  "set_rtt i v p = (if 0 \<le> i \<and> i < 3 then Inr (p\<lparr>rtt := (rtt p)[nat i := v]\<rparr>) else Inl Out_of_bounds)"

abbreviation DATA_LEN :: nat where "DATA_LEN \<equiv> 56"
abbreviation BUF_SIZE :: nat where "BUF_SIZE \<equiv> 1500"

definition timeval_bytes :: "timeval \<Rightarrow> bytes" where
  "timeval_bytes t = le_bytes 8 (tv_sec t) @ le_bytes 8 (tv_usec t)"

text \<open>The echo request: type, code, checksum, id, sequence number, the time and the filler.\<close>

definition echo_body :: "int \<Rightarrow> int \<Rightarrow> timeval \<Rightarrow> bytes" where
  "echo_body pid seq now = le_bytes 2 pid @ le_bytes 2 seq @ timeval_bytes now @ replicate (DATA_LEN - 16) 0xa5"

definition echo_v4 :: "int \<Rightarrow> int \<Rightarrow> timeval \<Rightarrow> bytes" where
  "echo_v4 pid seq now =
     (let ck = in_cksum (8 # 0 # 0 # 0 # echo_body pid seq now)
      in 8 # 0 # le_bytes 2 (uint ck) @ echo_body pid seq now)"

text \<open>\<open>junk\<close> is what the checksum field holds; the kernel overwrites it.\<close>

definition echo_v6 :: "bytes \<Rightarrow> int \<Rightarrow> int \<Rightarrow> timeval \<Rightarrow> bytes" where
  "echo_v6 junk pid seq now = 128 # 0 # take 2 junk @ echo_body pid seq now"

text \<open>
  The loop around \<open>sendto\<close>; \<open>outs\<close> are the results of the calls. \<open>None\<close> means that the loop is
  still waiting for a result.
\<close>

fun send_loop :: "int list \<Rightarrow> bytes \<Rightarrow> (int \<times> bytes list) option" where
  "send_loop outs [] = Some (0, [])"
| "send_loop [] (b # bs) = None"
| "send_loop (n # ns) (b # bs) =
     (if int (length (b # bs)) \<le> n then Some (0, [b # bs])
      else if n = -1 then Some (-1, [])
      else map_option (\<lambda>(r, ps). (r, take (nat n) (b # bs) # ps)) (send_loop ns (drop (nat n) (b # bs))))"

definition sendV4 :: "int \<Rightarrow> timeval \<Rightarrow> int list \<Rightarrow> proto \<Rightarrow> (int \<times> bytes list \<times> proto) option" where
  "sendV4 pid now outs p =
     map_option (\<lambda>(r, ps). (r, ps, p\<lparr>nsent := nsent p + 1\<rparr>)) (send_loop outs (echo_v4 pid (nsent p) now))"

definition sendV6 :: "bytes \<Rightarrow> int \<Rightarrow> timeval \<Rightarrow> int list \<Rightarrow> proto \<Rightarrow> (int \<times> bytes list \<times> proto) option" where
  "sendV6 junk pid now outs p =
     map_option (\<lambda>(r, ps). (r, ps, p\<lparr>nsent := nsent p + 1\<rparr>)) (send_loop outs (echo_v6 junk pid (nsent p) now))"

section \<open>Reading a reply\<close>

definition field :: "bytes \<Rightarrow> nat \<Rightarrow> nat \<Rightarrow> bytes res" where
  "field ptr off n = (if off + n \<le> length ptr then Inr (take n (drop off ptr)) else Inl Out_of_bounds)"

definition le_long :: "bytes \<Rightarrow> int" where
  "le_long bs = (le_val bs + 2 ^ 63) mod 2 ^ 64 - 2 ^ 63"

text \<open>The common end of both functions: the time in the payload at \<open>off\<close>, and the RTT it gives.\<close>

definition record_rtt :: "bytes \<Rightarrow> nat \<Rightarrow> proto \<Rightarrow> timeval \<Rightarrow> (int \<times> proto) res" where
  "record_rtt ptr off p tvrecv =
     rbind (field ptr off 8) (\<lambda>sec.
     rbind (field ptr (off + 8) 8) (\<lambda>usec.
     rbind (tv_sub tvrecv \<lparr>tv_sec = le_long sec, tv_usec = le_long usec\<rparr>) (\<lambda>d.
     rbind (rtt_ms d) (\<lambda>v.
     rbind (set_rtt (nsent p - 1) v p) (\<lambda>p. Inr (0, p))))))"

definition procV4 :: "int \<Rightarrow> bytes \<Rightarrow> int \<Rightarrow> proto \<Rightarrow> timeval \<Rightarrow> (int \<times> proto) res" where
  "procV4 pid ptr len p tvrecv =
     rbind (field ptr 0 1) (\<lambda>b0.
     rbind (field ptr 9 1) (\<lambda>proto_byte.
     let head_len = nat (le_val b0 mod 16 * 4) in
     if le_val proto_byte \<noteq> 1 then Inr (-1, p)
     else let icmp_len = len - int head_len in
     if icmp_len < 8 then Inr (-1, p)
     else
     rbind (field ptr head_len 1) (\<lambda>icmp_type.
     if le_val icmp_type = 0 then
       rbind (field ptr (head_len + 4) 2) (\<lambda>icmp_id.
       if le_val icmp_id \<noteq> pid mod 65536 then Inr (-1, p)
       else if icmp_len < 16 then Inr (-1, p)
       else record_rtt ptr (head_len + 8) p tvrecv)
     else rbind (set_rtt (nsent p - 1) (-1) p) (\<lambda>p. Inr (-2, p)))))"

definition procV6 :: "int \<Rightarrow> bytes \<Rightarrow> int \<Rightarrow> proto \<Rightarrow> timeval \<Rightarrow> (int \<times> proto) res" where
  "procV6 pid ptr len p tvrecv =
     (if len < 8 then Inr (-1, p)
      else
      rbind (field ptr 0 1) (\<lambda>icmp6_type.
      if le_val icmp6_type = 129 then
        rbind (field ptr 4 2) (\<lambda>icmp6_id.
        if le_val icmp6_id \<noteq> pid mod 65536 then Inr (-1, p)
        else if len < 16 then Inr (-1, p)
        else record_rtt ptr 8 p tvrecv)
      else rbind (set_rtt (nsent p - 1) (-1) p) (\<lambda>p. Inr (-2, p))))"

section \<open>Reading back what was sent\<close>

lemma field_at: "length xs = off \<Longrightarrow> length ys = n \<Longrightarrow> field (xs @ ys @ zs) off n = Inr ys"
  by (simp add: field_def)

lemma le_long_le_bytes: "- (2 ^ 63) \<le> v \<Longrightarrow> v < 2 ^ 63 \<Longrightarrow> le_long (le_bytes 8 v) = v"
proof -
  assume v: "- (2 ^ 63) \<le> v" "v < 2 ^ 63"
  have "le_long (le_bytes 8 v) = (v mod 2 ^ 64 + 2 ^ 63) mod 2 ^ 64 - 2 ^ 63"
    by (simp add: le_long_def le_val_le_bytes)
  also have "\<dots> = (v + 2 ^ 63) mod 2 ^ 64 - 2 ^ 63" by (simp add: mod_simps)
  also have "\<dots> = v" using v by (simp add: mod_pos_pos_trivial)
  finally show ?thesis .
qed

lemma record_rtt_time:
  assumes "wf_timeval sent" "wf_timeval recvd" "length xs = off" "1 \<le> nsent p" "nsent p \<le> 3"
  shows "record_rtt (xs @ timeval_bytes sent @ zs) off p recvd =
     Inr (0, p\<lparr>rtt := (rtt p)[nat (nsent p - 1) := (micros recvd - micros sent) div 1000]\<rparr>)"
proof -
  have f1: "field (xs @ timeval_bytes sent @ zs) off 8 = Inr (le_bytes 8 (tv_sec sent))"
    using field_at [of xs off "le_bytes 8 (tv_sec sent)" 8] assms(3) by (simp add: timeval_bytes_def)
  have f2: "field (xs @ timeval_bytes sent @ zs) (off + 8) 8 = Inr (le_bytes 8 (tv_usec sent))"
    using field_at [of "xs @ le_bytes 8 (tv_sec sent)" "off + 8" "le_bytes 8 (tv_usec sent)" 8] assms(3)
    by (simp add: timeval_bytes_def)
  have "le_long (le_bytes 8 (tv_sec sent)) = tv_sec sent" "le_long (le_bytes 8 (tv_usec sent)) = tv_usec sent"
    using assms(1) by (auto simp: wf_timeval_def intro!: le_long_le_bytes)
  then have t: "\<lparr>tv_sec = le_long (le_bytes 8 (tv_sec sent)), tv_usec = le_long (le_bytes 8 (tv_usec sent))\<rparr> = sent"
    by simp
  obtain d where d: "tv_sub recvd sent = Inr d" "rtt_ms d = Inr ((micros recvd - micros sent) div 1000)"
    using tv_sub_micros [OF assms(2,1)] by blast
  show ?thesis using f1 f2 t d assms(4,5) by (simp add: record_rtt_def set_rtt_def)
qed

lemma length_echo_v4 [simp]: "length (echo_v4 pid seq now) = 64"
  by (simp add: echo_v4_def echo_body_def timeval_bytes_def Let_def)

lemma sendV4_whole: "sendV4 pid now [64] p = Some (0, [echo_v4 pid (nsent p) now], p\<lparr>nsent := nsent p + 1\<rparr>)"
proof -
  have "send_loop [64] bs = Some (0, [bs])" if "length bs = 64" for bs using that by (cases bs) simp_all
  then show ?thesis by (simp add: sendV4_def)
qed

lemma le_val_byte: "le_val [0] = 0" "le_val [1] = 1" "b \<noteq> 0 \<Longrightarrow> le_val [b] \<noteq> 0"
  by (simp_all add: uint_0_iff)

section \<open>Properties\<close>

text \<open>
  C32: every ICMP echo request \<open>sendV4\<close> sends carries a valid Internet checksum: for any process id,
  sequence number and time, \<open>in_cksum\<close> of the finished 64-byte packet is zero.
\<close>

theorem sent_checksum_verifies:
  "\<exists>ps p'. sendV4 pid now [64] p = Some (0, [ps], p') \<and> length ps = 64 \<and> in_cksum ps = 0"
proof -
  have "in_cksum (echo_v4 pid (nsent p) now) = 0"
    unfolding echo_v4_def Let_def by (rule in_cksum_verifies) (simp_all add: echo_body_def timeval_bytes_def)
  then show ?thesis by (simp add: sendV4_whole)
qed

text \<open>
  C31: the round-trip time is the time between request and reply. When the packet \<open>sendV4\<close> sent at time
  \<open>sent\<close> comes back as an echo reply behind a 20-byte IP header and is processed at time \<open>recvd\<close>,
  \<open>procV4\<close> stores the difference in whole milliseconds in the slot of that request.
\<close>

theorem echo_reply_records_rtt:
  assumes "wf_timeval sent" "wf_timeval recvd" "0 \<le> nsent p" "nsent p \<le> 2"
    and "sendV4 pid sent [64] p = Some (0, [packet], p')"
    and "length hdr = 20" "le_val [hdr ! 0] mod 16 = 5" "hdr ! 9 = 1" "length ck = 2"
  shows "procV4 pid (hdr @ [0, 0] @ ck @ drop 4 packet @ pad) 84 p' recvd =
     Inr (0, p'\<lparr>rtt := (rtt p)[nat (nsent p) := (micros recvd - micros sent) div 1000]\<rparr>)"
proof -
  have packet: "packet = echo_v4 pid (nsent p) sent" and p': "p' = p\<lparr>nsent := nsent p + 1\<rparr>"
    using assms(5) by (simp_all add: sendV4_whole)
  let ?pre = "hdr @ [0, 0] @ ck @ le_bytes 2 pid @ le_bytes 2 (nsent p)"
  let ?post = "replicate (DATA_LEN - 16) 0xa5 @ pad"
  let ?reply = "hdr @ [0, 0] @ ck @ drop 4 packet @ pad"
  have body: "drop 4 packet = echo_body pid (nsent p) sent"
    by (simp add: packet echo_v4_def Let_def le_bytes_2 eval_nat_numeral)
  then have reply: "?reply = ?pre @ timeval_bytes sent @ ?post"
    by (simp add: echo_body_def)
  obtain h hs where h: "hdr = h # hs" using assms(6) by (cases hdr) auto
  have f0: "field ?reply 0 1 = Inr [hdr ! 0]" by (simp add: field_def h)
  have f9: "field ?reply 9 1 = Inr [1]"
  proof -
    have "take 1 (drop 9 ?reply) = [hdr ! 9]" using assms(6) by (simp add: take_Suc_conv_app_nth hd_drop_conv_nth take_Suc)
    with assms(6,8) show ?thesis by (simp add: field_def)
  qed
  have f20: "field ?reply 20 1 = Inr [0]" using field_at [of hdr 20 "[0]" 1] assms(6) by simp
  have f24: "field ?reply 24 2 = Inr (le_bytes 2 pid)"
    using field_at [of "hdr @ [0, 0] @ ck" 24 "le_bytes 2 pid" 2] assms(6,9) by (simp add: body echo_body_def)
  have "record_rtt ?reply 28 p' recvd =
      Inr (0, p'\<lparr>rtt := (rtt p')[nat (nsent p' - 1) := (micros recvd - micros sent) div 1000]\<rparr>)"
    unfolding reply using assms p' by (intro record_rtt_time) auto
  moreover have "nat (le_val [hdr ! 0] mod 16 * 4) = 20" using assms(7) by simp
  ultimately show ?thesis
    using f0 f9 f20 f24 p' by (simp add: procV4_def Let_def le_val_le_bytes le_val_byte del: le_val.simps(2))
qed

theorem echo_reply_records_rtt_witness:
  "procV4 7 ((0x45 # replicate 8 0 @ 1 # replicate 10 0) @ [0, 0] @ [0, 0] @
       drop 4 (echo_v4 7 0 \<lparr>tv_sec = 5, tv_usec = 900000\<rparr>) @ []) 84
     \<lparr>is_icmp4 = True, paddr = ''8.8.8.8'', nsent = 1, rtt = [-1, -1, -1]\<rparr> \<lparr>tv_sec = 6, tv_usec = 23500\<rparr> =
   Inr (0, \<lparr>is_icmp4 = True, paddr = ''8.8.8.8'', nsent = 1, rtt = [123, -1, -1]\<rparr>)"
  using echo_reply_records_rtt [of "\<lparr>tv_sec = 5, tv_usec = 900000\<rparr>" "\<lparr>tv_sec = 6, tv_usec = 23500\<rparr>"
      "\<lparr>is_icmp4 = True, paddr = ''8.8.8.8'', nsent = 0, rtt = [-1, -1, -1]\<rparr>" 7
      "echo_v4 7 0 \<lparr>tv_sec = 5, tv_usec = 900000\<rparr>" _ "0x45 # replicate 8 0 @ 1 # replicate 10 0" "[0, 0]" "[]"]
  by (simp add: wf_timeval_def micros_def sendV4_whole nth_append nth_Cons')

text \<open>
  A message that is no echo reply, from a host with no request in its three slots, writes outside
  the array of RTTs: \<open>procV4\<close> stores -1 in slot \<open>nsent - 1\<close>, which is -1 before the first request and 3
  after the last reply has been counted.
\<close>

theorem stray_message_writes_out_of_bounds:
  assumes "nsent p = 0 \<or> nsent p = 4" "20 + 8 \<le> len" "len \<le> int (length ptr)"
    and "le_val [ptr ! 0] mod 16 = 5" "ptr ! 9 = 1" "ptr ! 20 \<noteq> 0"
  shows "procV4 pid ptr len p tvrecv = Inl Out_of_bounds"
proof -
  have f: "field ptr i 1 = Inr [ptr ! i]" if "i < 28" for i
  proof -
    have "i < length ptr" using that assms(2,3) by linarith
    then show ?thesis by (simp add: field_def take_Suc hd_drop_conv_nth)
  qed
  have "nat (le_val [ptr ! 0] mod 16 * 4) = 20" using assms(4) by simp
  moreover have "le_val [ptr ! 20] \<noteq> 0" using assms(6) by (rule le_val_byte)
  ultimately show ?thesis
    using f [of 0] f [of 9] f [of 20] assms(1,2,5)
    by (auto simp: procV4_def Let_def set_rtt_def le_val_byte(2) simp del: le_val.simps(2))
qed

theorem stray_message_writes_out_of_bounds_witness:
  "procV4 7 (0x45 # replicate 8 0 @ 1 # replicate 10 0 @ 3 # replicate 7 0) 28
     \<lparr>is_icmp4 = True, paddr = ''8.8.8.8'', nsent = 0, rtt = [-1, -1, -1]\<rparr> \<lparr>tv_sec = 6, tv_usec = 0\<rparr> =
   Inl Out_of_bounds"
  using stray_message_writes_out_of_bounds [of "\<lparr>is_icmp4 = True, paddr = ''8.8.8.8'', nsent = 0, rtt = [-1, -1, -1]\<rparr>"
      28 "0x45 # replicate 8 0 @ 1 # replicate 10 0 @ 3 # replicate 7 0"]
  by (simp add: nth_append nth_Cons')

text \<open>
  \<open>parseIpList\<close> reads every address of a file of at most 1000 addresses and tells IPv4 from IPv6 by
  the first separator; with one more address the doubled block is too small, because \<open>realloc\<close> is
  given a count of pointers as a number of bytes, and the write of the 1001st pointer is outside it.
\<close>

theorem parseIpList_limit:
  assumes "\<forall>w \<in> set (words file). length w < 100 \<and> (\<exists>c \<in> set (take 10 w). c = CHR ''.'' \<or> c = CHR '':'')"
  shows "parseIpList stack file =
     (if length (words file) \<le> 1000
      then Inr (map (\<lambda>w. \<lparr>isV4 = classify w, ip_text = w\<rparr>) (words file))
      else Inl Buffer_overflow)"
proof -
  have cls: "classify (take 10 (w @ r)) = classify w"
    if "\<exists>c \<in> set (take 10 w). c = CHR ''.'' \<or> c = CHR '':''" for w r
  proof -
    have c: "classify (u @ v) = classify u" if "\<exists>c \<in> set u. c = CHR ''.'' \<or> c = CHR '':''" for u v
      using that by (induction u) auto
    have "classify (take 10 (w @ r)) = classify (take 10 w)" using c [OF that] by simp
    also have "\<dots> = classify w" using c [OF that, of "drop 10 w"] by (simp only: append_take_drop_id)
    finally show ?thesis .
  qed
  have "parse_ips ws buff acc 1000 8000 =
      (if length acc + length ws \<le> 1000 then Inr (acc @ map (\<lambda>w. \<lparr>isV4 = classify w, ip_text = w\<rparr>) ws)
       else Inl Buffer_overflow)"
    if "\<forall>w \<in> set ws. length w < 100 \<and> (\<exists>c \<in> set (take 10 w). c = CHR ''.'' \<or> c = CHR '':'')" "length acc \<le> 1000"
    for ws buff acc
    using that
  proof (induction ws arbitrary: buff acc)
    case (Cons w ws)
    show ?case
    proof (cases "length acc = 1000")
      case True
      with Cons.prems(1) show ?thesis by (simp add: strcpy_to_def Let_def)
    next
      case False
      with Cons.prems cls [of w "NUL # drop (length w + 1) buff"] Cons.IH show ?thesis
        by (simp add: strcpy_to_def Let_def)
    qed
  qed simp
  from this [OF assms, of "[]"] show ?thesis by (simp add: parseIpList_def)
qed

theorem parseIpList_limit_witness:
  "parseIpList (replicate 100 NUL) (''8.8.8.8'' @ NL # ''::1'' @ [NL]) =
     Inr [\<lparr>isV4 = True, ip_text = ''8.8.8.8''\<rparr>, \<lparr>isV4 = False, ip_text = ''::1''\<rparr>]"
proof -
  have w: "words (''8.8.8.8'' @ NL # ''::1'' @ [NL]) = [''8.8.8.8'', ''::1'']" by code_simp
  show ?thesis
    using parseIpList_limit [of "''8.8.8.8'' @ NL # ''::1'' @ [NL]" "replicate 100 NUL"] unfolding w by simp
qed

end
