(* ===== verification/Rtt_Main.thy ===== *)
theory Rtt_Main
  imports Rtt_Map Rtt_Queue Rtt_Icmp
begin

text \<open>
  The RTT prober, \<open>assignment-2/q1/rtt.c\<close>: setting up one \<open>proto\<close> per address, and the sender and the
  two receivers. A pointer to a \<open>proto\<close> is its index in \<open>sockets\<close>. One iteration of a thread's loop is
  one step; the threads interleave in any order.
\<close>

section \<open>State\<close>

abbreviation HASH_MAP_SZ :: nat where "HASH_MAP_SZ \<equiv> 7919"
abbreviation DEFAULT_TIME_LIMIT :: int where "DEFAULT_TIME_LIMIT \<equiv> 30"

record prober =
  sockets :: "proto list"
  unique_count :: nat
  sendQ :: "nat job_queue"
  ip_proto_map :: "nat ip_map"
  ipv4_count :: int
  ipv6_count :: int
  ipv4_fail :: int
  ipv6_fail :: int
  stop_threads :: bool
  tot_send_cnt :: int
  send_done :: bool
  recv4_done :: bool
  recv6_done :: bool

text \<open>The time limit and whether statistics are shown (lines 64 to 72).\<close>

definition rtt_options :: "string list \<Rightarrow> int \<times> bool" where
  "rtt_options argv =
     (if length argv = 3 then atoi (argv ! 2) else DEFAULT_TIME_LIMIT,
      length argv = 4 \<and> argv ! 3 = ''y'')"

section \<open>Set-up\<close>

definition rtt_init :: prober where
  "rtt_init =
     \<lparr>sockets = [], unique_count = 0, sendQ = \<lparr>front = [], qcount = 0\<rparr>,
      ip_proto_map = \<lparr>ip_buckets = replicate HASH_MAP_SZ \<lparr>ip_head = [], ip_capacity = 0\<rparr>,
                      ip_map_size = HASH_MAP_SZ\<rparr>,
      ipv4_count = 0, ipv6_count = 0, ipv4_fail = 0, ipv6_fail = 0, stop_threads = False,
      tot_send_cnt = 0, send_done = False, recv4_done = False, recv6_done = False\<rparr>"

text \<open>The loop of lines 112 to 148. A slot of \<open>sockets\<close> that was not counted is written again.\<close>

definition add_host :: "(bool \<Rightarrow> string \<Rightarrow> string option) \<Rightarrow> ip_struct \<Rightarrow> prober \<Rightarrow> prober res" where
  "add_host pton i st =
     rbind (ip_find_in_map (ip_proto_map st) (ip_text i)) (\<lambda>found.
     if found \<noteq> None then Inr st
     else
       let p = initIp pton i; st = st\<lparr>sockets := take (unique_count st) (sockets st) @ [p]\<rparr> in
       rbind (ip_insert_into_map True (ip_proto_map st) (paddr p) (unique_count st)) (\<lambda>(res, m).
       let st = st\<lparr>ip_proto_map := m\<rparr> in
       if res = -1 then Inl (Exit_failure ''insert_into_map'')
       else if res = 0 then
         Inr (if is_icmp4 p
              then st\<lparr>ipv4_count := ipv4_count st + 1, unique_count := unique_count st + 1\<rparr>
              else st\<lparr>ipv6_count := ipv6_count st + 1, unique_count := unique_count st + 1\<rparr>)
       else Inr st))"

text \<open>Lines 112 to 163.\<close>

definition rtt_setup :: "(bool \<Rightarrow> string \<Rightarrow> string option) \<Rightarrow> ip_struct list \<Rightarrow> prober res" where
  "rtt_setup pton list =
     rbind (rfold (add_host pton) list rtt_init) (\<lambda>st.
     Inr (st\<lparr>sendQ := fold (\<lambda>i q. push_job q i) [0..<unique_count st] (sendQ st)\<rparr>))"

section \<open>The threads\<close>

definition count_fail :: "bool \<Rightarrow> prober \<Rightarrow> prober" where
  "count_fail v4 st = (if v4 then st\<lparr>ipv4_fail := ipv4_fail st + 1\<rparr> else st\<lparr>ipv6_fail := ipv6_fail st + 1\<rparr>)"

text \<open>
  One iteration of \<open>sendHelper\<close>; \<open>ok\<close> is whether \<open>fsend\<close> returns 0. Both send functions have counted
  the request before they send it.
\<close>

definition sendHelper :: "bool \<Rightarrow> prober \<Rightarrow> prober res" where
  "sendHelper ok st =
     (if send_done st then Inr st
      else
      rbind
        (if 0 < qcount (sendQ st) then
           rbind (qFront (Some (sendQ st))) (\<lambda>frnt.
           case frnt of
             None \<Rightarrow> Inl Null_deref
           | Some i \<Rightarrow>
               let p = (sockets st ! i)\<lparr>nsent := nsent (sockets st ! i) + 1\<rparr>;
                   put = (\<lambda>q st. st\<lparr>sockets := (sockets st)[i := q]\<rparr>)
               in
               if ok then
                 rbind (qPop (sendQ st)) (\<lambda>q.
                 Inr (put p (st\<lparr>sendQ := q, tot_send_cnt := tot_send_cnt st + 1\<rparr>)))
               else
                 let st = st\<lparr>tot_send_cnt := tot_send_cnt st + 1\<rparr> in
                 if nsent p = 3 then
                   rbind (qPop (sendQ st)) (\<lambda>q.
                   Inr (count_fail (is_icmp4 p) (put (p\<lparr>nsent := nsent p + 1\<rparr>) (st\<lparr>sendQ := q\<rparr>))))
                 else if nsent p < 3 then
                   rbind (set_rtt (nsent p) (-1) p) (\<lambda>p. Inr (put (p\<lparr>nsent := nsent p + 1\<rparr>) st))
                 else Inr (put p st))
         else Inr (if stop_threads st then st\<lparr>send_done := True\<rparr> else st))
        (\<lambda>st. Inr (if tot_send_cnt st = 3 * int (unique_count st) then st\<lparr>send_done := True\<rparr> else st)))"

text \<open>A received message: the text of its source address, the bytes, their number, the time.\<close>

type_synonym datagram = "string \<times> bytes \<times> int \<times> timeval"

definition fproc :: "int \<Rightarrow> proto \<Rightarrow> datagram \<Rightarrow> (int \<times> proto) res" where
  "fproc pid p d =
     (case d of (_, ptr, len, tv) \<Rightarrow> if is_icmp4 p then procV4 pid ptr len p tv else procV6 pid ptr len p tv)"

text \<open>One iteration of \<open>ip4RecvHelper\<close> (\<open>v4\<close>) or \<open>ip6RecvHelper\<close>; \<open>None\<close> is a call that receives nothing.\<close>

definition recv_done :: "bool \<Rightarrow> prober \<Rightarrow> prober" where
  "recv_done v4 st = (if v4 then st\<lparr>recv4_done := True\<rparr> else st\<lparr>recv6_done := True\<rparr>)"

definition waiting_for :: "bool \<Rightarrow> prober \<Rightarrow> int" where
  "waiting_for v4 st = (if v4 then ipv4_count st - ipv4_fail st else ipv6_count st - ipv6_fail st)"

definition ipRecvHelper :: "bool \<Rightarrow> int \<Rightarrow> datagram option \<Rightarrow> prober \<Rightarrow> prober res" where
  "ipRecvHelper v4 pid d st =
     (if (if v4 then recv4_done st else recv6_done st) then Inr st
      else if waiting_for v4 st \<le> 0 then Inr (recv_done v4 st)
      else
        case d of
          None \<Rightarrow> Inr (if stop_threads st then recv_done v4 st else st)
        | Some dg \<Rightarrow>
            rbind (ip_find_in_map (ip_proto_map st) (fst dg)) (\<lambda>found.
            case found of
              None \<Rightarrow> Inr st
            | Some i \<Rightarrow>
                rbind (fproc pid (sockets st ! i) dg) (\<lambda>(proc_res, p).
                let st = st\<lparr>sockets := (sockets st)[i := p]\<rparr> in
                if proc_res = -1 then Inl (Exit_failure ''proc'')
                else if nsent p < 3 then Inr (st\<lparr>sendQ := push_job (sendQ st) i\<rparr>)
                else if nsent p = 3 then
                  let st = st\<lparr>sockets := (sockets st)[i := p\<lparr>nsent := nsent p + 1\<rparr>]\<rparr> in
                  Inr (if v4 then st\<lparr>ipv4_count := ipv4_count st - 1\<rparr> else st\<lparr>ipv6_count := ipv6_count st - 1\<rparr>)
                else Inr st)))"

datatype probe_event = Send bool | Recv bool "datagram option" | Alarm

fun probe_step :: "int \<Rightarrow> probe_event \<Rightarrow> prober \<Rightarrow> prober res" where
  "probe_step pid (Send ok) st = sendHelper ok st"
| "probe_step pid (Recv v4 d) st = ipRecvHelper v4 pid d st"
| "probe_step pid Alarm st = Inr (st\<lparr>stop_threads := True\<rparr>)"

text \<open>What \<open>printRtts\<close> prints for each host, \<open>None\<close> for a star, and how many stars it counts.\<close>

definition printRtts :: "prober \<Rightarrow> (string \<times> int option list) list \<times> nat" where
  "printRtts st =
     (let lines = map (\<lambda>p. (paddr p, map (\<lambda>v. if v = -1 then None else Some v) (rtt p)))
                    (take (unique_count st) (sockets st))
      in (lines, length (filter (\<lambda>v. v = None) (concat (map snd lines)))))"

section \<open>The invariant of a run without losses\<close>

text \<open>How many replies of a host have been recorded; a queued host waits for its next request.\<close>

definition recorded :: "bool \<Rightarrow> proto \<Rightarrow> int" where
  "recorded queued p = (if queued then nsent p else if nsent p = 4 then 3 else nsent p - 1)"

definition host_ok :: "bool \<Rightarrow> proto \<Rightarrow> bool" where
  "host_ok queued p \<longleftrightarrow>
     0 \<le> nsent p \<and> nsent p \<le> 4 \<and> length (rtt p) = 3 \<and> (queued \<longrightarrow> nsent p \<le> 2) \<and> (\<not> queued \<longrightarrow> 1 \<le> nsent p) \<and>
     (\<forall>j < 3. if int j < recorded queued p then 0 \<le> rtt p ! j else rtt p ! j = -1)"

definition unfinished :: "bool \<Rightarrow> proto \<Rightarrow> int" where
  "unfinished v4 p = (if is_icmp4 p = v4 \<and> nsent p \<le> 3 then 1 else 0)"

definition requests :: "proto \<Rightarrow> int" where
  "requests p = min 3 (nsent p)"

abbreviation tally :: "(proto \<Rightarrow> int) \<Rightarrow> nat \<Rightarrow> proto list \<Rightarrow> int" where
  "tally f n ps \<equiv> (\<Sum>i < n. f (ps ! i))"

lemma tally_update:
  assumes "i < n" "n \<le> length ps"
  shows "tally f n (ps[i := p]) = tally f n ps - f (ps ! i) + f p"
proof -
  have "tally f n (ps[i := p]) = f (ps[i := p] ! i) + (\<Sum>j \<in> {..<n} - {i}. f (ps[i := p] ! j))"
    using assms(1) by (intro sum.remove) auto
  also have "(\<Sum>j \<in> {..<n} - {i}. f (ps[i := p] ! j)) = (\<Sum>j \<in> {..<n} - {i}. f (ps ! j))"
    by (intro sum.cong) auto
  also have "tally f n ps = f (ps ! i) + (\<Sum>j \<in> {..<n} - {i}. f (ps ! j))"
    using assms(1) by (intro sum.remove) auto
  ultimately show ?thesis using assms by simp
qed

definition hosts_known :: "nat ip_map \<Rightarrow> nat \<Rightarrow> proto list \<Rightarrow> bool" where
  "hosts_known m n ps \<longleftrightarrow> wf_ip_map m \<and> n \<le> length ps \<and>
     (\<forall>a i. ip_alpha m a = Some i \<longleftrightarrow> i < n \<and> paddr (ps ! i) = a)"

definition counts_ok :: "prober \<Rightarrow> bool" where
  "counts_ok st \<longleftrightarrow>
     ipv4_count st = tally (unfinished True) (unique_count st) (sockets st) \<and>
     ipv6_count st = tally (unfinished False) (unique_count st) (sockets st) \<and>
     ipv4_fail st = 0 \<and> ipv6_fail st = 0 \<and>
     tot_send_cnt st = tally requests (unique_count st) (sockets st)"

definition prober_ok :: "prober \<Rightarrow> bool" where
  "prober_ok st \<longleftrightarrow>
     wf_queue (sendQ st) \<and> distinct (front (sendQ st)) \<and> (\<forall>i \<in> set (front (sendQ st)). i < unique_count st) \<and>
     hosts_known (ip_proto_map st) (unique_count st) (sockets st) \<and>
     (\<forall>i < unique_count st. host_ok (i \<in> set (front (sendQ st))) (sockets st ! i)) \<and> counts_ok st"

lemma hosts_known_update:
  "hosts_known m n ps \<Longrightarrow> paddr p = paddr (ps ! i) \<Longrightarrow> hosts_known m n (ps[i := p])"
proof -
  assume *: "hosts_known m n ps" "paddr p = paddr (ps ! i)"
  have "paddr (ps[i := p] ! j) = paddr (ps ! j)" if "j < n" for j
    using * that by (cases "j = i") (auto simp: hosts_known_def)
  with * show ?thesis by (auto simp: hosts_known_def)
qed

text \<open>
  An event of a run without losses: every send succeeds, and a message from a known host is the reply
  to that host's outstanding request.
\<close>

definition answers :: "int \<Rightarrow> bool \<Rightarrow> datagram \<Rightarrow> prober \<Rightarrow> nat \<Rightarrow> bool" where
  "answers pid v4 d st i \<longleftrightarrow>
     i \<notin> set (front (sendQ st)) \<and> 1 \<le> nsent (sockets st ! i) \<and> nsent (sockets st ! i) \<le> 3 \<and>
     is_icmp4 (sockets st ! i) = v4 \<and>
     (\<exists>v \<ge> 0. fproc pid (sockets st ! i) d =
        Inr (0, (sockets st ! i)\<lparr>rtt := (rtt (sockets st ! i))[nat (nsent (sockets st ! i) - 1) := v]\<rparr>))"

fun lossless :: "int \<Rightarrow> probe_event \<Rightarrow> prober \<Rightarrow> bool" where
  "lossless pid (Send ok) st = ok"
| "lossless pid (Recv v4 None) st = True"
| "lossless pid (Recv v4 (Some d)) st =
     (case ip_alpha (ip_proto_map st) (fst d) of None \<Rightarrow> True | Some i \<Rightarrow> answers pid v4 d st i)"
| "lossless pid Alarm st = True"

lemma prober_ok_hosts:
  assumes "prober_ok st" "i < unique_count st"
  shows "i < length (sockets st)" "host_ok (i \<in> set (front (sendQ st))) (sockets st ! i)"
  using assms by (auto simp: prober_ok_def hosts_known_def)

lemma sendHelper_ok:
  assumes ok: "prober_ok st"
  shows "\<exists>st'. sendHelper True st = Inr st' \<and> prober_ok st'"
proof (cases "send_done st")
  case True
  with ok show ?thesis by (simp add: sendHelper_def)
next
  case running: False
  have fin: "prober_ok (if c then s\<lparr>send_done := True\<rparr> else s) = prober_ok s" for c s
    by (simp add: prober_ok_def counts_ok_def)
  show ?thesis
  proof (cases "front (sendQ st)")
    case Nil
    then have "qcount (sendQ st) = 0" using ok by (simp add: prober_ok_def wf_queue_def)
    with running ok fin show ?thesis by (auto simp: sendHelper_def)
  next
    case (Cons i js)
    let ?p = "sockets st ! i"
    let ?p' = "?p\<lparr>nsent := nsent ?p + 1\<rparr>"
    let ?q = "\<lparr>front = js, qcount = length js\<rparr>"
    let ?st = "st\<lparr>sendQ := ?q, tot_send_cnt := tot_send_cnt st + 1, sockets := (sockets st)[i := ?p']\<rparr>"
    have q: "qcount (sendQ st) = Suc (length js)" "i < unique_count st" "i \<notin> set js" "distinct js"
      using ok Cons by (auto simp: prober_ok_def wf_queue_def)
    note h = prober_ok_hosts [OF ok q(2)]
    have n: "0 \<le> nsent ?p" "nsent ?p \<le> 2" using h(2) Cons by (auto simp: host_ok_def)
    have known: "hosts_known (ip_proto_map st) (unique_count st) (sockets st)" using ok by (simp add: prober_ok_def)
    have "host_ok False ?p'" using h(2) Cons n by (auto simp: host_ok_def recorded_def)
    moreover have "host_ok (j \<in> set js) (sockets st ! j)" if "j < unique_count st" "j \<noteq> i" for j
      using prober_ok_hosts(2) [OF ok that(1)] that(2) Cons by simp
    moreover have "unfinished w ?p' = unfinished w ?p" "requests ?p' = requests ?p + 1" for w
      using n by (auto simp: unfinished_def requests_def)
    then have "counts_ok ?st"
      using ok known q(2) by (simp add: prober_ok_def counts_ok_def hosts_known_def tally_update)
    moreover have "hosts_known (ip_proto_map st) (unique_count st) ((sockets st)[i := ?p'])"
      by (rule hosts_known_update [OF known]) simp
    ultimately have "prober_ok ?st"
      using q ok Cons h(1) by (auto simp: prober_ok_def wf_queue_def nth_list_update)
    moreover have "qFront (Some (sendQ st)) = Inr (Some i)" "qPop (sendQ st) = Inr ?q"
      using q(1) Cons by (simp_all add: qFront_def qPop_def)
    ultimately show ?thesis using running q(1) fin by (auto simp: sendHelper_def Let_def)
  qed
qed

lemma ipRecvHelper_ok:
  assumes ok: "prober_ok st" and good: "lossless pid (Recv v4 d) st"
  shows "\<exists>st'. ipRecvHelper v4 pid d st = Inr st' \<and> prober_ok st'"
proof -
  have fin: "prober_ok (recv_done v4 s) = prober_ok s" for s
    by (simp add: recv_done_def prober_ok_def counts_ok_def)
  have known: "hosts_known (ip_proto_map st) (unique_count st) (sockets st)" using ok by (simp add: prober_ok_def)
  then have find: "ip_find_in_map (ip_proto_map st) a = Inr (ip_alpha (ip_proto_map st) a)" for a
    by (simp add: hosts_known_def hosts.lookup_alpha)
  consider "(if v4 then recv4_done st else recv6_done st) \<or> waiting_for v4 st \<le> 0 \<or> d = None"
    | dg where "\<not> (if v4 then recv4_done st else recv6_done st)" "0 < waiting_for v4 st" "d = Some dg"
        "ip_alpha (ip_proto_map st) (fst dg) = None"
    | dg i where "\<not> (if v4 then recv4_done st else recv6_done st)" "0 < waiting_for v4 st" "d = Some dg"
        "ip_alpha (ip_proto_map st) (fst dg) = Some i"
  proof (cases "(if v4 then recv4_done st else recv6_done st) \<or> waiting_for v4 st \<le> 0 \<or> d = None")
    case True
    then show ?thesis by (rule that(1))
  next
    case False
    then obtain dg where dg: "d = Some dg" by auto
    show ?thesis
    proof (cases "ip_alpha (ip_proto_map st) (fst dg)")
      case None
      with False dg show ?thesis by (intro that(2)) auto
    next
      case (Some i)
      with False dg show ?thesis by (intro that(3)) auto
    qed
  qed
  then show ?thesis
  proof cases
    case 1
    let ?f = "if v4 then recv4_done st else recv6_done st"
    consider "?f" | "\<not> ?f" "waiting_for v4 st \<le> 0" | "\<not> ?f" "\<not> waiting_for v4 st \<le> 0" "d = None"
      using 1 by blast
    then show ?thesis
    proof cases
      case 3
      with ok fin [of st] show ?thesis
        by (cases "stop_threads st") (simp_all only: ipRecvHelper_def if_False if_True option.case, auto)
    qed (use ok fin [of st] in \<open>simp_all only: ipRecvHelper_def if_False if_True, auto\<close>)
  next
    case 2
    with ok find show ?thesis by (simp add: ipRecvHelper_def)
  next
    case (3 dg i)
    let ?p = "sockets st ! i"
    have i: "i < unique_count st" using known 3(4) by (auto simp: hosts_known_def)
    note h = prober_ok_hosts [OF ok i]
    from good 3 obtain v where a: "i \<notin> set (front (sendQ st))" "1 \<le> nsent ?p" "nsent ?p \<le> 3" "is_icmp4 ?p = v4" "0 \<le> v"
      and f: "fproc pid ?p dg = Inr (0, ?p\<lparr>rtt := (rtt ?p)[nat (nsent ?p - 1) := v]\<rparr>)"
      by (auto simp: answers_def)
    let ?p1 = "?p\<lparr>rtt := (rtt ?p)[nat (nsent ?p - 1) := v]\<rparr>"
    have slots: "rtt ?p1 ! j = (if int j = nsent ?p - 1 then v else rtt ?p ! j)" if "j < 3" for j
      using that a(2,3) h(2) by (auto simp: host_ok_def nth_list_update)
    have other: "host_ok (j \<in> set (front (sendQ st))) (sockets st ! j)" if "j < unique_count st" for j
      using prober_ok_hosts(2) [OF ok that] .
    show ?thesis
    proof (cases "nsent ?p < 3")
      case True
      let ?st = "st\<lparr>sockets := (sockets st)[i := ?p1], sendQ := push_job (sendQ st) i\<rparr>"
      have "host_ok True ?p1"
        using h(2) a True slots by (auto simp: host_ok_def recorded_def)
      moreover have "unfinished w ?p1 = unfinished w ?p" "requests ?p1 = requests ?p" for w
        by (simp_all add: unfinished_def requests_def)
      then have "counts_ok ?st"
        using ok known i by (simp add: prober_ok_def counts_ok_def hosts_known_def tally_update)
      moreover have "hosts_known (ip_proto_map st) (unique_count st) ((sockets st)[i := ?p1])"
        by (rule hosts_known_update [OF known]) simp
      moreover have "wf_queue (push_job (sendQ st) i)" "front (push_job (sendQ st) i) = i # front (sendQ st)"
        using jobs.push_contents [of "sendQ st" i] ok by (simp_all add: prober_ok_def)
      ultimately have "prober_ok ?st"
        using ok a(1) i h(1) other by (auto simp: prober_ok_def nth_list_update)
      with 3 find f True show ?thesis by (simp add: ipRecvHelper_def Let_def)
    next
      case False
      then have n3: "nsent ?p = 3" using a(3) by simp
      let ?p2 = "?p1\<lparr>nsent := 4\<rparr>"
      let ?s = "st\<lparr>sockets := (sockets st)[i := ?p2]\<rparr>"
      let ?st = "if v4 then ?s\<lparr>ipv4_count := ipv4_count st - 1\<rparr> else ?s\<lparr>ipv6_count := ipv6_count st - 1\<rparr>"
      have "host_ok False ?p2"
        using h(2) a n3 slots by (auto simp: host_ok_def recorded_def)
      moreover have "unfinished w ?p2 = unfinished w ?p - (if w = v4 then 1 else 0)" "requests ?p2 = requests ?p" for w
        using a(4) n3 by (auto simp: unfinished_def requests_def)
      then have "counts_ok ?st"
        using ok known i by (cases v4) (simp_all add: prober_ok_def counts_ok_def hosts_known_def tally_update)
      moreover have "hosts_known (ip_proto_map st) (unique_count st) ((sockets st)[i := ?p2])"
        by (rule hosts_known_update [OF known]) simp
      ultimately have "prober_ok ?st"
        using ok a(1) i h(1) other by (auto simp: prober_ok_def nth_list_update)
      with 3 find f n3 show ?thesis by (auto simp: ipRecvHelper_def Let_def)
    qed
  qed
qed

lemma probe_step_ok: "prober_ok st \<Longrightarrow> lossless pid e st \<Longrightarrow> \<exists>st'. probe_step pid e st = Inr st' \<and> prober_ok st'"
  using sendHelper_ok ipRecvHelper_ok by (cases e) (auto simp: prober_ok_def counts_ok_def)

section \<open>Set-up establishes the invariant\<close>

text \<open>The state while hosts are added: none has been sent to.\<close>

definition setup_ok :: "prober \<Rightarrow> bool" where
  "setup_ok st \<longleftrightarrow>
     sendQ st = \<lparr>front = [], qcount = 0\<rparr> \<and> hosts_known (ip_proto_map st) (unique_count st) (sockets st) \<and>
     (\<forall>i < unique_count st. nsent (sockets st ! i) = 0 \<and> rtt (sockets st ! i) = [-1, -1, -1]) \<and>
     counts_ok st \<and> \<not> stop_threads st"

lemma tally_append: "n \<le> length ps \<Longrightarrow> tally f (Suc n) (take n ps @ [p]) = tally f n ps + f p"
proof -
  assume "n \<le> length ps"
  then have "(\<Sum>i < n. f ((take n ps @ [p]) ! i)) = (\<Sum>i < n. f (ps ! i))"
    by (intro sum.cong) (auto simp: nth_append)
  with \<open>n \<le> length ps\<close> show ?thesis by (simp add: nth_append min_absorb2)
qed

lemma hosts_known_insert:
  assumes "hosts_known m n ps" "ip_alpha m' = (ip_alpha m)(a \<mapsto> n)" "wf_ip_map m'" "ip_alpha m a = None" "paddr p = a"
  shows "hosts_known m' (Suc n) (take n ps @ [p])"
proof -
  have len: "n \<le> length ps" using assms(1) by (simp add: hosts_known_def)
  have known: "ip_alpha m b = Some i \<longleftrightarrow> i < n \<and> paddr (ps ! i) = b" for b i
    using assms(1) by (simp add: hosts_known_def)
  have "ip_alpha m' b = Some i \<longleftrightarrow> i < Suc n \<and> paddr ((take n ps @ [p]) ! i) = b" for b i
  proof (cases "i = n")
    case True
    with assms(2,5) known [of b n] len show ?thesis by (auto simp: nth_append min_absorb2)
  next
    case False
    then have i: "i < Suc n \<longleftrightarrow> i < n" by auto
    show ?thesis
    proof (cases "b = a")
      case True
      with assms(2,4) known [of a i] i False len show ?thesis by (auto simp: nth_append min_absorb2)
    next
      case ne: False
      with assms(2) known [of b i] i len show ?thesis by (auto simp: nth_append min_absorb2)
    qed
  qed
  with assms(3) len show ?thesis by (simp add: hosts_known_def min_absorb2)
qed

lemma hosts_known_take: "hosts_known m n ps \<Longrightarrow> hosts_known m n (take n ps @ [p])"
  by (auto simp: hosts_known_def nth_append min_absorb2)

lemma add_host_ok:
  assumes ok: "setup_ok st"
  shows "\<exists>st'. add_host pton i st = Inr st' \<and> setup_ok st'"
proof -
  let ?m = "ip_proto_map st" and ?n = "unique_count st" and ?p = "initIp pton i"
  let ?ps = "take ?n (sockets st) @ [?p]"
  have known: "hosts_known ?m ?n (sockets st)" and len: "?n \<le> length (sockets st)" and wf: "wf_ip_map ?m"
    using ok by (auto simp: setup_ok_def hosts_known_def)
  have p: "nsent ?p = 0" "rtt ?p = [-1, -1, -1]" by (simp_all add: initIp_def)
  have same: "tally f ?n ?ps = tally f ?n (sockets st)" for f
    using len by (intro sum.cong) (auto simp: nth_append)
  show ?thesis
  proof (cases "ip_alpha ?m (ip_text i)")
    case (Some j)
    with ok show ?thesis by (simp add: add_host_def hosts.lookup_alpha [OF wf])
  next
    case absent: None
    show ?thesis
    proof (cases "ip_alpha ?m (paddr ?p)")
      case (Some j)
      let ?st = "st\<lparr>sockets := ?ps\<rparr>"
      have "setup_ok ?st"
        using ok hosts_known_take [OF known, of ?p] len
        by (auto simp: setup_ok_def counts_ok_def same nth_append)
      moreover have "ip_insert_into_map True ?m (paddr ?p) ?n = Inr (-2, ?m)"
        using Some by (intro ip_insert_present wf) simp
      ultimately show ?thesis
        using absent by (simp add: add_host_def hosts.lookup_alpha [OF wf] Let_def)
    next
      case None
      obtain m' where m': "ip_insert_into_map True ?m (paddr ?p) ?n = Inr (0, m')" "wf_ip_map m'"
          "ip_alpha m' = (ip_alpha ?m)(paddr ?p \<mapsto> ?n)"
        using ip_insert_fresh [OF wf None] by blast
      let ?s = "st\<lparr>sockets := ?ps, ip_proto_map := m'\<rparr>"
      let ?st = "if is_icmp4 ?p then ?s\<lparr>ipv4_count := ipv4_count st + 1, unique_count := ?n + 1\<rparr>
        else ?s\<lparr>ipv6_count := ipv6_count st + 1, unique_count := ?n + 1\<rparr>"
      have known': "hosts_known m' (Suc ?n) ?ps"
        by (rule hosts_known_insert [OF known m'(3,2) None refl])
      have "unfinished w ?p = (if is_icmp4 ?p = w then 1 else 0)" "requests ?p = 0" for w
        by (auto simp: unfinished_def requests_def p)
      moreover have "tally f (Suc ?n) ?ps = tally f ?n (sockets st) + f ?p" for f by (rule tally_append [OF len])
      ultimately have "counts_ok ?st"
        using ok by (cases "is_icmp4 ?p") (simp_all add: setup_ok_def counts_ok_def del: sum.lessThan_Suc)
      moreover have "nsent (?ps ! j) = 0 \<and> rtt (?ps ! j) = [-1, -1, -1]" if "j < Suc ?n" for j
        using that ok len p by (cases "j = ?n") (auto simp: setup_ok_def nth_append min_absorb2)
      ultimately have "setup_ok ?st" using ok known' by (cases "is_icmp4 ?p") (simp_all add: setup_ok_def)
      then show ?thesis
        using absent m'(1) by (auto simp: add_host_def hosts.lookup_alpha [OF wf] Let_def)
    qed
  qed
qed

lemma add_hosts_ok: "setup_ok st \<Longrightarrow> \<exists>st'. rfold (add_host pton) hs st = Inr st' \<and> setup_ok st'"
proof (induction hs arbitrary: st)
  case (Cons h hs)
  obtain st1 where "add_host pton h st = Inr st1" "setup_ok st1" using add_host_ok [OF Cons.prems] by blast
  with Cons.IH show ?case by auto
qed simp

lemma rtt_setup_ok:
  "\<exists>st. rtt_setup pton list = Inr st \<and> prober_ok st \<and> set (front (sendQ st)) = {..<unique_count st}"
proof -
  have m0: "ip_init_map True HASH_MAP_SZ = Some (ip_proto_map rtt_init)"
    by (simp add: ip_init_map_def rtt_init_def)
  have "wf_ip_map (ip_proto_map rtt_init)" and none: "\<And>a. ip_alpha (ip_proto_map rtt_init) a = None"
    using wf_ip_init [OF _ _ m0] by simp_all
  then have "setup_ok rtt_init"
    by (simp add: setup_ok_def hosts_known_def counts_ok_def) (simp add: rtt_init_def)
  from add_hosts_ok [OF this] obtain st where st: "rfold (add_host pton) list rtt_init = Inr st" "setup_ok st"
    by blast
  let ?q = "fold (\<lambda>i q. push_job q i) [0..<unique_count st] (sendQ st)"
  have "wf_queue (sendQ st)" "front (sendQ st) = []" using st(2) by (simp_all add: setup_ok_def wf_queue_def)
  with jobs.push_all [of "sendQ st" "[0..<unique_count st]"]
  have q: "wf_queue ?q" "front ?q = rev [0..<unique_count st]" by simp_all
  have host: "host_ok True (sockets st ! i)" if "i < unique_count st" for i
  proof -
    have "nsent (sockets st ! i) = 0" "rtt (sockets st ! i) = [-1, -1, -1]" using st(2) that by (simp_all add: setup_ok_def)
    then show ?thesis by (auto simp: host_ok_def recorded_def nth_Cons')
  qed
  have "prober_ok (st\<lparr>sendQ := ?q\<rparr>)"
    using q st(2) host by (auto simp: prober_ok_def setup_ok_def counts_ok_def)
  with st(1) q show ?thesis by (auto simp: rtt_setup_def)
qed

section \<open>Properties\<close>

fun lossless_run :: "int \<Rightarrow> probe_event list \<Rightarrow> prober \<Rightarrow> bool" where
  "lossless_run pid [] st = True"
| "lossless_run pid (e # es) st =
     (lossless pid e st \<and> (case probe_step pid e st of Inl _ \<Rightarrow> True | Inr st' \<Rightarrow> lossless_run pid es st'))"

lemma lossless_run_ok:
  "prober_ok st \<Longrightarrow> lossless_run pid es st \<Longrightarrow> \<exists>st'. rfold (probe_step pid) es st = Inr st' \<and> prober_ok st'"
proof (induction es arbitrary: st)
  case (Cons e es)
  obtain st1 where "probe_step pid e st = Inr st1" "prober_ok st1"
    using probe_step_ok [of st pid e] Cons.prems by auto
  with Cons show ?case by auto
qed simp

lemma all_recorded:
  assumes ok: "prober_ok st" and "waiting_for True st \<le> 0" "waiting_for False st \<le> 0"
  shows "snd (printRtts st) = 0 \<and> tot_send_cnt st = 3 * int (unique_count st)"
proof -
  let ?n = "unique_count st"
  have c: "tally (unfinished True) ?n (sockets st) \<le> 0" "tally (unfinished False) ?n (sockets st) \<le> 0"
    using assms by (simp_all add: prober_ok_def counts_ok_def waiting_for_def)
  have none: "unfinished v4 (sockets st ! i) = 0" if "i < ?n" for v4 i
  proof -
    have nn: "0 \<le> unfinished v4 p" for p v4 by (simp add: unfinished_def)
    have "tally (unfinished v4) ?n (sockets st) = 0"
      using c nn by (cases v4) (auto intro!: antisym sum_nonneg)
    then show ?thesis using that nn by (simp add: sum_nonneg_eq_0_iff)
  qed
  have finished: "nsent (sockets st ! i) = 4 \<and> (\<forall>v \<in> set (rtt (sockets st ! i)). v \<noteq> -1)" if "i < ?n" for i
  proof -
    have h: "host_ok (i \<in> set (front (sendQ st))) (sockets st ! i)" using prober_ok_hosts(2) [OF ok that] .
    have "nsent (sockets st ! i) = 4"
      using none [OF that, of "is_icmp4 (sockets st ! i)"] h by (auto simp: unfinished_def host_ok_def split: if_splits)
    moreover from this h have "i \<notin> set (front (sendQ st))" by (auto simp: host_ok_def)
    ultimately have "length (rtt (sockets st ! i)) = 3" "\<forall>j < 3. 0 \<le> rtt (sockets st ! i) ! j"
      using h by (simp_all add: host_ok_def recorded_def)
    then have "\<forall>v \<in> set (rtt (sockets st ! i)). v \<noteq> -1" by (force simp: in_set_conv_nth)
    with \<open>nsent (sockets st ! i) = 4\<close> show ?thesis by simp
  qed
  have len: "?n \<le> length (sockets st)" using ok by (simp add: prober_ok_def hosts_known_def)
  have "\<forall>v \<in> set (rtt p). v \<noteq> -1" if "p \<in> set (take ?n (sockets st))" for p
  proof -
    from that len obtain i where "i < ?n" "p = sockets st ! i" by (auto simp: in_set_conv_nth)
    with finished show ?thesis by simp
  qed
  then have "snd (printRtts st) = 0"
    by (auto simp: printRtts_def Let_def filter_empty_conv comp_def)
  moreover have "tally requests ?n (sockets st) = 3 * int ?n"
    using finished by (simp add: requests_def)
  ultimately show ?thesis using ok by (simp add: prober_ok_def counts_ok_def)
qed

text \<open>
  C6: without losses the prober measures everything. From the set-up of any address list, in any
  interleaving of sender and receivers in which sends succeed and every message of a known host answers
  its outstanding request, no step goes wrong; and once both receivers have nothing left to wait for,
  all three times of every host are recorded and the sender has sent exactly three requests per host.
\<close>

theorem lossless_run_measures_all:
  assumes "rtt_setup pton list = Inr st0" "lossless_run pid es st0"
  shows "\<exists>st. rfold (probe_step pid) es st0 = Inr st \<and>
     (waiting_for True st \<le> 0 \<and> waiting_for False st \<le> 0 \<longrightarrow>
        snd (printRtts st) = 0 \<and> tot_send_cnt st = 3 * int (unique_count st))"
proof -
  have "prober_ok st0" using rtt_setup_ok [of pton list] assms(1) by auto
  from lossless_run_ok [OF this assms(2)] all_recorded show ?thesis by blast
qed

section \<open>One host, measured and lost\<close>

text \<open>An echo reply with identifier 7 to a request sent at 5.9 seconds, and a receipt 123 ms later.\<close>

definition sample_reply :: bytes where
  "sample_reply = 0x45 # replicate 8 0 @ 1 # replicate 10 0 @ [0, 0, 0, 0, 7, 0, 0, 0] @
     [5, 0, 0, 0, 0, 0, 0, 0, 0xA0, 0xBB, 0x0D, 0, 0, 0, 0, 0]"

abbreviation sample_datagram :: datagram where
  "sample_datagram \<equiv> (''8.8.8.8'', sample_reply, 84, \<lparr>tv_sec = 6, tv_usec = 23500\<rparr>)"

lemma sample_reply_measures:
  "is_icmp4 p \<Longrightarrow> fproc 7 p sample_datagram = rbind (set_rtt (nsent p - 1) 123 p) (\<lambda>p. Inr (0, p))"
proof -
  assume v4: "is_icmp4 p"
  have f: "field sample_reply 0 1 = Inr [0x45]" "field sample_reply 9 1 = Inr [1]" "field sample_reply 20 1 = Inr [0]"
      "field sample_reply 24 2 = Inr [7, 0]"
      "field sample_reply 28 8 = Inr [5, 0, 0, 0, 0, 0, 0, 0]" "field sample_reply 36 8 = Inr [0xA0, 0xBB, 0x0D, 0, 0, 0, 0, 0]"
    by code_simp+
  have n: "le_val [0x45] = 69" "le_val [1] = 1" "le_val [0] = 0" "le_val [7, 0] = 7"
      "le_long [5, 0, 0, 0, 0, 0, 0, 0] = 5" "le_long [0xA0, 0xBB, 0x0D, 0, 0, 0, 0, 0] = 900000"
    by code_simp+
  have t: "tv_sub \<lparr>tv_sec = 6, tv_usec = 23500\<rparr> \<lparr>tv_sec = 5, tv_usec = 900000\<rparr> = Inr \<lparr>tv_sec = 0, tv_usec = 123500\<rparr>"
      "rtt_ms \<lparr>tv_sec = 0, tv_usec = 123500\<rparr> = Inr 123"
    by code_simp+
  show ?thesis using v4 by (simp add: fproc_def procV4_def record_rtt_def Let_def f n t del: le_val.simps One_nat_def)
qed

text \<open>The set-up of one IPv4 host whose address is printed as it was read.\<close>

lemma one_host_setup:
  "\<exists>m. rtt_setup (\<lambda>_ a. Some a) [\<lparr>isV4 = True, ip_text = a\<rparr>] =
      Inr (rtt_init\<lparr>sockets := [\<lparr>is_icmp4 = True, paddr = a, nsent = 0, rtt = [-1, -1, -1]\<rparr>], ip_proto_map := m,
        ipv4_count := 1, unique_count := 1, sendQ := \<lparr>front = [0], qcount = 1\<rparr>\<rparr>) \<and>
    wf_ip_map m \<and> ip_alpha m = [a \<mapsto> 0]"
proof -
  let ?m0 = "ip_proto_map rtt_init"
  have "ip_init_map True HASH_MAP_SZ = Some ?m0" by (simp add: ip_init_map_def rtt_init_def)
  then have wf: "wf_ip_map ?m0" and none: "\<And>b. ip_alpha ?m0 b = None" using wf_ip_init [of HASH_MAP_SZ ?m0] by simp_all
  obtain m where m: "ip_insert_into_map True ?m0 a (0 :: nat) = Inr (0, m)" "wf_ip_map m" "ip_alpha m = (ip_alpha ?m0)(a \<mapsto> 0)"
    using ip_insert_fresh [OF wf none] by blast
  have "ip_alpha ?m0 = Map.empty" using none by (rule ext)
  moreover have init: "unique_count rtt_init = 0" "sockets rtt_init = []" "sendQ rtt_init = \<lparr>front = [], qcount = 0\<rparr>"
      "ipv4_count rtt_init = 0"
    by (simp_all add: rtt_init_def)
  ultimately show ?thesis
    using m by (intro exI [of _ m])
      (simp add: rtt_setup_def add_host_def hosts.lookup_alpha [OF wf] none initIp_def Let_def push_job_def qPush_def)
qed

text \<open>The three requests and replies of this host.\<close>

definition sample_events :: "probe_event list" where
  "sample_events = [Send True, Recv True (Some sample_datagram), Send True, Recv True (Some sample_datagram), Send True,
     Recv True (Some sample_datagram)]"

lemma sample_run:
  "\<exists>st0 st. rtt_setup (\<lambda>_ a. Some a) [\<lparr>isV4 = True, ip_text = ''8.8.8.8''\<rparr>] = Inr st0 \<and> lossless_run 7 sample_events st0 \<and>
     rfold (probe_step 7) sample_events st0 = Inr st \<and> map rtt (sockets st) = [[123, 123, 123]] \<and>
     waiting_for True st \<le> 0 \<and> waiting_for False st \<le> 0 \<and> unique_count st = 1"
proof -
  let ?p = "\<lambda>n r. \<lparr>is_icmp4 = True, paddr = ''8.8.8.8'', nsent = n, rtt = r\<rparr>"
  obtain m where su: "rtt_setup (\<lambda>_ a. Some a) [\<lparr>isV4 = True, ip_text = ''8.8.8.8''\<rparr>] =
      Inr (rtt_init\<lparr>sockets := [?p 0 [-1, -1, -1]], ip_proto_map := m, ipv4_count := 1, unique_count := 1,
        sendQ := \<lparr>front = [0], qcount = 1\<rparr>\<rparr>)"
    and m: "wf_ip_map m" "ip_alpha m = [''8.8.8.8'' \<mapsto> 0]"
    using one_host_setup [of "''8.8.8.8''"] by blast
  let ?start = "rtt_init\<lparr>sockets := [?p 0 [-1, -1, -1]], ip_proto_map := m, ipv4_count := 1, unique_count := 1,
        sendQ := \<lparr>front = [0], qcount = 1\<rparr>\<rparr>"
  have find: "ip_find_in_map m a = Inr (ip_alpha m a)" for a
    using hosts.lookup_alpha [OF m(1)] by simp
  let ?st = "\<lambda>q c s p d. rtt_init\<lparr>sockets := [p], ip_proto_map := m, ipv4_count := c, unique_count := 1,
        sendQ := \<lparr>front = q, qcount = length q\<rparr>, tot_send_cnt := s, send_done := d\<rparr>"
  have init: "\<not> stop_threads rtt_init" "\<not> recv4_done rtt_init" "\<not> send_done rtt_init" "ipv4_fail rtt_init = 0"
      "ipv6_fail rtt_init = 0" "ipv6_count rtt_init = 0" "tot_send_cnt rtt_init = 0"
    by (simp_all add: rtt_init_def)
  define S where "S = ?st"
  have st0: "?start = S [0] 1 0 (?p 0 [-1, -1, -1]) False" by (simp add: S_def rtt_init_def)
  have send: "probe_step 7 (Send True) (S [0] 1 s (?p n r) False) = Inr (S [] 1 (s + 1) (?p (n + 1) r) (s + 1 = 3))"
    for s n r
    by (simp add: S_def sendHelper_def qFront_def qPop_def Let_def init)
  have f: "fproc 7 (?p n r) sample_datagram = rbind (set_rtt (n - 1) 123 (?p n r)) (\<lambda>p. Inr (0, p))" for n r
    by (simp add: sample_reply_measures)
  have recv: "probe_step 7 (Recv True (Some sample_datagram)) (S [] 1 n (?p n r) d) =
       Inr (if n < 3 then S [0] 1 n (?p n (r[nat (n - 1) := 123])) d
            else S [] 0 n (?p 4 (r[nat (n - 1) := 123])) d)"
    if "1 \<le> n" "n \<le> 3" for n r d
    using that by (simp add: S_def ipRecvHelper_def waiting_for_def find m f set_rtt_def Let_def init push_job_def qPush_def)
  have good: "lossless 7 (Recv True (Some sample_datagram)) (S [] 1 n (?p n r) d)" if "1 \<le> n" "n \<le> 3" for n r d
    using that by (simp add: S_def m answers_def f set_rtt_def) (rule exI [of _ 123], simp)
  have final: "rfold (probe_step 7) sample_events ?start = Inr (S [] 0 3 (?p 4 [123, 123, 123]) True)"
    unfolding st0 by (simp add: sample_events_def send recv del: probe_step.simps)
  have sends: "lossless 7 (Send True) s" for s by simp
  have "lossless_run 7 sample_events ?start"
    unfolding st0 by (simp add: sample_events_def send recv good sends del: lossless.simps probe_step.simps)
  then show ?thesis using final su by (simp add: S_def waiting_for_def init)
qed

theorem lossless_run_measures_all_witness:
  "\<exists>st0 st. rtt_setup (\<lambda>_ a. Some a) [\<lparr>isV4 = True, ip_text = ''8.8.8.8''\<rparr>] = Inr st0 \<and>
     rfold (probe_step 7) sample_events st0 = Inr st \<and>
     map rtt (sockets st) = [[123, 123, 123]] \<and> snd (printRtts st) = 0 \<and> tot_send_cnt st = 3"
proof -
  obtain st0 st where run: "rtt_setup (\<lambda>_ a. Some a) [\<lparr>isV4 = True, ip_text = ''8.8.8.8''\<rparr>] = Inr st0"
      "lossless_run 7 sample_events st0" "rfold (probe_step 7) sample_events st0 = Inr st"
      "map rtt (sockets st) = [[123, 123, 123]]" "waiting_for True st \<le> 0" "waiting_for False st \<le> 0" "unique_count st = 1"
    using sample_run by (elim exE conjE) (rule that; assumption)
  from lossless_run_measures_all [OF run(1,2)] run(3-7) have "snd (printRtts st) = 0" "tot_send_cnt st = 3" by auto
  with run show ?thesis by (intro exI [of _ st0] exI [of _ st] conjI)
qed

text \<open>
  A host whose sends fail is given up after two requests, not after three: from the front of the
  queue, two failing iterations of \<open>sendHelper\<close> remove it and count it as failed. The third try is
  missing because \<open>nsent\<close> is raised by the send function and again by the retry branch.
\<close>

theorem two_failed_sends_give_up:
  assumes "\<not> send_done st" "front (sendQ st) = i # js" "qcount (sendQ st) = Suc (length js)"
    and "i < length (sockets st)" "nsent (sockets st ! i) = 0" "tot_send_cnt st + 2 < 3 * int (unique_count st)"
  shows "rfold (probe_step pid) [Send False, Send False] st =
     Inr (count_fail (is_icmp4 (sockets st ! i))
       (st\<lparr>sockets := (sockets st)[i := (sockets st ! i)\<lparr>rtt := (rtt (sockets st ! i))[1 := -1], nsent := 4\<rparr>],
           sendQ := \<lparr>front = js, qcount = length js\<rparr>, tot_send_cnt := tot_send_cnt st + 2\<rparr>))"
proof -
  let ?p = "sockets st ! i"
  let ?st = "st\<lparr>sockets := (sockets st)[i := ?p\<lparr>rtt := (rtt ?p)[1 := -1], nsent := 2\<rparr>], tot_send_cnt := tot_send_cnt st + 1\<rparr>"
  have 1: "probe_step pid (Send False) st = Inr ?st"
    using assms by (simp add: sendHelper_def qFront_def set_rtt_def Let_def)
  have "probe_step pid (Send False) ?st = Inr (count_fail (is_icmp4 ?p)
       (st\<lparr>sockets := (sockets st)[i := ?p\<lparr>rtt := (rtt ?p)[1 := -1], nsent := 4\<rparr>],
           sendQ := \<lparr>front = js, qcount = length js\<rparr>, tot_send_cnt := tot_send_cnt st + 2\<rparr>))"
    using assms by (simp add: sendHelper_def qFront_def qPop_def count_fail_def Let_def)
  with 1 show ?thesis by simp
qed

theorem two_failed_sends_give_up_witness:
  "\<exists>m. rfold (probe_step 7) [Send False, Send False]
     (rtt_init\<lparr>sockets := [\<lparr>is_icmp4 = True, paddr = ''::1'', nsent = 0, rtt = [-1, -1, -1]\<rparr>],
        ip_proto_map := m, ipv4_count := 1, unique_count := 1, sendQ := \<lparr>front = [0], qcount = 1\<rparr>\<rparr>) =
   Inr (rtt_init\<lparr>sockets := [\<lparr>is_icmp4 = True, paddr = ''::1'', nsent = 4, rtt = [-1, -1, -1]\<rparr>],
        ip_proto_map := m, ipv4_count := 1, unique_count := 1, sendQ := \<lparr>front = [], qcount = 0\<rparr>,
        tot_send_cnt := 2, ipv4_fail := 1\<rparr>)"
  using two_failed_sends_give_up [of "rtt_init\<lparr>sockets := [\<lparr>is_icmp4 = True, paddr = ''::1'', nsent = 0,
      rtt = [-1, -1, -1]\<rparr>], unique_count := 1, ipv4_count := 1, sendQ := \<lparr>front = [0], qcount = 1\<rparr>\<rparr>" 0 "[]" 7]
  by (intro exI [of _ "ip_proto_map rtt_init"]) (simp add: rtt_init_def count_fail_def)

text \<open>
  A failing second send leads to a write outside the array of RTTs. With one request sent and its
  host at the front of the queue, a failing send raises \<open>nsent\<close> to 3 and the repeated send to 4; the
  reply to it, which has any effect of an echo reply with an RTT, is stored at index 3 of three.
\<close>

theorem retry_then_reply_out_of_bounds:
  assumes "\<not> send_done st" "front (sendQ st) = i # js" "qcount (sendQ st) = Suc (length js)"
    and "i < length (sockets st)" "nsent (sockets st ! i) = 1" "tot_send_cnt st + 2 < 3 * int (unique_count st)"
    and "\<not> recv4_done st" "0 < waiting_for True st" "ip_find_in_map (ip_proto_map st) (fst d) = Inr (Some i)"
    and "\<And>p. is_icmp4 p = is_icmp4 (sockets st ! i) \<Longrightarrow>
           fproc pid p d = rbind (set_rtt (nsent p - 1) v p) (\<lambda>p. Inr (0, p))"
  shows "rfold (probe_step pid) [Send False, Send True, Recv True (Some d)] st = Inl Out_of_bounds"
proof -
  let ?p = "sockets st ! i"
  let ?st = "st\<lparr>sockets := (sockets st)[i := ?p\<lparr>rtt := (rtt ?p)[2 := -1], nsent := 3\<rparr>], tot_send_cnt := tot_send_cnt st + 1\<rparr>"
  let ?st2 = "st\<lparr>sockets := (sockets st)[i := ?p\<lparr>rtt := (rtt ?p)[2 := -1], nsent := 4\<rparr>],
      sendQ := \<lparr>front = js, qcount = length js\<rparr>, tot_send_cnt := tot_send_cnt st + 2\<rparr>"
  have 1: "probe_step pid (Send False) st = Inr ?st"
    using assms by (simp add: sendHelper_def qFront_def set_rtt_def Let_def)
  have 2: "probe_step pid (Send True) ?st = Inr ?st2"
    using assms by (simp add: sendHelper_def qFront_def qPop_def Let_def)
  have f: "fproc pid (?p\<lparr>rtt := (rtt ?p)[2 := -1], nsent := 4\<rparr>) d = Inl Out_of_bounds"
    by (subst assms(10)) (simp_all add: set_rtt_def)
  then have "probe_step pid (Recv True (Some d)) ?st2 = Inl Out_of_bounds"
    using assms(4,7-9) by (simp add: ipRecvHelper_def waiting_for_def)
  with 1 2 show ?thesis by simp
qed

theorem retry_then_reply_out_of_bounds_witness:
  "\<exists>m. rfold (probe_step 7) [Send False, Send True, Recv True (Some sample_datagram)]
     (rtt_init\<lparr>sockets := [\<lparr>is_icmp4 = True, paddr = ''8.8.8.8'', nsent = 1, rtt = [20, -1, -1]\<rparr>],
        ip_proto_map := m, ipv4_count := 2, unique_count := 2, tot_send_cnt := 1,
        sendQ := \<lparr>front = [0], qcount = 1\<rparr>\<rparr>) = Inl Out_of_bounds"
proof -
  obtain m where m: "wf_ip_map m" "ip_alpha m = [''8.8.8.8'' \<mapsto> 0 :: nat]" using one_host_setup by blast
  let ?st = "rtt_init\<lparr>sockets := [\<lparr>is_icmp4 = True, paddr = ''8.8.8.8'', nsent = 1, rtt = [20, -1, -1]\<rparr>],
        ip_proto_map := m, ipv4_count := 2, unique_count := 2, tot_send_cnt := 1,
        sendQ := \<lparr>front = [0], qcount = 1\<rparr>\<rparr>"
  have "ip_find_in_map m ''8.8.8.8'' = Inr (Some 0)" using hosts.lookup_alpha [OF m(1)] m(2) by simp
  then have "rfold (probe_step 7) [Send False, Send True, Recv True (Some sample_datagram)] ?st = Inl Out_of_bounds"
    by (intro retry_then_reply_out_of_bounds [where i = 0 and js = "[]" and v = 123] sample_reply_measures)
      (simp_all add: waiting_for_def rtt_init_def)
  then show ?thesis by blast
qed

text \<open>
  The ping of another program ends the prober. An echo reply from a measured IPv4 host whose
  identifier is not the prober's makes \<open>procV4\<close> return -1, and the receiver then leaves through
  \<open>cleanupAndExit\<close>; ignoring it would be the behaviour of the branch for other messages.
\<close>

theorem foreign_ping_ends_prober:
  assumes "\<not> recv4_done st" "0 < waiting_for True st"
    and "ip_find_in_map (ip_proto_map st) src = Inr (Some i)" "is_icmp4 (sockets st ! i)"
    and "length hdr = 20" "le_val [hdr ! 0] mod 16 = 5" "hdr ! 9 = 1" "length ck = 2"
    and "0 \<le> other" "other < 65536" "other \<noteq> pid mod 65536" "28 \<le> len"
  shows "probe_step pid (Recv True (Some (src, hdr @ [0, 0] @ ck @ le_bytes 2 other @ rest, len, tv))) st =
     Inl (Exit_failure ''proc'')"
proof -
  let ?ptr = "hdr @ [0, 0] @ ck @ le_bytes 2 other @ rest"
  obtain h hs where h: "hdr = h # hs" using assms(5) by (cases hdr) auto
  have "field ?ptr 0 1 = Inr [hdr ! 0]" by (simp add: field_def h)
  moreover have "field ?ptr 9 1 = Inr [1]"
    using assms(5,7) by (simp add: field_def take_Suc hd_drop_conv_nth)
  moreover have "field ?ptr 20 1 = Inr [0]" using field_at [of hdr 20 "[0]" 1] assms(5) by simp
  moreover have "field ?ptr 24 2 = Inr (le_bytes 2 other)"
    using field_at [of "hdr @ [0, 0] @ ck" 24 "le_bytes 2 other" 2] assms(5,8) by simp
  moreover have "nat (le_val [hdr ! 0] mod 16 * 4) = 20" using assms(6) by simp
  moreover have "le_val (le_bytes 2 other) = other" using assms(9,10) by (simp add: le_val_le_bytes)
  ultimately have "procV4 pid ?ptr len (sockets st ! i) tv = Inr (-1, sockets st ! i)"
    using assms(11,12) by (simp add: procV4_def Let_def le_val_byte del: le_val.simps(2) One_nat_def)
  with assms(1-4) show ?thesis by (simp add: ipRecvHelper_def fproc_def)
qed

theorem foreign_ping_ends_prober_witness:
  "\<exists>m. probe_step 7 (Recv True (Some (''8.8.8.8'', (0x45 # replicate 8 0 @ 1 # replicate 10 0) @ [0, 0] @ [0, 0] @
        le_bytes 2 9 @ [0, 1], 28, \<lparr>tv_sec = 6, tv_usec = 0\<rparr>)))
     (rtt_init\<lparr>sockets := [\<lparr>is_icmp4 = True, paddr = ''8.8.8.8'', nsent = 1, rtt = [-1, -1, -1]\<rparr>],
        ip_proto_map := m, ipv4_count := 1, unique_count := 1, tot_send_cnt := 1\<rparr>) = Inl (Exit_failure ''proc'')"
proof -
  obtain m where m: "wf_ip_map m" "ip_alpha m = [''8.8.8.8'' \<mapsto> 0 :: nat]" using one_host_setup by blast
  have "ip_find_in_map m ''8.8.8.8'' = Inr (Some 0)" using hosts.lookup_alpha [OF m(1)] m(2) by simp
  then have "probe_step 7 (Recv True (Some (''8.8.8.8'', (0x45 # replicate 8 0 @ 1 # replicate 10 0) @ [0, 0] @ [0, 0] @
        le_bytes 2 9 @ [0, 1], 28, \<lparr>tv_sec = 6, tv_usec = 0\<rparr>)))
     (rtt_init\<lparr>sockets := [\<lparr>is_icmp4 = True, paddr = ''8.8.8.8'', nsent = 1, rtt = [-1, -1, -1]\<rparr>],
        ip_proto_map := m, ipv4_count := 1, unique_count := 1, tot_send_cnt := 1\<rparr>) = Inl (Exit_failure ''proc'')"
    by (intro foreign_ping_ends_prober [where i = 0]) (simp_all add: waiting_for_def rtt_init_def nth_Cons' nth_append)
  then show ?thesis by blast
qed

end
