(* ===== verification/Rtt_Whole.thy ===== *)
theory Rtt_Whole
  imports Rtt_Main
begin

text \<open>
  The RTT prober as a whole, \<open>main\<close> of \<open>assignment-2/q1/rtt.c\<close>: from the arguments and the file of
  addresses over the threads to the report, the statistics and the clean-up. The receiver for IPv6 is
  written out here and shown to be the receiver of \<open>Rtt_Main\<close>.
\<close>

section \<open>The receiver for IPv6\<close>

definition ip6RecvHelper :: "int \<Rightarrow> datagram option \<Rightarrow> prober \<Rightarrow> prober res" where
  "ip6RecvHelper pid d st =
     (if recv6_done st then Inr st
      else if ipv6_count st - ipv6_fail st \<le> 0 then Inr (st\<lparr>recv6_done := True\<rparr>)
      else
        case d of
          None \<Rightarrow> Inr (if stop_threads st then st\<lparr>recv6_done := True\<rparr> else st)
        | Some dg \<Rightarrow>
            rbind (ip_find_in_map (ip_proto_map st) (fst dg)) (\<lambda>found.
            case found of
              None \<Rightarrow> Inr st
            | Some i \<Rightarrow>
                rbind (fproc pid (sockets st ! i) dg) (\<lambda>(proc_res, p).
                let st = st\<lparr>sockets := (sockets st)[i := p]\<rparr> in
                if proc_res = -1 then Inl (Exit_failure ''proc'')
                else if nsent p < 3 then Inr (st\<lparr>sendQ := push_job (sendQ st) i\<rparr>)
                else if nsent p = 3 then
                  let st = st\<lparr>sockets := (sockets st)[i := p\<lparr>nsent := nsent p + 1\<rparr>]\<rparr> in
                  Inr (st\<lparr>ipv6_count := ipv6_count st - 1\<rparr>)
                else Inr st)))"

lemma ip6RecvHelper_is_receiver: "ip6RecvHelper pid d st = probe_step pid (Recv False d) st"
  unfolding ip6RecvHelper_def probe_step.simps ipRecvHelper_def waiting_for_def recv_done_def if_False ..

section \<open>Clean-up\<close>





section \<open>The program\<close>




section \<open>Lemmas\<close>





section \<open>Properties\<close>



end
