(* ===== verification/Rtt_Hosts.thy ===== *)
theory Rtt_Hosts
  imports Rtt_Icmp
begin

text \<open>
  The address generator of the RTT prober, \<open>assignment-2/q1/ip_utils/get_ip_from_host.c\<close>: it resolves
  the names in a file and writes their addresses to the file the prober reads. \<open>getaddrinfo\<close> with
  \<open>inet_ntop\<close> is the parameter \<open>resolve\<close>; the files are a map from names to texts.
\<close>

section \<open>The program\<close>

type_synonym files = "string \<Rightarrow> string option"

definition output_name :: "string list \<Rightarrow> string" where
  "output_name argv = (if length argv = 3 then argv ! 2 else ''ip_list_output.txt'')"

definition wants_v6 :: "string list \<Rightarrow> bool" where
  "wants_v6 argv \<longleftrightarrow> length argv = 4 \<and> argv ! 3 = ''y''"

text \<open>The loop: \<open>hostname\<close> has 100 characters, and a name that does not resolve is only reported.\<close>

fun resolve_hosts :: "(string \<Rightarrow> string option) \<Rightarrow> string list \<Rightarrow> string \<Rightarrow> string res" where
  "resolve_hosts resolve [] out = Inr out"
| "resolve_hosts resolve (w # ws) out =
     rbind (strcpy_to 100 w) (\<lambda>hostname.
     case resolve hostname of
       Some ipaddr \<Rightarrow> resolve_hosts resolve ws (out @ ipaddr @ [NL])
     | None \<Rightarrow> resolve_hosts resolve ws out)"

text \<open>
  \<open>main\<close>: \<open>writable\<close> are the names that can be opened for writing. Opening empties the file, before
  the first word is read.
\<close>

definition hosts_main ::
  "(bool \<Rightarrow> string \<Rightarrow> string option) \<Rightarrow> (string \<Rightarrow> bool) \<Rightarrow> string list \<Rightarrow> files \<Rightarrow> files res" where
  "hosts_main resolve writable argv files =
     (if length argv < 2 then Inl (Exit_failure ''Usage'')
      else
        case files (argv ! 1) of
          None \<Rightarrow> Inl (Exit_failure ''fopen'')
        | Some _ \<Rightarrow>
            if \<not> writable (output_name argv) then Inl (Exit_failure ''fopen'')
            else
              let files = files(output_name argv \<mapsto> '''') in
              rbind (resolve_hosts (resolve (wants_v6 argv)) (words (the (files (argv ! 1)))) '''') (\<lambda>out.
              Inr (files(output_name argv \<mapsto> out))))"

section \<open>What it writes\<close>

text \<open>
  What \<open>inet_ntop\<close> returns: at most 45 characters, none of them white space, and the first separator, a
  dot for IPv4 and a colon for IPv6, stands behind at most four digits.
\<close>

definition numeric_address :: "bool \<Rightarrow> string \<Rightarrow> bool" where
  "numeric_address v6 a \<longleftrightarrow>
     length a \<le> 45 \<and> (\<forall>c \<in> set a. nonspace c) \<and>
     (let sep = (if v6 then CHR '':'' else CHR ''.''); pre = takeWhile (\<lambda>c. c \<noteq> CHR ''.'' \<and> c \<noteq> CHR '':'') a in
      length pre \<le> 4 \<and> length pre < length a \<and> a ! length pre = sep)"

definition resolved :: "(string \<Rightarrow> string option) \<Rightarrow> string list \<Rightarrow> string list" where
  "resolved resolve ws = List.map_filter resolve ws"

lemma resolved_simps [simp]:
  "resolved resolve [] = []"
  "resolved resolve (w # ws) = (case resolve w of None \<Rightarrow> resolved resolve ws | Some a \<Rightarrow> a # resolved resolve ws)"
  by (simp_all add: resolved_def map_filter_simps split: option.splits)

lemma resolve_hosts_lines:
  "\<forall>w \<in> set ws. length w < 100 \<Longrightarrow>
   resolve_hosts resolve ws out = Inr (out @ concat (map (\<lambda>a. a @ [NL]) (resolved resolve ws)))"
  by (induction ws arbitrary: out) (auto simp: strcpy_to_def split: option.splits)

lemma words_lines:
  "\<forall>a \<in> set xs. a \<noteq> '''' \<and> (\<forall>c \<in> set a. nonspace c) \<Longrightarrow> words (concat (map (\<lambda>a. a @ [NL]) xs)) = xs"
proof (induction xs)
  case (Cons a xs)
  have nl: "isspace NL" by (simp add: isspace_def code_def)
  then have "words (a @ NL # concat (map (\<lambda>a. a @ [NL]) xs)) = a # words (NL # concat (map (\<lambda>a. a @ [NL]) xs))"
    using Cons.prems by (intro words_run_end) auto
  with Cons nl show ?case by (simp add: words_space)
qed simp

lemma classify_first:
  "length (takeWhile (\<lambda>c. c \<noteq> CHR ''.'' \<and> c \<noteq> CHR '':'') a) < length a \<Longrightarrow>
   classify a = (a ! length (takeWhile (\<lambda>c. c \<noteq> CHR ''.'' \<and> c \<noteq> CHR '':'') a) = CHR ''.'')"
  by (induction a) auto

lemma numeric_address_word:
  assumes "numeric_address v6 a"
  shows "a \<noteq> ''''" "\<forall>c \<in> set a. nonspace c" "length a < 100" "classify a = (\<not> v6)"
    "\<exists>c \<in> set (take 10 a). c = CHR ''.'' \<or> c = CHR '':''"
proof -
  define n where "n = length (takeWhile (\<lambda>c. c \<noteq> CHR ''.'' \<and> c \<noteq> CHR '':'') a)"
  have p: "n \<le> 4" "n < length a" "a ! n = (if v6 then CHR '':'' else CHR ''.'')"
    using assms by (simp_all add: numeric_address_def Let_def n_def)
  show "a \<noteq> ''''" using p(2) by auto
  show "\<forall>c \<in> set a. nonspace c" "length a < 100" using assms unfolding numeric_address_def by linarith+
  have "classify a = (a ! n = CHR ''.'')" using p(2) unfolding n_def by (rule classify_first)
  then show "classify a = (\<not> v6)" using p(3) by simp
  have "take 10 a ! n = a ! n" "n < length (take 10 a)" using p(1,2) by simp_all
  then have "a ! n \<in> set (take 10 a)" by (metis nth_mem)
  with p(3) show "\<exists>c \<in> set (take 10 a). c = CHR ''.'' \<or> c = CHR '':''" by (cases v6) auto
qed

section \<open>Property\<close>

text \<open>
  C23: the generator feeds the prober. The file it writes is read by \<open>parseIpList\<close> as exactly the
  addresses of the names that resolve, in the order of the names, of the family asked for; no other file
  changes. With four arguments that file is \<open>ip_list_output.txt\<close>, whatever name was given.
\<close>

theorem generated_list_is_read:
  assumes "length argv \<in> {2, 3, 4}" "files (argv ! 1) = Some text" "argv ! 1 \<noteq> output_name argv" "writable (output_name argv)"
    and "\<forall>w \<in> set (words text). length w < 100 \<and> (\<forall>a. resolve (wants_v6 argv) w = Some a \<longrightarrow> numeric_address (wants_v6 argv) a)"
    and "length (resolved (resolve (wants_v6 argv)) (words text)) \<le> 1000"
  shows "\<exists>files' out. hosts_main resolve writable argv files = Inr files' \<and>
     files' (output_name argv) = Some out \<and> (\<forall>f. f \<noteq> output_name argv \<longrightarrow> files' f = files f) \<and>
     parseIpList stack out =
       Inr (map (\<lambda>a. \<lparr>isV4 = (\<not> wants_v6 argv), ip_text = a\<rparr>) (resolved (resolve (wants_v6 argv)) (words text)))"
proof -
  let ?as = "resolved (resolve (wants_v6 argv)) (words text)"
  let ?out = "concat (map (\<lambda>a. a @ [NL]) ?as)"
  have as: "numeric_address (wants_v6 argv) a" if "a \<in> set ?as" for a
    using that assms(5) by (auto simp: resolved_def List.map_filter_def)
  have words: "words ?out = ?as"
  proof (rule words_lines, rule ballI)
    fix a
    assume "a \<in> set ?as"
    then show "a \<noteq> '''' \<and> (\<forall>c \<in> set a. nonspace c)" using numeric_address_word(1,2) [OF as] by simp
  qed
  have "resolve_hosts (resolve (wants_v6 argv)) (words text) '''' = Inr ?out"
    using resolve_hosts_lines [of "words text" "resolve (wants_v6 argv)" "''''"] assms(5) by simp
  then have "hosts_main resolve writable argv files = Inr (files(output_name argv \<mapsto> '''', output_name argv \<mapsto> ?out))"
    using assms(1-4) by (simp add: hosts_main_def) (elim disjE; simp)
  moreover have "\<forall>w \<in> set (words ?out). length w < 100 \<and> (\<exists>c \<in> set (take 10 w). c = CHR ''.'' \<or> c = CHR '':'')"
    unfolding words using numeric_address_word(3,5) [OF as] by blast
  note parseIpList_limit [OF this, of stack, unfolded words]
  then have "parseIpList stack ?out = Inr (map (\<lambda>a. \<lparr>isV4 = (\<not> wants_v6 argv), ip_text = a\<rparr>) ?as)"
    using assms(6) as numeric_address_word(4) by simp
  ultimately show ?thesis by fastforce
qed

theorem generated_list_is_read_witness:
  "\<exists>files' out. hosts_main (\<lambda>v6 h. if h = ''a.org'' then Some (if v6 then ''2001:db8::1'' else ''10.0.0.1'') else None) (\<lambda>_. True)
       [''get_ip'', ''hosts'', ''mine.txt'', ''y''] [''hosts'' \<mapsto> ''a.org nowhere a.org''] = Inr files' \<and>
     files' ''ip_list_output.txt'' = Some out \<and> files' ''mine.txt'' = None \<and>
     parseIpList '''' out = Inr [\<lparr>isV4 = False, ip_text = ''2001:db8::1''\<rparr>, \<lparr>isV4 = False, ip_text = ''2001:db8::1''\<rparr>]"
proof -
  let ?argv = "[''get_ip'', ''hosts'', ''mine.txt'', ''y'']"
  let ?res = "\<lambda>v6 h. if h = ''a.org'' then Some (if v6 then ''2001:db8::1'' else ''10.0.0.1'') else None"
  let ?files = "[''hosts'' \<mapsto> ''a.org nowhere a.org'']"
  have w: "words ''a.org nowhere a.org'' = [''a.org'', ''nowhere'', ''a.org'']" by code_simp
  have a: "length ?argv \<in> {2, 3, 4}" "?files (?argv ! 1) = Some ''a.org nowhere a.org''" "?argv ! 1 \<noteq> output_name ?argv"
    by (simp_all add: output_name_def)
  have v6: "wants_v6 ?argv = True" by (simp add: wants_v6_def)
  have "numeric_address True ''2001:db8::1''" by code_simp
  then have h: "\<forall>w \<in> set (words ''a.org nowhere a.org''). length w < 100 \<and>
      (\<forall>x. ?res (wants_v6 ?argv) w = Some x \<longrightarrow> numeric_address (wants_v6 ?argv) x)"
    unfolding w v6 by simp
  have n: "length (resolved (?res (wants_v6 ?argv)) (words ''a.org nowhere a.org'')) \<le> 1000" unfolding w v6 by simp
  from generated_list_is_read [where files = ?files and stack = "''''" and writable = "\<lambda>_. True" and resolve = ?res, OF a _ h n]
  show ?thesis unfolding w v6 by (fastforce simp: output_name_def)
qed

end
