(* ===== verification/Cluster_Parse.thy ===== *)
theory Cluster_Parse
  imports Prelude
begin

text \<open>
  The cluster shell, \<open>assignment-1/q2/utils.c\<close>: reading the configuration and splitting a command line
  into a pipe of commands, each with the machine it runs on. The tokens \<open>strtok\<close> returns are disjoint
  parts of the line, so each command owns its text.
\<close>

section \<open>Data\<close>

abbreviation MAX_CLIENTS_ALLOWED :: nat where "MAX_CLIENTS_ALLOWED \<equiv> 100"
abbreviation MAX_COMMAND_SIZE :: nat where "MAX_COMMAND_SIZE \<equiv> 1024"
abbreviation MAX_OUTPUT_SIZE :: nat where "MAX_OUTPUT_SIZE \<equiv> 1024"

text \<open>Machine -1 is the one the line came from and 0 is every active one.\<close>

record cs_command =
  cmd :: string
  machine :: int

text \<open>\<open>struct command_pipe\<close>: the list from \<open>head\<close>; \<open>tail\<close> is its last element.\<close>

record cs_pipe =
  cmd_list :: "cs_command list"
  cmd_count :: nat

definition initCommandPipe :: cs_pipe where
  "initCommandPipe = \<lparr>cmd_list = [], cmd_count = 0\<rparr>"

definition insertCommandInPipe :: "cs_pipe \<Rightarrow> cs_command \<Rightarrow> cs_pipe" where
  "insertCommandInPipe p c =
     (if cmd_count p = 0 then p\<lparr>cmd_list := [c], cmd_count := cmd_count p + 1\<rparr>
      else p\<lparr>cmd_list := cmd_list p @ [c], cmd_count := cmd_count p + 1\<rparr>)"

text \<open>\<open>resetCommandPipe\<close> frees \<open>count\<close> nodes from \<open>head\<close>; reading past the last one is a fault.\<close>

fun free_commands :: "nat \<Rightarrow> cs_command list \<Rightarrow> unit res" where
  "free_commands 0 cs = Inr ()"
| "free_commands (Suc n) [] = Inl Null_deref"
| "free_commands (Suc n) (c # cs) = free_commands n cs"

definition resetCommandPipe :: "cs_pipe \<Rightarrow> cs_pipe res" where
  "resetCommandPipe p = rbind (free_commands (cmd_count p) (cmd_list p)) (\<lambda>_. Inr \<lparr>cmd_list = [], cmd_count = 0\<rparr>)"

section \<open>The command line\<close>

text \<open>Lines 176 to 212: the machine named before the dot at \<open>dot_idx\<close>, in an array of ten characters.\<close>

definition machine_number :: "string \<Rightarrow> nat \<Rightarrow> int res" where
  "machine_number tok dot_idx =
     rbind (strcpy_to 10 (take dot_idx tok)) (\<lambda>machine_name.
     let machine_name = dropWhile (\<lambda>c. c = SP) machine_name in
     if machine_name = [] \<or> hd machine_name \<noteq> CHR ''n'' then Inl (Thread_exit ''machine name'')
     else if dot_idx < 2 then Inl (Thread_exit ''machine number'')
     else
       rbind (char_at machine_name 1) (\<lambda>c.
       if c = CHR ''*'' then Inr 0
       else
         let machine = atoi (drop 1 machine_name) in
         if machine = 0 then Inl (Thread_exit ''machine number'') else Inr machine))"

text \<open>Lines 214 to 218: one trailing blank or newline of the command is cut off.\<close>

definition trim_last :: "string \<Rightarrow> string" where
  "trim_last s = (if s \<noteq> [] \<and> (last s = SP \<or> last s = NL) then butlast s else s)"

definition parse_token :: "string \<Rightarrow> cs_command res" where
  "parse_token tok =
     (case strchr tok CHR ''.'' of
        Some dot_idx \<Rightarrow>
          if 0 < dot_idx \<and> (isdigit (tok ! (dot_idx - 1)) \<or> tok ! (dot_idx - 1) = CHR ''*'') \<and> 2 \<le> dot_idx then
            rbind (machine_number tok dot_idx) (\<lambda>m.
            Inr \<lparr>cmd = trim_last (drop (dot_idx + 1) tok), machine = m\<rparr>)
          else Inr \<lparr>cmd = tok, machine = -1\<rparr>
      | None \<Rightarrow> Inr \<lparr>cmd = tok, machine = -1\<rparr>)"

function parse_tokens :: "string \<Rightarrow> cs_pipe \<Rightarrow> cs_pipe res" where
  "parse_tokens s p =
     (case strtok ''|'' s of
        None \<Rightarrow> Inr p
      | Some (tok, r) \<Rightarrow> rbind (parse_token tok) (\<lambda>c. parse_tokens r (insertCommandInPipe p c)))"
  by pat_completeness auto
termination
  by (relation "measure (\<lambda>(s, p). length s)") (auto dest: strtok_rest_shorter)

declare parse_tokens.simps [simp del]

definition createCommandPipe :: "string \<Rightarrow> cs_pipe \<Rightarrow> cs_pipe res" where
  "createCommandPipe cmd_input p = parse_tokens cmd_input p"

section \<open>The configuration\<close>

record parsed_config =
  config_data :: "string list"
  config_count :: nat

text \<open>
  The loop over the words of the file. \<open>ip\<close> is what the array of 15 characters holds: the last
  \<open>fscanf\<close> of an odd number of words leaves it as it was.
\<close>

fun parse_machines :: "string list \<Rightarrow> string \<Rightarrow> string list \<Rightarrow> string list res" where
  "parse_machines [] ip acc = Inr acc"
| "parse_machines [i] ip acc =
     rbind (strcpy_to 10 i) (\<lambda>_.
     if length acc < MAX_CLIENTS_ALLOWED then Inr (acc @ [ip]) else Inl (Exit_failure ''clients''))"
| "parse_machines (i # a # ws) ip acc =
     rbind (strcpy_to 10 i) (\<lambda>_.
     rbind (strcpy_to 15 a) (\<lambda>a.
     if length acc < MAX_CLIENTS_ALLOWED then parse_machines ws a (acc @ [a]) else Inl (Exit_failure ''clients'')))"

definition parseConfigFile :: "string option \<Rightarrow> string \<Rightarrow> parsed_config res" where
  "parseConfigFile file junk =
     (case file of
        None \<Rightarrow> Inl (Exit_failure ''config'')
      | Some text \<Rightarrow>
          rbind (parse_machines (words text) junk []) (\<lambda>ips. Inr \<lparr>config_data = ips, config_count = length ips\<rparr>))"

section \<open>Lemmas\<close>

definition wf_cs_pipe :: "cs_pipe \<Rightarrow> bool" where
  "wf_cs_pipe p \<longleftrightarrow> cmd_count p = length (cmd_list p)"

lemma insert_command [simp]:
  assumes "wf_cs_pipe p"
  shows "wf_cs_pipe (insertCommandInPipe p c)" "cmd_list (insertCommandInPipe p c) = cmd_list p @ [c]"
  using assms by (simp_all add: insertCommandInPipe_def wf_cs_pipe_def)

lemma free_commands_all: "free_commands (length cs) cs = Inr ()"
  by (induction cs) simp_all

lemma reset_command_pipe: "wf_cs_pipe p \<Longrightarrow> resetCommandPipe p = Inr initCommandPipe"
  by (simp add: resetCommandPipe_def wf_cs_pipe_def free_commands_all initCommandPipe_def)

lemma parse_tokens_none: "strtok ''|'' s = None \<Longrightarrow> parse_tokens s p = Inr p"
  by (subst parse_tokens.simps) simp

lemma parse_tokens_some:
  "strtok ''|'' s = Some (t, r) \<Longrightarrow> parse_token t = Inr c \<Longrightarrow>
   parse_tokens s p = parse_tokens r (insertCommandInPipe p c)"
  by (subst parse_tokens.simps) simp

lemma parse_tokens_fail:
  "strtok ''|'' s = Some (t, r) \<Longrightarrow> parse_token t = Inl e \<Longrightarrow> parse_tokens s p = Inl e"
  by (subst parse_tokens.simps) simp

lemma parse_tokens_wf: "parse_tokens s p = Inr q \<Longrightarrow> wf_cs_pipe p \<Longrightarrow> wf_cs_pipe q"
proof (induction s p rule: parse_tokens.induct)
  case (1 s p)
  show ?case
  proof (cases "strtok ''|'' s")
    case None
    with "1.prems" show ?thesis by (simp add: parse_tokens_none)
  next
    case (Some tr)
    obtain t r where tr: "tr = (t, r)" by (cases tr)
    show ?thesis
    proof (cases "parse_token t")
      case (Inl e)
      with "1.prems" Some tr show ?thesis by (simp add: parse_tokens_fail)
    next
      case (Inr c)
      with "1.prems"(1) Some tr have "parse_tokens r (insertCommandInPipe p c) = Inr q"
        by (simp add: parse_tokens_some)
      then show ?thesis using "1.IH" [OF Some tr [symmetric] Inr] "1.prems"(2) by simp
    qed
  qed
qed

section \<open>Printing a pipe\<close>

definition show_cs :: "cs_command \<Rightarrow> string" where
  "show_cs c =
     (if machine c = -1 then cmd c
      else if machine c = 0 then ''n*.'' @ cmd c
      else CHR ''n'' # show_int (machine c) @ CHR ''.'' # cmd c)"

fun show_cs_pipe :: "cs_command list \<Rightarrow> string" where
  "show_cs_pipe [] = []"
| "show_cs_pipe [c] = show_cs c"
| "show_cs_pipe (c # cs) = show_cs c @ CHR ''|'' # show_cs_pipe cs"

text \<open>
  A command that can be typed: it has no bar; with a machine it does not end in a blank or a newline,
  and without one it is not empty and what stands before its first dot does not end in a digit or star.
\<close>

definition names_machine :: "string \<Rightarrow> bool" where
  "names_machine tok =
     (case strchr tok CHR ''.'' of
        Some i \<Rightarrow> 2 \<le> i \<and> (isdigit (tok ! (i - 1)) \<or> tok ! (i - 1) = CHR ''*'')
      | None \<Rightarrow> False)"

definition typeable :: "cs_command \<Rightarrow> bool" where
  "typeable c \<longleftrightarrow> CHR ''|'' \<notin> set (cmd c) \<and>
     (machine c = -1 \<and> cmd c \<noteq> [] \<and> \<not> names_machine (cmd c) \<or>
      0 \<le> machine c \<and> machine c \<le> 100 \<and> trim_last (cmd c) = cmd c)"

lemma show_nat_digit_count: "n \<le> 100 \<Longrightarrow> length (show_nat n) \<le> 3"
proof -
  assume "n \<le> 100"
  have one: "k < 10 \<Longrightarrow> length (show_nat k) = 1" for k by (subst show_nat.simps) simp
  have two: "k < 100 \<Longrightarrow> length (show_nat k) \<le> 2" for k
    using one [of "k div 10"] by (subst show_nat.simps) auto
  show ?thesis using two [of "n div 10"] \<open>n \<le> 100\<close> by (subst show_nat.simps) auto
qed

lemma show_nat_not: "\<not> isdigit c \<Longrightarrow> c \<notin> set (show_nat n)"
  using show_nat_digits [of n] by auto

lemma parse_token_local: "\<not> names_machine tok \<Longrightarrow> parse_token tok = Inr \<lparr>cmd = tok, machine = -1\<rparr>"
  by (auto simp: parse_token_def names_machine_def split: option.splits)

lemma parse_token_remote:
  assumes "0 < k" "k \<le> 100"
  shows "parse_token (CHR ''n'' # show_nat k @ CHR ''.'' # s) = Inr \<lparr>cmd = trim_last s, machine = int k\<rparr>"
proof -
  let ?n = "show_nat k"
  let ?tok = "CHR ''n'' # ?n @ CHR ''.'' # s"
  have dot: "strchr ?tok CHR ''.'' = Some (Suc (length ?n))"
    using strchr_append [of "CHR ''.''" "CHR ''n'' # ?n" s] show_nat_not [of "CHR ''.''" k]
    by (simp add: isdigit_def code_def)
  have ne: "?n \<noteq> []" by simp
  then have last: "isdigit (?tok ! length ?n)"
  proof -
    have "?tok ! length ?n = last ?n"
      using ne by (cases ?n rule: rev_cases) (simp_all add: nth_append nth_Cons')
    then show ?thesis using show_nat_digits [of k] ne by simp
  qed
  obtain c cs where c: "?n = c # cs" "isdigit c" using show_nat_Cons by blast
  have "length ?n \<le> 3" using assms(2) by (rule show_nat_digit_count)
  moreover have "c \<noteq> CHR ''*''" using c(2) by (rule isdigit_neq)
  moreover have "atoi ?n = int k" using atoi_digits_then [of k "[]"] assms(2) by simp
  ultimately have "machine_number ?tok (Suc (length ?n)) = Inr (int k)"
    using c(1) assms(1) by (simp add: machine_number_def strcpy_to_def char_at_def Let_def)
  moreover have "2 \<le> Suc (length ?n)" using ne by (cases ?n) auto
  ultimately show ?thesis using dot last by (simp add: parse_token_def)
qed

lemma parse_token_broadcast: "parse_token (''n*.'' @ s) = Inr \<lparr>cmd = trim_last s, machine = 0\<rparr>"
  by (simp add: parse_token_def machine_number_def strcpy_to_def char_at_def Let_def)

lemma parse_show_cs:
  assumes "typeable c"
  shows "parse_token (show_cs c) = Inr c" "show_cs c \<noteq> []" "CHR ''|'' \<notin> set (show_cs c)"
proof -
  consider "machine c = -1" "cmd c \<noteq> []" "\<not> names_machine (cmd c)" "CHR ''|'' \<notin> set (cmd c)"
    | "machine c = 0" "trim_last (cmd c) = cmd c" "CHR ''|'' \<notin> set (cmd c)"
    | k where "machine c = int k" "0 < k" "k \<le> 100" "trim_last (cmd c) = cmd c" "CHR ''|'' \<notin> set (cmd c)"
    using assms zero_le_imp_eq_int [of "machine c"] by (force simp: typeable_def)
  then have "parse_token (show_cs c) = Inr c \<and> show_cs c \<noteq> [] \<and> CHR ''|'' \<notin> set (show_cs c)"
  proof cases
    case 1
    then show ?thesis using parse_token_local [of "cmd c"] by (cases c) (simp add: show_cs_def)
  next
    case 2
    then show ?thesis using parse_token_broadcast [of "cmd c"] by (cases c) (simp add: show_cs_def)
  next
    case (3 k)
    then show ?thesis
      using parse_token_remote [of k "cmd c"] show_nat_not [of "CHR ''|''" k]
      by (cases c) (simp add: show_cs_def show_int_def isdigit_def code_def)
  qed
  then show "parse_token (show_cs c) = Inr c" "show_cs c \<noteq> []" "CHR ''|'' \<notin> set (show_cs c)" by simp_all
qed

lemma parse_show_cs_pipe:
  "\<forall>c \<in> set cs. typeable c \<Longrightarrow> wf_cs_pipe p \<Longrightarrow>
   parse_tokens (show_cs_pipe cs) p = Inr \<lparr>cmd_list = cmd_list p @ cs, cmd_count = cmd_count p + length cs\<rparr>"
proof (induction cs arbitrary: p rule: show_cs_pipe.induct)
  case 1
  then show ?case by (cases p) (simp add: parse_tokens_none strtok_def)
next
  case (2 c)
  note c = parse_show_cs [of c]
  have "strtok ''|'' (show_cs c) = Some (show_cs c, [])" using c 2 by (intro strtok_plain) auto
  then show ?case
    using c(1) 2 by (simp add: parse_tokens_some parse_tokens_none strtok_def insertCommandInPipe_def wf_cs_pipe_def)
next
  case (3 c c' cs)
  note c = parse_show_cs [of c]
  have "strtok ''|'' (show_cs c @ CHR ''|'' # show_cs_pipe (c' # cs)) = Some (show_cs c, show_cs_pipe (c' # cs))"
    using c 3(2) by (intro strtok_plain) auto
  then have "parse_tokens (show_cs_pipe (c # c' # cs)) p = parse_tokens (show_cs_pipe (c' # cs)) (insertCommandInPipe p c)"
    using c(1) 3(2) by (simp add: parse_tokens_some)
  moreover have "cmd_count (insertCommandInPipe p c) = cmd_count p + 1" by (simp add: insertCommandInPipe_def)
  ultimately show ?case using 3 by simp
qed

text \<open>A line without bars is one command.\<close>

lemma createCommandPipe_single:
  assumes "t \<noteq> []" "CHR ''|'' \<notin> set t"
  shows "createCommandPipe t initCommandPipe = rbind (parse_token t) (\<lambda>c. Inr \<lparr>cmd_list = [c], cmd_count = 1\<rparr>)"
proof -
  have t: "strtok ''|'' t = Some (t, [])" using assms by (intro strtok_plain) auto
  have empty: "strtok ''|'' '''' = None" by (simp add: strtok_def)
  show ?thesis
    using parse_tokens_fail [OF t] parse_tokens_some [OF t] parse_tokens_none [OF empty]
    by (cases "parse_token t") (simp_all add: createCommandPipe_def initCommandPipe_def insertCommandInPipe_def)
qed

end
