(* ===== verification/Cluster_Server.thy ===== *)
theory Cluster_Server
  imports Cluster_Parse
begin

text \<open>
  The server of the cluster shell, \<open>assignment-1/q2/clustershell_server.c\<close>: one handler thread per
  client, which registers the client's machine, reads its port and then runs its command lines on the
  machines. Contacting a machine is the parameter \<open>exec\<close>; its contract is the locale \<open>cluster_node\<close>,
  which \<open>Cluster_Client\<close> interprets on the program that runs on the machines.
\<close>

section \<open>Running a pipe\<close>

text \<open>What becomes of connecting, writing the request and reading the reply.\<close>

datatype exec_outcome = Connect_failed | Write_failed | Read_failed | Reply string

type_synonym 'w exec = "'w \<Rightarrow> string \<Rightarrow> int \<Rightarrow> string \<Rightarrow> 'w \<times> exec_outcome"

record cluster =
  config :: parsed_config
  active_connections :: "bool list"
  connection_ports :: "int list"

text \<open>The array \<open>input\<close> of lines 224 to 229: the command, its input, each with its NUL.\<close>

definition request :: "string \<Rightarrow> string \<Rightarrow> string" where
  "request c output = c @ NUL # output @ [NUL]"

definition write_error :: "string \<Rightarrow> int \<Rightarrow> string" where
  "write_error c m = ''Error in writing command '' @ c @ '' to machine n'' @ show_int m @ CHR ''.'' # [NL]"

definition read_error :: "string \<Rightarrow> int \<Rightarrow> string" where
  "read_error c m = ''Error in reading output of command '' @ c @ '' from machine n'' @ show_int m @ CHR ''.'' # [NL]"

definition invalid_machine :: "int \<Rightarrow> string" where
  "invalid_machine m = ''Invalid machine name found: n'' @ show_int m @
     ''. Please verify that it exists in config in correct order.'' @ [NL]"

text \<open>
  One machine (lines 220 to 249 and 293 to 321). A message for \<open>output\<close> is \<open>Inl\<close>, the bytes read
  are \<open>Inr\<close>. \<open>clientSetup\<close> ends the process when it cannot connect.
\<close>

definition run_on ::
  "'w exec \<Rightarrow> cluster \<Rightarrow> 'w \<Rightarrow> int \<Rightarrow> string \<Rightarrow> string \<Rightarrow> ('w \<times> (string + string)) res" where
  "run_on exec cl w i c output =
     rbind (elem_at (config_data (config cl)) i) (\<lambda>ip.
     rbind (elem_at (connection_ports cl) i) (\<lambda>port.
     if MAX_COMMAND_SIZE + 1 + MAX_OUTPUT_SIZE + 1 < length (request c output) then Inl Buffer_overflow
     else
       case exec w ip port (request c output) of
         (w', Connect_failed) \<Rightarrow> Inl (Exit_failure ''connect'')
       | (w', Write_failed) \<Rightarrow>
           rbind (strcpy_to (MAX_OUTPUT_SIZE + 1) (write_error c (i + 1))) (\<lambda>msg. Inr (w', Inl msg))
       | (w', Read_failed) \<Rightarrow>
           rbind (strcpy_to (MAX_OUTPUT_SIZE + 1) (read_error c (i + 1))) (\<lambda>msg. Inr (w', Inl msg))
       | (w', Reply r) \<Rightarrow> Inr (w', Inr (take MAX_OUTPUT_SIZE r))))"

text \<open>The loop of lines 213 to 254 over the machines, \<open>res\<close> being the output gathered so far.\<close>

fun broadcast ::
  "'w exec \<Rightarrow> cluster \<Rightarrow> string \<Rightarrow> string \<Rightarrow> nat list \<Rightarrow> string \<Rightarrow> 'w \<Rightarrow> ('w \<times> (string + string)) res" where
  "broadcast exec cl c output [] res w = Inr (w, Inr res)"
| "broadcast exec cl c output (i # is) res w =
     rbind (elem_at (active_connections cl) (int i)) (\<lambda>active.
     if \<not> active then broadcast exec cl c output is res w
     else
       rbind (run_on exec cl w (int i) c output) (\<lambda>(w', r).
       case r of
         Inl msg \<Rightarrow> Inr (w', Inl msg)
       | Inr temp \<Rightarrow>
           rbind (strcat_to (MAX_OUTPUT_SIZE + 1) res (cstr temp)) (\<lambda>res.
           broadcast exec cl c output is res w')))"

text \<open>The loop of lines 203 to 325 over the commands; \<open>output\<close> is the output of the last one.\<close>

fun run_pipe ::
  "'w exec \<Rightarrow> cluster \<Rightarrow> nat \<Rightarrow> cs_command list \<Rightarrow> string \<Rightarrow> 'w \<Rightarrow> ('w \<times> string) res" where
  "run_pipe exec cl idx [] output w = Inr (w, output)"
| "run_pipe exec cl idx (c # cs) output w =
     (if machine c = 0 then
        rbind (broadcast exec cl (cmd c) output [0..<config_count (config cl)] [] w) (\<lambda>(w', r).
        case r of
          Inl msg \<Rightarrow> Inr (w', msg)
        | Inr res \<Rightarrow> run_pipe exec cl idx cs res w')
      else
        rbind (if machine c = -1 then Inr (int idx) else cint (machine c - 1)) (\<lambda>m.
        if int (config_count (config cl)) \<le> m then
          rbind (strcpy_to (MAX_OUTPUT_SIZE + 1) (invalid_machine (m + 1))) (\<lambda>msg. Inr (w, msg))
        else
          rbind (elem_at (active_connections cl) m) (\<lambda>active.
          if \<not> active then
            rbind (strcpy_to (MAX_OUTPUT_SIZE + 1) (''Machine n'' @ show_int (m + 1) @ '' is not connected.'')) (\<lambda>msg.
            Inr (w, msg))
          else
            rbind (run_on exec cl w m (cmd c) output) (\<lambda>(w', r).
            case r of
              Inl msg \<Rightarrow> Inr (w', msg)
            | Inr out \<Rightarrow> run_pipe exec cl idx cs (cstr out) w'))))"

text \<open>The answer to \<open>nodes\<close>, lines 174 to 184.\<close>

definition list_nodes :: "cluster \<Rightarrow> string res" where
  "list_nodes cl =
     rfold (\<lambda>i res.
       rbind (elem_at (active_connections cl) (int i)) (\<lambda>active.
       if \<not> active then Inr res
       else rbind (elem_at (config_data (config cl)) (int i)) (\<lambda>ip.
         strcat_to (MAX_OUTPUT_SIZE + 1) res (CHR ''n'' # show_int (int i + 1) @ SP # ip @ [NL]))))
       [0..<MAX_CLIENTS_ALLOWED] []"

text \<open>Lines 168 to 331 for the bytes of one \<open>read\<close>: the text written back.\<close>

definition handle_command :: "'w exec \<Rightarrow> cluster \<Rightarrow> nat \<Rightarrow> string \<Rightarrow> 'w \<Rightarrow> ('w \<times> string) res" where
  "handle_command exec cl idx bytes w =
     (let buff = cstr (take MAX_COMMAND_SIZE bytes) in
      if buff = ''nodes'' then rbind (list_nodes cl) (\<lambda>res. Inr (w, res))
      else
        rbind (createCommandPipe buff initCommandPipe) (\<lambda>p.
        rbind (run_pipe exec cl idx (cmd_list p) [] w) (\<lambda>(w', output).
        rbind (resetCommandPipe p) (\<lambda>_. Inr (w', output)))))"

section \<open>The handler threads\<close>

text \<open>\<open>registerClientConnection\<close>: the index and the array afterwards.\<close>

fun register_loop :: "string \<Rightarrow> string list \<Rightarrow> bool list \<Rightarrow> nat list \<Rightarrow> (int \<times> bool list) res" where
  "register_loop ip data active [] = Inr (-1, active)"
| "register_loop ip data active (i # is) =
     rbind (elem_at data (int i)) (\<lambda>d.
     rbind (elem_at active (int i)) (\<lambda>a.
     if d = ip \<and> \<not> a then Inr (int i, active[i := True]) else register_loop ip data active is))"

definition registerClientConnection :: "string \<Rightarrow> parsed_config \<Rightarrow> bool list \<Rightarrow> (int \<times> bool list) res" where
  "registerClientConnection ip cfg active =
     register_loop ip (config_data cfg) active [0..<min MAX_CLIENTS_ALLOWED (config_count cfg)]"

datatype handler = Await_port nat | Serving nat

fun machine_of :: "handler \<Rightarrow> nat" where
  "machine_of (Await_port i) = i"
| "machine_of (Serving i) = i"

record cluster_server =
  cluster_state :: cluster
  handlers :: "nat \<Rightarrow> handler option"

definition server_start :: "parsed_config \<Rightarrow> cluster_server" where
  "server_start cfg =
     \<lparr>cluster_state = \<lparr>config = cfg, active_connections = replicate MAX_CLIENTS_ALLOWED False,
        connection_ports = replicate MAX_CLIENTS_ALLOWED 0\<rparr>,
      handlers = (\<lambda>_. None)\<rparr>"

definition set_active :: "bool list \<Rightarrow> cluster_server \<Rightarrow> cluster_server" where
  "set_active a S = S\<lparr>cluster_state := (cluster_state S)\<lparr>active_connections := a\<rparr>\<rparr>"

definition set_handler :: "nat \<Rightarrow> handler option \<Rightarrow> cluster_server \<Rightarrow> cluster_server" where
  "set_handler t h S = S\<lparr>handlers := (handlers S)(t := h)\<rparr>"

text \<open>
  What happens to a thread next: it is created for a connection, or a \<open>read\<close> returns. No bytes mean
  that the client closed the connection.
\<close>

datatype cs_event = Accept nat string | Got nat string | Read_error nat

text \<open>The end of \<open>connectionHandler\<close> that clears the entry; \<open>pthread_exit\<close> leaves it.\<close>

definition leave :: "nat \<Rightarrow> nat \<Rightarrow> cluster_server \<Rightarrow> cluster_server" where
  "leave t idx S =
     set_handler t None (set_active ((active_connections (cluster_state S))[idx := False]) S)"

fun connectionHandler ::
  "'w exec \<Rightarrow> cs_event \<Rightarrow> cluster_server \<times> 'w \<Rightarrow> (cluster_server \<times> 'w) res" where
  "connectionHandler exec (Accept t client_ip) (S, w) =
     (if handlers S t \<noteq> None then Inr (S, w)
      else
        rbind (registerClientConnection client_ip (config (cluster_state S)) (active_connections (cluster_state S)))
          (\<lambda>(idx, active).
          if idx = -1 then Inr (S, w)
          else Inr (set_handler t (Some (Await_port (nat idx))) (set_active active S), w)))"
| "connectionHandler exec (Got t bytes) (S, w) =
     (case handlers S t of
        None \<Rightarrow> Inr (S, w)
      | Some (Await_port idx) \<Rightarrow>
          if bytes = [] then Inr (leave t idx S, w)
          else
            rbind (strcpy_to 10 (take 10 bytes)) (\<lambda>client_port_str.
            Inr (set_handler t (Some (Serving idx))
              (S\<lparr>cluster_state := (cluster_state S)\<lparr>connection_ports :=
                 (connection_ports (cluster_state S))[idx := atoi (cstr client_port_str)]\<rparr>\<rparr>), w))
      | Some (Serving idx) \<Rightarrow>
          if bytes = [] then Inr (leave t idx S, w)
          else
            case handle_command exec (cluster_state S) idx bytes w of
              Inl (Thread_exit msg) \<Rightarrow> Inr (set_handler t None S, w)
            | Inl e \<Rightarrow> Inl e
            | Inr (w', output) \<Rightarrow> Inr (S, w'))"
| "connectionHandler exec (Read_error t) (S, w) =
     (case handlers S t of
        None \<Rightarrow> Inr (S, w)
      | Some (Await_port idx) \<Rightarrow> Inr (set_handler t None S, w)
      | Some (Serving idx) \<Rightarrow> Inr (leave t idx S, w))"

section \<open>Who owns a machine\<close>

definition wf_config :: "parsed_config \<Rightarrow> bool" where
  "wf_config cfg \<longleftrightarrow> config_count cfg = length (config_data cfg) \<and> config_count cfg \<le> MAX_CLIENTS_ALLOWED"

definition owned :: "cluster_server \<Rightarrow> nat \<Rightarrow> nat \<Rightarrow> bool" where
  "owned S t i \<longleftrightarrow> (\<exists>h. handlers S t = Some h \<and> machine_of h = i)"

text \<open>The machines that are marked as connected and belong to no thread.\<close>

definition lost :: "cluster_server \<Rightarrow> nat set" where
  "lost S = {i. i < MAX_CLIENTS_ALLOWED \<and> active_connections (cluster_state S) ! i \<and> (\<forall>t. \<not> owned S t i)}"

definition server_ok :: "cluster_server \<Rightarrow> bool" where
  "server_ok S \<longleftrightarrow>
     wf_config (config (cluster_state S)) \<and>
     length (active_connections (cluster_state S)) = MAX_CLIENTS_ALLOWED \<and>
     length (connection_ports (cluster_state S)) = MAX_CLIENTS_ALLOWED \<and>
     (\<forall>i < MAX_CLIENTS_ALLOWED. active_connections (cluster_state S) ! i \<longrightarrow> i < config_count (config (cluster_state S))) \<and>
     (\<forall>t i. owned S t i \<longrightarrow> i < MAX_CLIENTS_ALLOWED \<and> active_connections (cluster_state S) ! i) \<and>
     (\<forall>t t' i. owned S t i \<longrightarrow> owned S t' i \<longrightarrow> t = t')"

lemma register_loop_result:
  "register_loop ip data active is = Inr (r, a') \<Longrightarrow>
   r = -1 \<and> a' = active \<or>
   (\<exists>i \<in> set is. r = int i \<and> a' = active[i := True] \<and> i < length active \<and> \<not> active ! i \<and> data ! i = ip)"
proof (induction "is")
  case (Cons i "is")
  then obtain d a where d: "elem_at data (int i) = Inr d" "elem_at active (int i) = Inr a"
      "(if d = ip \<and> \<not> a then Inr (int i, active[i := True]) else register_loop ip data active is) = Inr (r, a')"
    by (auto simp: rbind_Inr_iff)
  then have "d = data ! i" "a = active ! i" "i < length active" by (auto simp: elem_at_def split: if_splits)
  then show ?case using d(3) Cons.IH by (cases "d = ip \<and> \<not> a") auto
qed simp

lemma register_result:
  assumes "registerClientConnection ip cfg active = Inr (r, a')"
  obtains "r = -1" "a' = active"
    | i where "r = int i" "a' = active[i := True]" "i < length active" "\<not> active ! i" "config_data cfg ! i = ip"
        "i < MAX_CLIENTS_ALLOWED" "i < config_count cfg"
  using register_loop_result [OF assms [unfolded registerClientConnection_def]] by auto

lemma register_loop_total:
  "\<forall>i \<in> set is. i < length data \<and> i < length active \<Longrightarrow> \<exists>x. register_loop ip data active is = Inr x"
  by (induction "is") auto

lemma register_loop_none:
  "\<forall>i \<in> set is. i < length data \<and> i < length active \<and> (data ! i = ip \<longrightarrow> active ! i) \<Longrightarrow>
   register_loop ip data active is = Inr (-1, active)"
  by (induction "is") auto

lemma owned_set_handler:
  "owned (set_handler t h S) t' i \<longleftrightarrow> (if t' = t then (\<exists>x. h = Some x \<and> machine_of x = i) else owned S t' i)"
  by (simp add: owned_def set_handler_def)

lemma owned_set_active [simp]: "owned (set_active a S) t i = owned S t i"
  by (simp add: owned_def set_active_def)

lemma cluster_state_set [simp]:
  "cluster_state (set_handler t h S) = cluster_state S"
  "cluster_state (set_active a S) = (cluster_state S)\<lparr>active_connections := a\<rparr>"
  by (simp_all add: set_handler_def set_active_def)

text \<open>The three ways a thread changes the state.\<close>

lemma claim_ok:
  assumes ok: "server_ok S" and free: "handlers S t = None" and i: "i < MAX_CLIENTS_ALLOWED"
    and "i < config_count (config (cluster_state S))" "\<not> active_connections (cluster_state S) ! i"
  defines "S' \<equiv> set_handler t (Some (Await_port i)) (set_active ((active_connections (cluster_state S))[i := True]) S)"
  shows "server_ok S' \<and> lost S \<subseteq> lost S'"
proof
  have len: "length (active_connections (cluster_state S)) = MAX_CLIENTS_ALLOWED" using ok by (simp add: server_ok_def)
  have own: "owned S' t' j \<longleftrightarrow> (if t' = t then j = i else owned S t' j)" for t' j
    by (auto simp: S'_def owned_set_handler)
  have none: "\<not> owned S t' i" for t' using ok assms(5) by (auto simp: server_ok_def)
  have act: "active_connections (cluster_state S') ! j \<longleftrightarrow> j = i \<or> active_connections (cluster_state S) ! j"
    if "j < MAX_CLIENTS_ALLOWED" for j
    using that i len by (auto simp: S'_def nth_list_update)
  have "(\<forall>j < MAX_CLIENTS_ALLOWED. active_connections (cluster_state S') ! j \<longrightarrow> j < config_count (config (cluster_state S')))"
    using ok act assms(4) by (auto simp: server_ok_def S'_def)
  moreover have "\<forall>t' j. owned S' t' j \<longrightarrow> j < MAX_CLIENTS_ALLOWED \<and> active_connections (cluster_state S') ! j"
  proof (intro allI impI)
    fix t' j
    assume "owned S' t' j"
    then have "j = i \<or> owned S t' j" using own by (auto split: if_splits)
    then have "j < MAX_CLIENTS_ALLOWED \<and> (j = i \<or> active_connections (cluster_state S) ! j)"
      using ok i by (auto simp: server_ok_def)
    then show "j < MAX_CLIENTS_ALLOWED \<and> active_connections (cluster_state S') ! j" using act by blast
  qed
  moreover have "\<forall>t1 t2 j. owned S' t1 j \<longrightarrow> owned S' t2 j \<longrightarrow> t1 = t2"
    using ok own none unfolding server_ok_def by metis
  ultimately show "server_ok S'" using ok by (simp add: server_ok_def S'_def)
  show "lost S \<subseteq> lost S'"
  proof
    fix j
    assume j: "j \<in> lost S"
    then have "j \<noteq> i" using assms(5) by (auto simp: lost_def)
    with j show "j \<in> lost S'" using act own by (auto simp: lost_def)
  qed
qed

lemma leave_ok:
  assumes ok: "server_ok S" and h: "owned S t i"
  shows "server_ok (leave t i S) \<and> lost S \<subseteq> lost (leave t i S)"
proof
  let ?S = "leave t i S"
  have i: "i < MAX_CLIENTS_ALLOWED" and len: "length (active_connections (cluster_state S)) = MAX_CLIENTS_ALLOWED"
    using ok h by (auto simp: server_ok_def)
  have own: "owned ?S t' j \<longleftrightarrow> t' \<noteq> t \<and> owned S t' j" for t' j by (simp add: leave_def owned_set_handler)
  have act: "active_connections (cluster_state ?S) ! j \<longleftrightarrow> j \<noteq> i \<and> active_connections (cluster_state S) ! j"
    if "j < MAX_CLIENTS_ALLOWED" for j
    using that i len by (auto simp: leave_def nth_list_update)
  have other: "j \<noteq> i" if "owned S t' j" "t' \<noteq> t" for t' j using ok h that by (auto simp: server_ok_def)
  have "(\<forall>j < MAX_CLIENTS_ALLOWED. active_connections (cluster_state ?S) ! j \<longrightarrow> j < config_count (config (cluster_state ?S)))"
    using ok act by (auto simp: server_ok_def leave_def)
  moreover have "\<forall>t' j. owned ?S t' j \<longrightarrow> j < MAX_CLIENTS_ALLOWED \<and> active_connections (cluster_state ?S) ! j"
  proof (intro allI impI)
    fix t' j
    assume "owned ?S t' j"
    then have "owned S t' j" "j \<noteq> i" using own other by blast+
    then show "j < MAX_CLIENTS_ALLOWED \<and> active_connections (cluster_state ?S) ! j"
      using ok act by (auto simp: server_ok_def)
  qed
  moreover have "\<forall>t1 t2 j. owned ?S t1 j \<longrightarrow> owned ?S t2 j \<longrightarrow> t1 = t2"
    using ok own unfolding server_ok_def by metis
  ultimately show "server_ok ?S" using ok by (simp add: server_ok_def leave_def)
  show "lost S \<subseteq> lost ?S"
  proof
    fix j
    assume j: "j \<in> lost S"
    then have "j \<noteq> i" using h by (auto simp: lost_def)
    with j show "j \<in> lost ?S" using act own by (auto simp: lost_def)
  qed
qed

lemma forget_ok:
  assumes ok: "server_ok S"
  shows "server_ok (set_handler t None S) \<and> lost S \<subseteq> lost (set_handler t None S)"
  using assms by (auto simp: server_ok_def lost_def owned_set_handler)

lemma forget_lost:
  assumes "server_ok S" "owned S t i"
  shows "i \<in> lost (set_handler t None S)"
  using assms by (auto simp: server_ok_def lost_def owned_set_handler)

lemma serve_ok:
  fixes p :: int
  assumes ok: "server_ok S" and h: "handlers S t = Some (Await_port i)"
  defines "S' \<equiv> set_handler t (Some (Serving i))
      (S\<lparr>cluster_state := (cluster_state S)\<lparr>connection_ports := (connection_ports (cluster_state S))[i := p]\<rparr>\<rparr>)"
  shows "server_ok S' \<and> lost S \<subseteq> lost S'"
proof -
  have "owned S' t' j \<longleftrightarrow> owned S t' j" for t' j using h by (auto simp: S'_def owned_def set_handler_def)
  moreover have "active_connections (cluster_state S') = active_connections (cluster_state S)"
    "config (cluster_state S') = config (cluster_state S)" by (simp_all add: S'_def)
  moreover have "length (connection_ports (cluster_state S')) = length (connection_ports (cluster_state S))"
    by (simp add: S'_def)
  ultimately show ?thesis using ok by (simp add: server_ok_def lost_def)
qed

lemma connectionHandler_ok:
  assumes ok: "server_ok S" and step: "connectionHandler exec e (S, w) = Inr (S', w')"
  shows "server_ok S' \<and> lost S \<subseteq> lost S' \<and> config (cluster_state S') = config (cluster_state S)"
proof (cases e)
  case (Accept t ip)
  show ?thesis
  proof (cases "handlers S t = None")
    case True
    with step Accept obtain r a' where
      r: "registerClientConnection ip (config (cluster_state S)) (active_connections (cluster_state S)) = Inr (r, a')"
        "(if r = -1 then Inr (S, w) else Inr (set_handler t (Some (Await_port (nat r))) (set_active a' S), w)) =
           (Inr (S', w') :: (cluster_server \<times> _) res)"
      by (auto simp: rbind_Inr_iff)
    from r(1) show ?thesis
      by (rule register_result) (use r(2) claim_ok [OF ok True] ok in auto)
  qed (use ok step Accept in auto)
next
  case (Got t bytes)
  show ?thesis
  proof (cases "handlers S t")
    case None
    with ok step Got show ?thesis by simp
  next
    case (Some h)
    show ?thesis
    proof (cases "bytes = []")
      case True
      have "S' = leave t (machine_of h) S" using True Some step Got by (cases h) auto
      moreover have "owned S t (machine_of h)" using Some by (simp add: owned_def)
      ultimately show ?thesis using leave_ok [OF ok] by (simp add: leave_def)
    next
      case False
      show ?thesis
      proof (cases h)
        case (Await_port i)
        with serve_ok [OF ok, of t i] Some step Got False show ?thesis by (auto simp: rbind_Inr_iff)
      next
        case (Serving i)
        show ?thesis
        proof (cases "handle_command exec (cluster_state S) i bytes w")
          case (Inl f)
          with forget_ok [OF ok, of t] Serving Some step Got False show ?thesis by (cases f) auto
        next
          case (Inr r)
          with ok Serving Some step Got False show ?thesis by (cases r) auto
        qed
      qed
    qed
  qed
next
  case (Read_error t)
  show ?thesis
  proof (cases "handlers S t")
    case None
    with ok step Read_error show ?thesis by simp
  next
    case (Some h)
    then have h: "owned S t (machine_of h)" by (simp add: owned_def)
    show ?thesis
    proof (cases h)
      case (Await_port i)
      with Some forget_ok [OF ok, of t] step Read_error show ?thesis by auto
    next
      case (Serving i)
      with Some h leave_ok [OF ok, of t i] step Read_error show ?thesis by (auto simp: leave_def)
    qed
  qed
qed

lemma connections_ok:
  "rfold (connectionHandler exec) es (S, w) = Inr (S', w') \<Longrightarrow> server_ok S \<Longrightarrow>
   server_ok S' \<and> lost S \<subseteq> lost S' \<and> config (cluster_state S') = config (cluster_state S)"
proof (induction es arbitrary: S w)
  case (Cons e es)
  then obtain S1 w1 where 1: "connectionHandler exec e (S, w) = Inr (S1, w1)"
      "rfold (connectionHandler exec) es (S1, w1) = Inr (S', w')"
    by (auto simp: rbind_Inr_iff)
  with connectionHandler_ok [OF Cons.prems(2) 1(1)] Cons.IH [OF 1(2)] show ?case by auto
qed simp

lemma server_start_ok: "wf_config cfg \<Longrightarrow> server_ok (server_start cfg)"
  by (simp add: server_ok_def server_start_def owned_def)

lemma handle_line:
  assumes "length line \<le> MAX_COMMAND_SIZE" "nul_free line" "line \<noteq> ''nodes''"
  shows "handle_command exec cl idx line w =
     rbind (createCommandPipe line initCommandPipe) (\<lambda>p.
     rbind (run_pipe exec cl idx (cmd_list p) [] w) (\<lambda>(w', output).
     rbind (resetCommandPipe p) (\<lambda>_. Inr (w', output))))"
  using assms by (simp add: handle_command_def)

section \<open>Properties\<close>



text \<open>
  A file name can cost a machine its connection for good. When a client sends a command whose first
  dot stands behind a digit and which does not begin with \<open>n\<close>, such as \<open>cat f1.txt\<close>, its handler thread
  ends without an answer and without clearing the machine's entry; whatever happens afterwards, the
  machine stays marked as connected although no thread serves it.
\<close>

theorem dotted_command_loses_machine:
  assumes "wf_config cfg" "rfold (connectionHandler exec) es (server_start cfg, w) = Inr (S, w1)"
    and "handlers S t = Some (Serving i)"
    and line: "line = pre @ d # CHR ''.'' # rest" "length line \<le> MAX_COMMAND_SIZE" "nul_free line"
    and pre: "isdigit d" "pre \<noteq> []" "length pre < 9" "CHR ''.'' \<notin> set pre" "CHR ''|'' \<notin> set line"
        "hd (dropWhile (\<lambda>c. c = SP) (pre @ [d])) \<noteq> CHR ''n''"
  shows "connectionHandler exec (Got t line) (S, w1) = Inr (set_handler t None S, w1) \<and>
         (rfold (connectionHandler exec) fs (set_handler t None S, w1) = Inr (S', w2) \<longrightarrow>
            active_connections (cluster_state S') ! i \<and> (\<forall>u h. handlers S' u = Some h \<longrightarrow> machine_of h \<noteq> i))"
proof
  have ok: "server_ok S" using connections_ok [OF assms(2) server_start_ok [OF assms(1)]] by simp
  have "CHR ''.'' \<noteq> d" using pre(1) isdigit_neq by blast
  then have dot: "strchr line CHR ''.'' = Some (Suc (length pre))"
    using strchr_append [of "CHR ''.''" "pre @ [d]" rest] pre(4) line(1) by simp
  have name: "take (Suc (length pre)) line = pre @ [d]" by (simp add: line(1))
  have "machine_number line (Suc (length pre)) = Inl (Thread_exit ''machine name'')"
    using pre(3,6) unfolding machine_number_def name by (simp add: strcpy_to_def Let_def)
  moreover have "line ! length pre = d" by (simp add: line(1))
  moreover have "Suc 0 \<le> length pre" using pre(2) by (cases pre) auto
  ultimately have "parse_token line = Inl (Thread_exit ''machine name'')"
    using dot pre(1) by (simp add: parse_token_def)
  moreover have "line \<noteq> []" using line(1) by simp
  ultimately have "createCommandPipe line initCommandPipe = Inl (Thread_exit ''machine name'')"
    using createCommandPipe_single pre(5) by simp
  moreover have "line \<noteq> ''nodes''" using dot by auto
  ultimately have "handle_command exec (cluster_state S) i line w1 = Inl (Thread_exit ''machine name'')"
    using handle_line [OF line(2,3)] by simp
  then show "connectionHandler exec (Got t line) (S, w1) = Inr (set_handler t None S, w1)"
    using assms(3) \<open>line \<noteq> []\<close> by simp
  show "rfold (connectionHandler exec) fs (set_handler t None S, w1) = Inr (S', w2) \<longrightarrow>
            active_connections (cluster_state S') ! i \<and> (\<forall>u h. handlers S' u = Some h \<longrightarrow> machine_of h \<noteq> i)"
  proof
    assume "rfold (connectionHandler exec) fs (set_handler t None S, w1) = Inr (S', w2)"
    from connections_ok [OF this] forget_ok [OF ok, of t] have "lost (set_handler t None S) \<subseteq> lost S'" by simp
    moreover have "i \<in> lost (set_handler t None S)"
      using assms(3) by (intro forget_lost ok) (simp add: owned_def)
    ultimately have "i \<in> lost S'" by blast
    then show "active_connections (cluster_state S') ! i \<and> (\<forall>u h. handlers S' u = Some h \<longrightarrow> machine_of h \<noteq> i)"
      by (auto simp: lost_def owned_def)
  qed
qed

theorem dotted_command_loses_machine_witness:
  "\<exists>S S'. rfold (connectionHandler (\<lambda>w ip port msg. (w, Reply ''''))) [Accept 1 ''10.0.0.1'', Got 1 ''8001'']
       (server_start \<lparr>config_data = [''10.0.0.1''], config_count = 1\<rparr>, ()) = Inr (S, ()) \<and>
     connectionHandler (\<lambda>w ip port msg. (w, Reply '''')) (Got 1 ''cat f1.txt'') (S, ()) = Inr (set_handler 1 None S, ()) \<and>
     rfold (connectionHandler (\<lambda>w ip port msg. (w, Reply ''''))) [Got 1 '''', Accept 2 ''10.0.0.1'']
       (set_handler 1 None S, ()) = Inr (S', ()) \<and>
     active_connections (cluster_state S') ! 0 \<and> (\<forall>u h. handlers S' u = Some h \<longrightarrow> machine_of h \<noteq> 0)"
proof -
  let ?cfg = "\<lparr>config_data = [''10.0.0.1''], config_count = 1\<rparr>"
  let ?x = "\<lambda>w ip port msg. (w :: unit, Reply '''')"
  have "case rfold (connectionHandler ?x) [Accept 1 ''10.0.0.1'', Got 1 ''8001''] (server_start ?cfg, ()) of
      Inr (S, _) \<Rightarrow> handlers S 1 = Some (Serving 0) \<and>
        (case rfold (connectionHandler ?x) [Got 1 '''', Accept 2 ''10.0.0.1''] (set_handler 1 None S, ()) of
           Inr (S', _) \<Rightarrow> True | Inl _ \<Rightarrow> False)
    | Inl _ \<Rightarrow> False"
    by code_simp
  then obtain S S' where S: "rfold (connectionHandler ?x) [Accept 1 ''10.0.0.1'', Got 1 ''8001''] (server_start ?cfg, ()) = Inr (S, ())"
      "handlers S 1 = Some (Serving 0)"
      "rfold (connectionHandler ?x) [Got 1 '''', Accept 2 ''10.0.0.1''] (set_handler 1 None S, ()) = Inr (S', ())"
    by (auto split: sum.splits prod.splits)
  have "wf_config ?cfg" by (simp add: wf_config_def)
  note * = dotted_command_loses_machine [OF this S(1,2), of "''cat f1.txt''" "''cat f''" "CHR ''1''" "''txt''"
      "[Got 1 '''', Accept 2 ''10.0.0.1'']" S' "()"]
  have "connectionHandler ?x (Got 1 ''cat f1.txt'') (S, ()) = Inr (set_handler 1 None S, ())"
    "active_connections (cluster_state S') ! 0" "\<forall>u h. handlers S' u = Some h \<longrightarrow> machine_of h \<noteq> 0"
    using * S(3) by (simp_all add: isdigit_def code_def del: connectionHandler.simps rfold.simps)
  with S(1,3) show ?thesis by blast
qed

text \<open>
  A machine number below -1 reads in front of the array of connections: the line \<open>n-\<close>k\<open>.cmd\<close> passes the
  test against the number of machines and indexes \<open>active_connections\<close> with -k - 1.
\<close>

theorem negative_machine_out_of_bounds:
  assumes "2 \<le> k" "k \<le> 100" "CHR ''|'' \<notin> set c" "nul_free c" "length c \<le> 1000"
  shows "handle_command exec cl idx (''n-'' @ show_nat k @ CHR ''.'' # c) w = Inl Out_of_bounds"
proof -
  let ?n = "show_nat k"
  define line where "line = ''n-'' @ ?n @ CHR ''.'' # c"
  have len: "length ?n \<le> 3" using assms(2) by (rule show_nat_digit_count)
  have dot: "strchr line CHR ''.'' = Some (Suc (Suc (length ?n)))"
    using strchr_append [of "CHR ''.''" "''n-'' @ ?n" c] show_nat_not [of "CHR ''.''" k]
    by (simp add: line_def isdigit_def code_def)
  have last: "isdigit (line ! Suc (length ?n))"
  proof -
    have "line ! Suc (length ?n) = last ?n" by (cases ?n rule: rev_cases) (simp_all add: line_def nth_append)
    then show ?thesis using show_nat_digits [of k] by simp
  qed
  have "in_int (- int k)" using assms(2) by (simp add: in_int_def)
  then have "atoi (CHR ''-'' # ?n) = - int k" using atoi_show_int [of "- int k"] assms(1) by (simp add: show_int_def)
  then have "machine_number line (Suc (Suc (length ?n))) = Inr (- int k)"
    using len assms(1) by (simp add: line_def machine_number_def strcpy_to_def char_at_def Let_def)
  moreover have "drop (Suc (Suc (length ?n)) + 1) line = c" by (simp add: line_def)
  ultimately have "parse_token line = Inr \<lparr>cmd = trim_last c, machine = - int k\<rparr>"
    using dot last by (simp add: parse_token_def)
  moreover have "line \<noteq> []" "CHR ''|'' \<notin> set line"
    using assms(3) show_nat_not [of "CHR ''|''" k] by (auto simp: line_def isdigit_def code_def)
  ultimately have "createCommandPipe line initCommandPipe = Inr \<lparr>cmd_list = [\<lparr>cmd = trim_last c, machine = - int k\<rparr>], cmd_count = 1\<rparr>"
    using createCommandPipe_single [of line] by simp
  moreover have "in_int (- int k - 1)" using assms(2) by (simp add: in_int_def)
  moreover have "length line \<le> MAX_COMMAND_SIZE" "nul_free line" "line \<noteq> ''nodes''"
    using len assms(4,5) by (simp_all add: line_def)
  ultimately have "handle_command exec cl idx line w = Inl Out_of_bounds"
    using assms(1) by (simp add: handle_line cint_def elem_at_def)
  then show ?thesis by (simp add: line_def)
qed

theorem negative_machine_out_of_bounds_witness:
  "handle_command (\<lambda>w ip port msg. (w, Reply '''')) (cluster_state (server_start \<lparr>config_data = [''10.0.0.1''], config_count = 1\<rparr>)) 0 ''n-12.ls'' () = Inl Out_of_bounds"
proof -
  have "show_nat 12 = ''12''" by code_simp
  with negative_machine_out_of_bounds [of 12 "''ls''" "\<lambda>w ip port msg. (w, Reply '''')"
      "cluster_state (server_start \<lparr>config_data = [''10.0.0.1''], config_count = 1\<rparr>)" 0 "()"] show ?thesis by simp
qed

section \<open>The contract of a machine\<close>

text \<open>
  What the server relies on: a machine that gets a request runs its command on its input and answers
  with the output, which fits into the reply. \<open>run\<close> says what the command does on the machine.
\<close>

abbreviation MAX_TYPED :: nat where "MAX_TYPED \<equiv> 980"

type_synonym 'm world = "string \<times> int \<Rightarrow> 'm option"

text \<open>The machines that listen, by address; one that faults on a request closes the connection.\<close>

definition node_exec :: "('m \<Rightarrow> string \<Rightarrow> ('m \<times> string) res) \<Rightarrow> 'm world exec" where
  "node_exec serve w ip port msg =
     (case w (ip, port) of
        None \<Rightarrow> (w, Connect_failed)
      | Some m \<Rightarrow>
          (case serve m msg of
             Inl e \<Rightarrow> (w((ip, port) := None), Reply [])
           | Inr (m', r) \<Rightarrow> (w((ip, port) \<mapsto> m'), Reply r)))"

definition addr :: "cluster \<Rightarrow> nat \<Rightarrow> string \<times> int" where
  "addr cl i = (config_data (config cl) ! i, connection_ports cl ! i)"

text \<open>What a pipe is meant to do: every command runs on its targets and their outputs are joined.\<close>

definition targets :: "cluster \<Rightarrow> nat \<Rightarrow> cs_command \<Rightarrow> nat list" where
  "targets cl idx c =
     (if machine c = 0 then filter (\<lambda>i. active_connections cl ! i) [0..<config_count (config cl)]
      else if machine c = -1 then [idx] else [nat (machine c - 1)])"

fun gather ::
  "('m \<Rightarrow> string \<Rightarrow> string \<Rightarrow> 'm \<times> string) \<Rightarrow> string \<Rightarrow> string \<Rightarrow> (string \<times> int) list \<Rightarrow> string \<Rightarrow> 'm world \<Rightarrow> 'm world \<times> string" where
  "gather run c inp [] res w = (w, res)"
| "gather run c inp (a # as) res w =
     (let (m', out) = run (the (w a)) c inp in gather run c inp as (res @ out) (w(a \<mapsto> m')))"

text \<open>\<open>None\<close> when the joined outputs of one command are longer than a buffer.\<close>

fun spec_pipe ::
  "('m \<Rightarrow> string \<Rightarrow> string \<Rightarrow> 'm \<times> string) \<Rightarrow> cluster \<Rightarrow> nat \<Rightarrow> cs_command list \<Rightarrow> string \<Rightarrow> 'm world \<Rightarrow>
     ('m world \<times> string) option" where
  "spec_pipe run cl idx [] out w = Some (w, out)"
| "spec_pipe run cl idx (c # cs) out w =
     (let (w', res) = gather run (cmd c) out (map (addr cl) (targets cl idx c)) [] w in
      if length res \<le> MAX_OUTPUT_SIZE then spec_pipe run cl idx cs res w' else None)"

definition runnable :: "cluster \<Rightarrow> cs_command \<Rightarrow> bool" where
  "runnable cl c \<longleftrightarrow> nul_free (cmd c) \<and> length (cmd c) \<le> MAX_TYPED \<and>
     (machine c = 0 \<or> machine c = -1 \<or>
      1 \<le> machine c \<and> machine c \<le> int (config_count (config cl)) \<and> active_connections cl ! nat (machine c - 1))"

definition wf_cluster :: "cluster \<Rightarrow> bool" where
  "wf_cluster cl \<longleftrightarrow> wf_config (config cl) \<and> length (active_connections cl) = MAX_CLIENTS_ALLOWED \<and>
     length (connection_ports cl) = MAX_CLIENTS_ALLOWED"

definition listening :: "cluster \<Rightarrow> 'm world \<Rightarrow> bool" where
  "listening cl w \<longleftrightarrow> (\<forall>i < config_count (config cl). active_connections cl ! i \<longrightarrow> w (addr cl i) \<noteq> None)"

lemma wf_cluster_at:
  assumes "wf_cluster cl" "i < config_count (config cl)"
  shows "elem_at (config_data (config cl)) (int i) = Inr (fst (addr cl i))"
    and "elem_at (connection_ports cl) (int i) = Inr (snd (addr cl i))"
    and "elem_at (active_connections cl) (int i) = Inr (active_connections cl ! i)"
  using assms by (simp_all add: wf_cluster_def wf_config_def addr_def)

lemma show_cs_pipe_nul_free: "\<forall>c \<in> set cs. typeable c \<and> runnable cl c \<Longrightarrow> nul_free (show_cs_pipe cs)"
  by (induction cs rule: show_cs_pipe.induct) (auto simp: show_cs_def runnable_def)

lemma gather_Cons: "run (the (w a)) c inp = (m', out) \<Longrightarrow>
    gather run c inp (a # as) res w = gather run c inp as (res @ out) (w(a \<mapsto> m'))"
  by simp

lemma gather_listening: "listening cl w \<Longrightarrow> listening cl (fst (gather run c inp as res w))"
proof (induction "as" arbitrary: res w)
  case (Cons a "as")
  obtain m' out where r: "run (the (w a)) c inp = (m', out)" by (cases "run (the (w a)) c inp")
  have "listening cl (w(a \<mapsto> m'))" using Cons.prems by (simp add: listening_def)
  from Cons.IH [OF this] show ?case by (simp add: r del: fun_upd_apply)
qed simp

lemma gather_longer: "length res \<le> length (snd (gather run c inp as res w))"
proof (induction "as" arbitrary: res w)
  case (Cons a "as")
  obtain m' out where r: "run (the (w a)) c inp = (m', out)" by (cases "run (the (w a)) c inp")
  have "length res \<le> length (res @ out)" by simp
  also note Cons.IH [of "res @ out" "w(a \<mapsto> m')"]
  finally show ?case by (simp add: r del: fun_upd_apply)
qed simp

locale cluster_node =
  fixes serve :: "'m \<Rightarrow> string \<Rightarrow> ('m \<times> string) res"
    and run :: "'m \<Rightarrow> string \<Rightarrow> string \<Rightarrow> 'm \<times> string"
  assumes serve_request: "nul_free c \<Longrightarrow> nul_free inp \<Longrightarrow> length c \<le> MAX_TYPED \<Longrightarrow> length inp \<le> MAX_OUTPUT_SIZE \<Longrightarrow>
      serve m (request c inp) = Inr (run m c inp)"
    and run_text: "nul_free c \<Longrightarrow> length c \<le> MAX_TYPED \<Longrightarrow> run m c inp = (m', out) \<Longrightarrow> nul_free out \<and> length out \<le> MAX_OUTPUT_SIZE"
begin

lemma run_on_node:
  assumes cl: "wf_cluster cl" "i < config_count (config cl)" and m: "w (addr cl i) = Some m"
    and c: "nul_free c" "length c \<le> MAX_TYPED" and inp: "nul_free inp" "length inp \<le> MAX_OUTPUT_SIZE"
    and r: "run m c inp = (m', out)"
  shows "run_on (node_exec serve) cl w (int i) c inp = Inr (w(addr cl i \<mapsto> m'), Inr out)"
proof -
  have "node_exec serve w (fst (addr cl i)) (snd (addr cl i)) (request c inp) = (w(addr cl i \<mapsto> m'), Reply out)"
    using serve_request [OF c(1) inp(1) c(2) inp(2), of m] m r by (simp add: node_exec_def)
  moreover have "length (request c inp) \<le> MAX_COMMAND_SIZE + 1 + MAX_OUTPUT_SIZE + 1"
    using c(2) inp(2) by (simp add: request_def)
  ultimately show ?thesis
    using wf_cluster_at [OF cl] run_text [OF c r] by (simp add: run_on_def)
qed

lemma broadcast_gathers:
  assumes cl: "wf_cluster cl" and c: "nul_free c" "length c \<le> MAX_TYPED" and inp: "nul_free inp" "length inp \<le> MAX_OUTPUT_SIZE"
  shows "\<forall>i \<in> set is. i < config_count (config cl) \<Longrightarrow> listening cl w \<Longrightarrow> length res \<le> MAX_OUTPUT_SIZE \<Longrightarrow>
    broadcast (node_exec serve) cl c inp is res w =
      (let (w', out) = gather run c inp (map (addr cl) (filter (\<lambda>i. active_connections cl ! i) is)) res w
       in if length out \<le> MAX_OUTPUT_SIZE then Inr (w', Inr out) else Inl Buffer_overflow)"
proof (induction "is" arbitrary: res w)
  case (Cons i "is")
  note at = wf_cluster_at [OF cl, of i]
  show ?case
  proof (cases "active_connections cl ! i")
    case False
    with Cons at show ?thesis by simp
  next
    case True
    then obtain m where m: "w (addr cl i) = Some m" using Cons.prems(1,2) by (auto simp: listening_def)
    obtain m' out where r: "run m c inp = (m', out)" by (cases "run m c inp")
    note out = run_text [OF c r]
    have on: "run_on (node_exec serve) cl w (int i) c inp = Inr (w(addr cl i \<mapsto> m'), Inr out)"
      using run_on_node [where w = w and i = i, OF cl _ m c inp r] Cons.prems(1) by simp
    let ?g = "gather run c inp (map (addr cl) (filter (\<lambda>i. active_connections cl ! i) is)) (res @ out) (w(addr cl i \<mapsto> m'))"
    have lis: "listening cl (w(addr cl i \<mapsto> m'))" using Cons.prems(2) by (simp add: listening_def)
    show ?thesis
    proof (cases "length (res @ out) \<le> MAX_OUTPUT_SIZE")
      case True
      then have "strcat_to (MAX_OUTPUT_SIZE + 1) res (cstr out) = Inr (res @ out)"
        using out by (simp add: strcat_to_def strcpy_to_def)
      moreover note Cons.IH [OF _ lis True] Cons.prems(1)
      ultimately show ?thesis
        using True \<open>active_connections cl ! i\<close> at on m r Cons.prems(1) by (simp del: fun_upd_apply)
    next
      case False
      then have "strcat_to (MAX_OUTPUT_SIZE + 1) res (cstr out) = Inl Buffer_overflow"
        using out by (simp add: strcat_to_def strcpy_to_def)
      moreover have "\<not> length (snd ?g) \<le> MAX_OUTPUT_SIZE" using False gather_longer [of "res @ out" run c inp] by (meson le_trans)
      ultimately show ?thesis
        using \<open>active_connections cl ! i\<close> at on m r Cons.prems(1) by (simp add: case_prod_beta)
    qed
  qed
qed simp

lemma gather_one:
  assumes "w a = Some m" "run m c inp = (m', out)"
  shows "gather run c inp [a] [] w = (w(a \<mapsto> m'), out)"
  using assms by simp

lemma gather_nul_free: "nul_free c \<Longrightarrow> length c \<le> MAX_TYPED \<Longrightarrow> nul_free res \<Longrightarrow> nul_free (snd (gather run c inp as res w))"
proof (induction "as" arbitrary: res w)
  case (Cons a "as")
  obtain m' out where r: "run (the (w a)) c inp = (m', out)" by (cases "run (the (w a)) c inp")
  have "nul_free (res @ out)" using run_text [OF Cons.prems(1,2) r] Cons.prems(3) by simp
  from Cons.IH [OF Cons.prems(1,2) this] show ?case by (simp add: r del: fun_upd_apply)
qed simp

lemma run_pipe_spec:
  assumes cl: "wf_cluster cl" "idx < config_count (config cl)" "active_connections cl ! idx"
  shows "\<forall>c \<in> set cs. runnable cl c \<Longrightarrow> listening cl w \<Longrightarrow> nul_free out \<Longrightarrow> length out \<le> MAX_OUTPUT_SIZE \<Longrightarrow>
    run_pipe (node_exec serve) cl idx cs out w =
      (case spec_pipe run cl idx cs out w of None \<Rightarrow> Inl Buffer_overflow | Some r \<Rightarrow> Inr r)"
proof (induction cs arbitrary: out w)
  case (Cons c cs)
  then have c: "nul_free (cmd c)" "length (cmd c) \<le> MAX_TYPED" by (simp_all add: runnable_def)
  obtain w' res where g: "gather run (cmd c) out (map (addr cl) (targets cl idx c)) [] w = (w', res)"
    by (cases "gather run (cmd c) out (map (addr cl) (targets cl idx c)) [] w")
  have lis: "listening cl w'" using gather_listening [OF Cons.prems(2), of run "cmd c" out "map (addr cl) (targets cl idx c)" "[]"] g by simp
  have plain: "nul_free res" using gather_nul_free [OF c, of "[]" out "map (addr cl) (targets cl idx c)" w] g by simp
  show ?case
  proof (cases "machine c = 0")
    case True
    then have "targets cl idx c = filter (\<lambda>i. active_connections cl ! i) [0..<config_count (config cl)]" by (simp add: targets_def)
    with broadcast_gathers [OF cl(1) c Cons.prems(3,4), of "[0..<config_count (config cl)]" w "[]"] Cons.prems(2) g
    have "broadcast (node_exec serve) cl (cmd c) out [0..<config_count (config cl)] [] w =
       (if length res \<le> MAX_OUTPUT_SIZE then Inr (w', Inr res) else Inl Buffer_overflow)" by simp
    with True g Cons.IH [OF _ lis plain] Cons.prems(1) show ?thesis by simp
  next
    case False
    define i where "i = (if machine c = -1 then idx else nat (machine c - 1))"
    have t: "targets cl idx c = [i]" using False by (simp add: targets_def i_def)
    have i: "i < config_count (config cl)" "active_connections cl ! i"
      using False cl(2,3) Cons.prems(1) by (auto simp: i_def runnable_def)
    have "config_count (config cl) \<le> MAX_CLIENTS_ALLOWED" using cl(1) by (simp add: wf_cluster_def wf_config_def)
    then have m: "(if machine c = -1 then Inr (int idx) else cint (machine c - 1)) = Inr (int i)"
      using False Cons.prems(1) by (auto simp: i_def cint_def in_int_def runnable_def)
    obtain m0 where m0: "w (addr cl i) = Some m0" using Cons.prems(2) i by (auto simp: listening_def)
    obtain m' out' where r: "run m0 (cmd c) out = (m', out')" by (cases "run m0 (cmd c) out")
    have w': "w' = w(addr cl i \<mapsto> m')" "res = out'" using g t m0 r by simp_all
    have "run_on (node_exec serve) cl w (int i) (cmd c) out = Inr (w', Inr res)"
      using run_on_node [where w = w and i = i, OF cl(1) i(1) m0 c Cons.prems(3,4) r] w' by simp
    moreover have "length res \<le> MAX_OUTPUT_SIZE" using run_text [OF c r] w' by simp
    ultimately show ?thesis
      using False m i wf_cluster_at(3) [OF cl(1) i(1)] g plain Cons.IH [OF _ lis plain] Cons.prems(1) by simp
  qed
qed simp

lemma typed_pipe:
  assumes "wf_cluster cl" "idx < config_count (config cl)" "active_connections cl ! idx" "listening cl w"
    and cs: "\<forall>c \<in> set cs. typeable c \<and> runnable cl c"
    and line: "length (show_cs_pipe cs) \<le> MAX_COMMAND_SIZE" "show_cs_pipe cs \<noteq> ''nodes''"
  shows "handle_command (node_exec serve) cl idx (show_cs_pipe cs) w =
     (case spec_pipe run cl idx cs [] w of None \<Rightarrow> Inl Buffer_overflow | Some (w', output) \<Rightarrow> Inr (w', output))"
proof -
  have "createCommandPipe (show_cs_pipe cs) initCommandPipe = Inr \<lparr>cmd_list = cs, cmd_count = length cs\<rparr>"
    using parse_show_cs_pipe [of cs initCommandPipe] cs
    by (simp add: createCommandPipe_def wf_cs_pipe_def initCommandPipe_def)
  moreover have "resetCommandPipe \<lparr>cmd_list = cs, cmd_count = length cs\<rparr> = Inr initCommandPipe"
    by (simp add: reset_command_pipe wf_cs_pipe_def)
  moreover have "run_pipe (node_exec serve) cl idx cs [] w =
      (case spec_pipe run cl idx cs [] w of None \<Rightarrow> Inl Buffer_overflow | Some r \<Rightarrow> Inr r)"
    using run_pipe_spec [OF assms(1-3), of cs w "[]"] assms(4) cs by simp
  ultimately show ?thesis using handle_line [OF line(1) _ line(2), of "node_exec serve" cl idx w] show_cs_pipe_nul_free [OF cs]
    by (auto split: option.splits)
qed

end

end
