(* ===== verification/Cluster_Client.thy ===== *)
theory Cluster_Client
  imports Cluster_Server
begin

text \<open>
  The client of the cluster shell, \<open>assignment-1/q2/clustershell_client.c\<close>: the process that runs the
  commands the server sends to this machine, and the process that reads the user's lines. The first
  one meets the server's contract, so whole pipes across machines do what they are meant to do.
\<close>

section \<open>Running a request\<close>

text \<open>
  \<open>buff\<close> is the array from \<open>cmd\<close> on, as far as it is used. \<open>chdir\<close> and \<open>popen\<close> say what the system
  does on a machine: the directory changed, or \<open>None\<close> when that fails; and the output the first
  \<open>read\<close> returns for a command and its standard input, at most 1024 characters of it.
\<close>

definition executeCmd ::
  "('m \<Rightarrow> string \<Rightarrow> 'm option) \<Rightarrow> ('m \<Rightarrow> string \<Rightarrow> string \<Rightarrow> 'm \<times> string) \<Rightarrow> 'm \<Rightarrow> string \<Rightarrow> ('m \<times> string option) res" where
  "executeCmd chdir popen m buff =
     (let cmd = dropWhile (\<lambda>c. c = SP) buff in
      if take 3 cmd = ''cd '' then
        let path = cstr (drop 3 cmd) in
        case chdir m path of
          None \<Rightarrow>
            rbind (strcpy_to (MAX_OUTPUT_SIZE + 1) (''Error occurred while changing path to '' @ path)) (\<lambda>out.
            Inr (m, Some out))
        | Some m' \<Rightarrow> Inr (m', None)
      else
        let actual_cmd_len = length (cstr cmd) in
        if length cmd \<le> actual_cmd_len + 1 then Inl Out_of_bounds
        else
          let cmd_input = cstr (drop (actual_cmd_len + 1) cmd);
              (m', out) = popen m (cstr cmd) cmd_input
          in Inr (m', Some (take MAX_OUTPUT_SIZE out)))"

text \<open>
  One round of the loop of lines 134 to 163 on the bytes of a connection: what is written back.
  \<open>stale\<close> is what the array holds behind them.
\<close>

definition serve_request ::
  "('m \<Rightarrow> string \<Rightarrow> 'm option) \<Rightarrow> ('m \<Rightarrow> string \<Rightarrow> string \<Rightarrow> 'm \<times> string) \<Rightarrow> string \<Rightarrow> 'm \<Rightarrow> string \<Rightarrow> ('m \<times> string) res" where
  "serve_request chdir popen stale m msg =
     (let sz = MAX_COMMAND_SIZE + 1 + MAX_OUTPUT_SIZE + 1; got = take sz msg in
      if length got = sz then Inl Out_of_bounds
      else
        rbind (executeCmd chdir popen m (got @ NUL # stale)) (\<lambda>(m', out).
        Inr (m', case out of None \<Rightarrow> [] | Some s \<Rightarrow> cstr s)))"

section \<open>Reading lines\<close>

text \<open>
  The loop of lines 176 to 224: what \<open>getline\<close> returns, with \<open>None\<close> for the end of the input, where
  \<open>count\<close> is -1 and line 189 writes in front of the buffer.
\<close>

datatype shell_action = Skip | Quit | Send_line string

definition read_line :: "string option \<Rightarrow> shell_action res" where
  "read_line line =
     (case line of
        None \<Rightarrow> Inl Out_of_bounds
      | Some l \<Rightarrow>
          if l = [] \<or> cstr l = [NL] then Inr Skip
          else
            let cmd_input = butlast l in
            if cstr cmd_input = ''exit'' then Inr Quit else Inr (Send_line cmd_input))"

text \<open>What is printed for the bytes of the answer.\<close>

definition show_answer :: "string \<Rightarrow> string res" where
  "show_answer bytes =
     (if bytes = [] then Inl (Exit_failure ''read'') else Inr (cstr (take MAX_OUTPUT_SIZE bytes) @ [NL]))"

section \<open>The contract\<close>

text \<open>What a command does on a machine.\<close>

definition run_command ::
  "('m \<Rightarrow> string \<Rightarrow> 'm option) \<Rightarrow> ('m \<Rightarrow> string \<Rightarrow> string \<Rightarrow> 'm \<times> string) \<Rightarrow> 'm \<Rightarrow> string \<Rightarrow> string \<Rightarrow> 'm \<times> string" where
  "run_command chdir popen m c inp =
     (let c = dropWhile (\<lambda>c. c = SP) c in
      if take 3 c = ''cd '' then
        (case chdir m (drop 3 c) of
           None \<Rightarrow> (m, ''Error occurred while changing path to '' @ drop 3 c)
         | Some m' \<Rightarrow> (m', []))
      else let (m', out) = popen m c inp in (m', cstr (take MAX_OUTPUT_SIZE out)))"

lemma take_3_append:
  assumes "NUL \<notin> set d" "length d = 3"
  shows "take 3 (c @ NUL # r) = d \<longleftrightarrow> take 3 c = d"
proof
  assume *: "take 3 (c @ NUL # r) = d"
  show "take 3 c = d"
  proof (cases "length c < 3")
    case True
    then have "NUL \<in> set (take 3 (c @ NUL # r))" by (cases "3 - length c") auto
    with * assms(1) show ?thesis by simp
  qed (use * in simp)
next
  assume "take 3 c = d"
  moreover from this have "3 \<le> length c" using assms(2) by (metis length_take min.absorb_iff1 min.commute)
  ultimately show "take 3 (c @ NUL # r) = d" by simp
qed

lemma drop_spaces_append: "dropWhile (\<lambda>c. c = SP) (c @ NUL # r) = dropWhile (\<lambda>c. c = SP) c @ NUL # r"
  by (induction c) auto

lemma serve_request_runs:
  assumes "nul_free c" "nul_free inp" "length c \<le> MAX_TYPED" "length inp \<le> MAX_OUTPUT_SIZE"
  shows "serve_request chdir popen stale m (request c inp) = Inr (run_command chdir popen m c inp)"
proof -
  define d where "d = dropWhile (\<lambda>c. c = SP) c"
  have d: "nul_free d" "length d \<le> MAX_TYPED"
    using assms(1,3) length_dropWhile_le [of "\<lambda>c. c = SP" c] by (auto simp: d_def dest: set_dropWhileD)
  have req: "take (MAX_COMMAND_SIZE + 1 + MAX_OUTPUT_SIZE + 1) (request c inp) = request c inp"
    "length (request c inp) < MAX_COMMAND_SIZE + 1 + MAX_OUTPUT_SIZE + 1"
    using assms(3,4) by (simp_all add: request_def)
  let ?buff = "request c inp @ NUL # stale"
  have cmd: "dropWhile (\<lambda>c. c = SP) ?buff = d @ NUL # inp @ NUL # NUL # stale"
    by (simp add: request_def drop_spaces_append d_def)
  have cd: "take 3 (d @ NUL # r) = ''cd '' \<longleftrightarrow> take 3 d = ''cd ''" for r
    by (rule take_3_append) simp_all
  show ?thesis
  proof (cases "take 3 d = ''cd ''")
    case True
    then obtain e where e: "d = ''cd '' @ e" by (metis append_take_drop_id)
    then have "nul_free e" "length e \<le> MAX_TYPED" using d by auto
    then show ?thesis
      using e req cmd by (simp add: serve_request_def executeCmd_def run_command_def d_def [symmetric] strcpy_to_def
          Let_def split: option.splits)
  next
    case False
    then have "executeCmd chdir popen m ?buff =
        Inr (let (m', out) = popen m d inp in (m', Some (take MAX_OUTPUT_SIZE out)))"
      using d assms(2) cmd cd by (simp add: executeCmd_def Let_def case_prod_beta)
    with False req show ?thesis
      by (simp add: serve_request_def run_command_def d_def [symmetric] Let_def case_prod_beta)
  qed
qed

interpretation node: cluster_node "serve_request chdir popen stale" "run_command chdir popen" for chdir popen stale
proof
  fix c inp :: string and m
  assume "nul_free c" "nul_free inp" "length c \<le> MAX_TYPED" "length inp \<le> MAX_OUTPUT_SIZE"
  then show "serve_request chdir popen stale m (request c inp) = Inr (run_command chdir popen m c inp)"
    by (rule serve_request_runs)
next
  fix c inp out :: string and m m'
  assume c: "nul_free c" "length c \<le> MAX_TYPED" and r: "run_command chdir popen m c inp = (m', out)"
  define d where "d = dropWhile (\<lambda>c. c = SP) c"
  have d: "nul_free d" "length d \<le> MAX_TYPED"
    using c length_dropWhile_le [of "\<lambda>c. c = SP" c] by (auto simp: d_def dest: set_dropWhileD)
  have "length (cstr (take MAX_OUTPUT_SIZE s)) \<le> MAX_OUTPUT_SIZE" for s
    using length_cstr_le [of "take MAX_OUTPUT_SIZE s"] by (simp add: order_trans)
  then show "nul_free out \<and> length out \<le> MAX_OUTPUT_SIZE"
    using r d by (auto simp: run_command_def d_def [symmetric] Let_def split: if_splits option.splits prod.splits dest: in_set_dropD)
qed

section \<open>Pipes across machines\<close>

text \<open>
  C5: a pipe typed by a user does what it means across the cluster. The server parses the printed form
  of the commands, sends each of them with the output of the one before to its machine (to all connected
  ones for a broadcast, joining their outputs), the client programs there run it, and the answer is the
  output of the last one; only joined outputs of more than 1024 characters overflow the server's buffer.
\<close>

theorem pipe_runs_across_machines:
  assumes "wf_cluster cl" "idx < config_count (config cl)" "active_connections cl ! idx" "listening cl w"
    and "\<forall>c \<in> set cs. typeable c \<and> runnable cl c" "length (show_cs_pipe cs) \<le> MAX_COMMAND_SIZE"
    and "show_cs_pipe cs \<noteq> ''nodes''"
  shows "handle_command (node_exec (serve_request chdir popen stale)) cl idx (show_cs_pipe cs) w =
     (case spec_pipe (run_command chdir popen) cl idx cs [] w of
        None \<Rightarrow> Inl Buffer_overflow
      | Some (w', output) \<Rightarrow> Inr (w', output))"
  by (rule node.typed_pipe) (use assms in auto)

theorem pipe_runs_across_machines_witness:
  "handle_command
     (node_exec (serve_request (\<lambda>m p. None) (\<lambda>m c inp. (m, m @ CHR '':'' # c @ CHR ''('' # inp @ '')'')) ''junk''))
     \<lparr>config = \<lparr>config_data = [''10.0.0.1'', ''10.0.0.2''], config_count = 2\<rparr>,
        active_connections = [True, True] @ replicate 98 False, connection_ports = [8001, 8002] @ replicate 98 0\<rparr>
     0 ''n2.ls|n*.wc|sort''
     [(''10.0.0.1'', 8001) \<mapsto> ''a'', (''10.0.0.2'', 8002) \<mapsto> ''b''] =
   Inr ([(''10.0.0.1'', 8001) \<mapsto> ''a'', (''10.0.0.2'', 8002) \<mapsto> ''b''], ''a:sort(a:wc(b:ls())b:wc(b:ls()))'')"
proof -
  let ?cl = "\<lparr>config = \<lparr>config_data = [''10.0.0.1'', ''10.0.0.2''], config_count = 2\<rparr>,
        active_connections = [True, True] @ replicate 98 False, connection_ports = [8001, 8002] @ replicate 98 0\<rparr>"
  let ?w = "[(''10.0.0.1'', 8001) \<mapsto> ''a'', (''10.0.0.2'', 8002) \<mapsto> ''b''] :: string world"
  let ?popen = "\<lambda>m c inp. (m, m @ CHR '':'' # c @ CHR ''('' # inp @ '')'')"
  let ?cs = "[\<lparr>cmd = ''ls'', machine = 2\<rparr>, \<lparr>cmd = ''wc'', machine = 0\<rparr>, \<lparr>cmd = ''sort'', machine = -1\<rparr>]"
  have line: "show_cs_pipe ?cs = ''n2.ls|n*.wc|sort''" by code_simp
  have cl: "wf_cluster ?cl" by (simp add: wf_cluster_def wf_config_def)
  have lis: "listening ?cl ?w" by (simp add: listening_def addr_def nth_Cons' less_Suc_eq numeral_2_eq_2)
  have cs: "\<forall>c \<in> set ?cs. typeable c \<and> runnable ?cl c"
    by (simp add: typeable_def runnable_def trim_last_def names_machine_def)
  have two: "[0..<2] = [0, 1 :: nat]" by (simp add: upt_rec)
  have run: "run_command (\<lambda>m p. None) ?popen m c inp = (m, cstr (take MAX_OUTPUT_SIZE (m @ CHR '':'' # c @ CHR ''('' # inp @ '')'')))"
    if "c = ''ls'' \<or> c = ''wc'' \<or> c = ''sort''" for m c inp
    using that by (auto simp: run_command_def)
  have spec: "spec_pipe (run_command (\<lambda>m p. None) ?popen) ?cl 0 ?cs [] ?w = Some (?w, ''a:sort(a:wc(b:ls())b:wc(b:ls()))'')"
    by (simp add: targets_def two addr_def run) (rule ext, simp)
  have p: "0 < config_count (config ?cl)" "active_connections ?cl ! 0"
    "length (show_cs_pipe ?cs) \<le> MAX_COMMAND_SIZE" "show_cs_pipe ?cs \<noteq> ''nodes''"
    unfolding line by simp_all
  from pipe_runs_across_machines [OF cl p(1,2) lis cs p(3,4), of "\<lambda>m p. None" ?popen "''junk''"]
  show ?thesis unfolding line spec by (simp only: option.case prod.case)
qed

end
