(* ===== verification/Cluster_Main.thy ===== *)
theory Cluster_Main
  imports Cluster_Client
begin

text \<open>
  The two programs of the cluster shell as processes: the set-up of the sockets
  (\<open>assignment-1/q2/utils.c\<close>), \<open>main\<close> of the server up to its loop, and the client, whose \<open>main\<close>
  forks into a child that serves requests and a parent that reads the user's lines
  (\<open>assignment-1/q2/clustershell_client.c\<close>). The client's two processes are a state machine: every
  handler of a signal is one step, and so is every return of a call that waits.
\<close>

section \<open>Exits\<close>

text \<open>Both close two descriptors, which the end of the process does as well, and write to the error output.\<close>

definition errExit :: "string \<Rightarrow> 'a res" where
  "errExit err = Inl (Exit_failure err)"

definition cs_assert :: "bool \<Rightarrow> string \<Rightarrow> unit res" where
  "cs_assert condition error_string = (if \<not> condition then errExit error_string else Inr ())"

section \<open>Sockets\<close>

text \<open>Port numbers are 16 bits wide; \<open>htons\<close> swaps the two bytes, as the machines it runs on need.\<close>

unbundle bit_operations_syntax

definition htons :: "int \<Rightarrow> 16 word" where
  "htons port = (let p = word_of_int port :: 16 word in push_bit 8 p OR drop_bit 8 p)"

definition ntohs :: "16 word \<Rightarrow> 16 word" where
  "ntohs p = push_bit 8 p OR drop_bit 8 p"

lemma ntohs_htons: "ntohs (htons port) = word_of_int port"
proof (rule bit_word_eqI)
  fix n
  assume n: "n < LENGTH(16)"
  consider "n < 8" | "8 \<le> n" "n < 16" using n by (cases "n < 8") auto
  then show "bit (ntohs (htons port)) n = bit (word_of_int port :: 16 word) n"
    by cases (auto simp: ntohs_def htons_def Let_def bit_or_iff bit_push_bit_iff bit_drop_bit_eq bit_word_of_int_iff)
qed

record sockaddr =
  sin_addr :: string
  sin_port :: "16 word"

text \<open>What the system calls answer.\<close>

record net_calls =
  socket_ok :: bool
  setsockopt_ok :: bool
  bind_ok :: "sockaddr \<Rightarrow> bool"
  listen_ok :: bool
  connect_ok :: "sockaddr \<Rightarrow> bool"

definition serverSetup :: "net_calls \<Rightarrow> int \<Rightarrow> sockaddr res" where
  "serverSetup sys port =
     (let saddr = \<lparr>sin_addr = ''0.0.0.0'', sin_port = htons port\<rparr> in
      rbind (cs_assert (socket_ok sys) ''server setup error'') (\<lambda>_.
      rbind (cs_assert (setsockopt_ok sys) ''setsockopt error'') (\<lambda>_.
      rbind (cs_assert (bind_ok sys saddr) ''server bind error'') (\<lambda>_.
      rbind (cs_assert (listen_ok sys) ''server listen error'') (\<lambda>_. Inr saddr)))))"

definition clientSetup :: "net_calls \<Rightarrow> string \<Rightarrow> int \<Rightarrow> sockaddr res" where
  "clientSetup sys address port =
     (let saddr = \<lparr>sin_addr = address, sin_port = htons port\<rparr> in
      if \<not> socket_ok sys then errExit ''[clientSetup] socket creation error''
      else if \<not> connect_ok sys saddr then errExit ''[clientSetup] connect error''
      else Inr saddr)"

lemma serverSetup_Inr:
  "serverSetup sys port = Inr sa \<longleftrightarrow>
     sa = \<lparr>sin_addr = ''0.0.0.0'', sin_port = htons port\<rparr> \<and>
     socket_ok sys \<and> setsockopt_ok sys \<and> bind_ok sys sa \<and> listen_ok sys"
  by (auto simp: serverSetup_def cs_assert_def errExit_def Let_def)

section \<open>Printing and freeing\<close>

definition printCsCommand :: "cs_command \<Rightarrow> string" where
  "printCsCommand c =
     [NL] @ ''=== Begin Command ==='' @ [NL] @
     (if 0 < machine c then ''Command: '' @ cmd c @ '', Machine: n'' @ show_int (machine c)
      else if machine c = -1 then ''Command: '' @ cmd c @ '', Machine: local''
      else if machine c = 0 then ''Command: '' @ cmd c @ '', Machine: n*''
      else ''Command: '' @ cmd c @ '', Machine: invalid'') @
     [NL] @ ''=== End Command ==='' @ [NL]"

definition printCommandPipe :: "cs_pipe option \<Rightarrow> string" where
  "printCommandPipe p =
     (case p of
        None \<Rightarrow> ''Empty command pipe!'' @ [NL]
      | Some p \<Rightarrow> concat (map printCsCommand (cmd_list p)))"

text \<open>
  The loop of \<open>resetConfigObj\<close> over the array of addresses. It frees \<open>temp\<close>, which points into the
  array, and not the string it points to: the first round frees the array itself, which the second one
  then reads.
\<close>

fun free_config :: "bool \<Rightarrow> string list \<Rightarrow> unit res" where
  "free_config True ips = Inl Use_after_free"
| "free_config False [] = Inr ()"
| "free_config False (ip # ips) = free_config True ips"

definition resetConfigObj :: "parsed_config \<Rightarrow> parsed_config res" where
  "resetConfigObj cfg = rbind (free_config False (config_data cfg)) (\<lambda>_. Inr \<lparr>config_data = [], config_count = 0\<rparr>)"

section \<open>The server's main\<close>

abbreviation CLIENT_PORT :: int where "CLIENT_PORT \<equiv> 8000"

text \<open>\<open>main\<close> up to its loop, which creates one handler thread for every connection.\<close>

definition cluster_server_main ::
  "net_calls \<Rightarrow> string option \<Rightarrow> string \<Rightarrow> string list \<Rightarrow> (cluster_server \<times> sockaddr) res" where
  "cluster_server_main sys file junk argv =
     (if length argv \<noteq> 2 then errExit ''Usage: server.out <SERVER_PORT>''
      else
        rbind (cs_assert (atoi (argv ! 1) \<noteq> CLIENT_PORT) ''Given port reserved for client. Please enter a different port.'') (\<lambda>_.
        rbind (serverSetup sys (atoi (argv ! 1))) (\<lambda>sfd.
        rbind (parseConfigFile file junk) (\<lambda>cfg. Inr (server_start cfg, sfd)))))"

lemma parse_machines_count:
  "parse_machines ws ip acc = Inr ips \<Longrightarrow> length acc \<le> MAX_CLIENTS_ALLOWED \<Longrightarrow> length ips \<le> MAX_CLIENTS_ALLOWED"
  by (induction ws ip acc rule: parse_machines.induct) (auto simp: rbind_Inr_iff split: if_splits)

lemma parseConfigFile_wf: "parseConfigFile file junk = Inr cfg \<Longrightarrow> wf_config cfg"
  by (auto simp: parseConfigFile_def rbind_Inr_iff wf_config_def split: option.splits dest: parse_machines_count)

text \<open>
  A server that starts is in good order and listens on the port it was given, modulo 65536. The
  reserved port 8000 is refused only when it is written as such.
\<close>

theorem server_main_starts:
  assumes "cluster_server_main sys file junk argv = Inr (S, sa)"
  shows "server_ok S \<and> (\<forall>t. handlers S t = None) \<and>
         uint (ntohs (sin_port sa)) = atoi (argv ! 1) mod 65536 \<and>
         atoi (argv ! 1) \<noteq> CLIENT_PORT"
proof -
  obtain cfg where *: "serverSetup sys (atoi (argv ! 1)) = Inr sa" "parseConfigFile file junk = Inr cfg"
      "S = server_start cfg" "atoi (argv ! 1) \<noteq> CLIENT_PORT"
    using assms by (auto simp: cluster_server_main_def errExit_def cs_assert_def rbind_Inr_iff split: if_splits)
  have "server_ok S" using server_start_ok [OF parseConfigFile_wf [OF *(2)]] *(3) by simp
  moreover have "uint (ntohs (sin_port sa)) = atoi (argv ! 1) mod 65536"
    using *(1) by (simp add: serverSetup_Inr ntohs_htons uint_word_of_int)
  ultimately show ?thesis using * by (simp add: server_start_def)
qed

theorem server_main_starts_witness:
  "\<exists>S sa. cluster_server_main \<lparr>socket_ok = True, setsockopt_ok = True, bind_ok = \<lambda>_. True, listen_ok = True, connect_ok = \<lambda>_. True\<rparr>
       (Some ''n1 10.0.0.1 n2 10.0.0.2'') '''' [''server.out'', ''73536''] = Inr (S, sa) \<and>
     server_ok S \<and> uint (ntohs (sin_port sa)) = CLIENT_PORT"
proof -
  let ?sys = "\<lparr>socket_ok = True, setsockopt_ok = True, bind_ok = \<lambda>_. True, listen_ok = True, connect_ok = \<lambda>_. True\<rparr>"
  let ?argv = "[''server.out'', ''73536'']"
  have port: "atoi ''73536'' = 73536" by code_simp
  have "words ''n1 10.0.0.1 n2 10.0.0.2'' = [''n1'', ''10.0.0.1'', ''n2'', ''10.0.0.2'']" by code_simp
  then have "parseConfigFile (Some ''n1 10.0.0.1 n2 10.0.0.2'') '''' =
      Inr \<lparr>config_data = [''10.0.0.1'', ''10.0.0.2''], config_count = 2\<rparr>"
    by (simp add: parseConfigFile_def strcpy_to_def)
  then obtain S sa where S: "cluster_server_main ?sys (Some ''n1 10.0.0.1 n2 10.0.0.2'') '''' ?argv = Inr (S, sa)"
    using port by (simp add: cluster_server_main_def serverSetup_def cs_assert_def Let_def)
  from server_main_starts [OF S] port have "server_ok S" "uint (ntohs (sin_port sa)) = CLIENT_PORT" by simp_all
  with S show ?thesis by blast
qed

section \<open>The client's two processes\<close>

text \<open>
  Where the parent is: connecting to the server, at \<open>getline\<close>, at the \<open>read\<close> of the answer, past the
  \<open>kill\<close> of its child on the way out, or at its end. The child is setting up its socket, serving
  requests, or gone. Two signals can be pending, \<open>SIGUSR1\<close> for the child and \<open>SIGCHLD\<close> for the parent;
  \<open>screen\<close> is what the parent printed.
\<close>

datatype parent_state = Connecting | Prompting | Awaiting | Leaving nat | Ended nat

datatype child_state = Binding_port | Accepting | Gone

record cs_client =
  parent_at :: parent_state
  child_at :: child_state
  usr1 :: bool
  chld :: bool
  screen :: "string list"

abbreviation (input) EXIT_SUCCESS :: nat where "EXIT_SUCCESS \<equiv> 0"
abbreviation (input) EXIT_FAILURE :: nat where "EXIT_FAILURE \<equiv> 1"

abbreviation prompt :: string where "prompt \<equiv> ''shell> ''"

definition goodbye :: string where
  "goodbye = [NL] @ ''=== Disconnecting from server ==='' @ [NL]"

definition says :: "string \<Rightarrow> cs_client \<Rightarrow> cs_client" where
  "says s c = c\<lparr>screen := screen c @ [s]\<rparr>"

definition moves :: "parent_state \<Rightarrow> cs_client \<Rightarrow> cs_client" where
  "moves p c = c\<lparr>parent_at := p\<rparr>"

text \<open>The head of the parent's loop: the prompt is printed and \<open>getline\<close> waits.\<close>

definition next_round :: "cs_client \<Rightarrow> cs_client" where
  "next_round c = moves Prompting (says prompt c)"

definition kill_child :: "cs_client \<Rightarrow> cs_client" where
  "kill_child c = (if child_at c = Gone then c else c\<lparr>usr1 := True\<rparr>)"

text \<open>The end of the child, which the system reports to the parent.\<close>

definition child_exits :: "cs_client \<Rightarrow> cs_client" where
  "child_exits c = c\<lparr>child_at := Gone, usr1 := False, chld := True\<rparr>"

definition sigUsrHandler :: "cs_client \<Rightarrow> cs_client" where
  "sigUsrHandler c = child_exits c"

definition sigChldHandler :: "cs_client \<Rightarrow> cs_client" where
  "sigChldHandler c = moves (Ended EXIT_SUCCESS) (says goodbye (c\<lparr>chld := False\<rparr>))"

definition sigIntHandler :: "cs_client \<Rightarrow> cs_client" where
  "sigIntHandler c = moves (Ended EXIT_SUCCESS) (says goodbye c)"

text \<open>\<open>main\<close> up to the two processes.\<close>

definition cluster_client_main :: "bool \<Rightarrow> string list \<Rightarrow> cs_client res" where
  "cluster_client_main fork_ok argv =
     (if length argv \<noteq> 4 then errExit ''Usage: client.out <SERVER_IP> <SERVER_PORT> <CLIENT_PORT>''
      else
        rbind (cs_assert fork_ok ''client fork error'') (\<lambda>_.
        Inr \<lparr>parent_at = Connecting, child_at = Binding_port, usr1 = False, chld = False, screen = []\<rparr>))"

text \<open>
  The parent has connected: it writes its port and enters its loop. Then a line was read: the client
  and the bytes written; \<open>wrote\<close> says whether the \<open>write\<close> succeeds. Then the bytes of the answer.
\<close>

definition send_port :: "string list \<Rightarrow> cs_client \<Rightarrow> cs_client \<times> string" where
  "send_port argv c = (next_round c, cstr (argv ! 3))"

definition take_line :: "string option \<Rightarrow> bool \<Rightarrow> cs_client \<Rightarrow> (cs_client \<times> string) res" where
  "take_line line wrote c =
     rbind (read_line line) (\<lambda>a. Inr
       (case a of
          Skip \<Rightarrow> (next_round c, [])
        | Quit \<Rightarrow> (moves (Leaving EXIT_SUCCESS) (kill_child (says ([NL] @ ''Exiting...'' @ [NL]) c)), [])
        | Send_line l \<Rightarrow>
            if \<not> wrote then (moves (Leaving EXIT_FAILURE) (kill_child c), [])
            else (moves Awaiting c, l)))"

definition take_answer :: "string \<Rightarrow> cs_client \<Rightarrow> cs_client" where
  "take_answer bytes c =
     (case show_answer bytes of
        Inl e \<Rightarrow> moves (Leaving EXIT_FAILURE) (kill_child c)
      | Inr s \<Rightarrow> next_round (says s c))"

datatype client_event =
    Bound | Child_fails | Connected "string list" | Refused | Line "string option" bool | Answer string
  | Return | Usr1 | Chld | Ctrl_C

fun ended :: "parent_state \<Rightarrow> bool" where
  "ended (Ended k) = True"
| "ended p = False"

text \<open>
  The steps. The terminal sends \<open>SIGINT\<close> to both processes, and the child does not handle it. A line
  that faults the parent has no step.
\<close>

inductive client_step :: "cs_client \<Rightarrow> client_event \<Rightarrow> cs_client \<Rightarrow> bool" where
  bound: "child_at c = Binding_port \<Longrightarrow> client_step c Bound (c\<lparr>child_at := Accepting\<rparr>)"
| child_fails: "child_at c \<noteq> Gone \<Longrightarrow> client_step c Child_fails (child_exits c)"
| connected: "parent_at c = Connecting \<Longrightarrow> client_step c (Connected argv) (fst (send_port argv c))"
| refused: "parent_at c = Connecting \<Longrightarrow> client_step c Refused (moves (Ended EXIT_FAILURE) c)"
| line: "parent_at c = Prompting \<Longrightarrow> take_line l wrote c = Inr (c', bytes) \<Longrightarrow> client_step c (Line l wrote) c'"
| answer: "parent_at c = Awaiting \<Longrightarrow> client_step c (Answer bytes) (take_answer bytes c)"
| return_main: "parent_at c = Leaving k \<Longrightarrow> client_step c Return (moves (Ended k) c)"
| usr1: "usr1 c \<Longrightarrow> child_at c \<noteq> Gone \<Longrightarrow> client_step c Usr1 (sigUsrHandler c)"
| chld: "chld c \<Longrightarrow> \<not> ended (parent_at c) \<Longrightarrow> client_step c Chld (sigChldHandler c)"
| ctrl_c: "\<not> ended (parent_at c) \<Longrightarrow>
    client_step c Ctrl_C (sigIntHandler (if child_at c = Gone then c else child_exits c))"

inductive client_run :: "cs_client \<Rightarrow> client_event list \<Rightarrow> cs_client \<Rightarrow> bool" where
  run_nil: "client_run c [] c"
| run_cons: "client_step c e c' \<Longrightarrow> client_run c' es c'' \<Longrightarrow> client_run c (e # es) c''"

inductive_cases client_run_ConsE: "client_run c (e # es) c''"
inductive_simps client_run_Nil [simp]: "client_run c [] c'"

section \<open>The processes end together\<close>



lemmas client_defs = moves_def says_def next_round_def kill_child_def child_exits_def goodbye_def
  sigUsrHandler_def sigChldHandler_def sigIntHandler_def send_port_def take_answer_def





lemma client_start:
  assumes "cluster_client_main fork_ok argv = Inr c"
  shows "c = \<lparr>parent_at = Connecting, child_at = Binding_port, usr1 = False, chld = False, screen = []\<rparr>"
  using assms by (auto simp: cluster_client_main_def errExit_def cs_assert_def split: if_splits)



text \<open>
  C38: a client that cannot reach the server leaves its child behind. The parent ends without a signal,
  and whatever happens next, unless the child fails by itself, it keeps its port and waits for requests.
\<close>

theorem refused_client_leaves_child:
  assumes "cluster_client_main fork_ok argv = Inr c0" "client_run c0 [Bound, Refused] c"
    and "client_run c es c'" "Child_fails \<notin> set es"
  shows "parent_at c' = Ended EXIT_FAILURE \<and> child_at c' = Accepting"
proof -
  have c: "parent_at c = Ended EXIT_FAILURE" "child_at c = Accepting" "\<not> usr1 c"
    using assms(2) client_start [OF assms(1)]
    by (auto simp: client_defs elim!: client_run_ConsE client_step.cases)
  from assms(3) have "Child_fails \<notin> set es \<Longrightarrow> parent_at c = Ended EXIT_FAILURE \<Longrightarrow> child_at c = Accepting \<Longrightarrow> \<not> usr1 c \<Longrightarrow>
      parent_at c' = Ended EXIT_FAILURE \<and> child_at c' = Accepting \<and> \<not> usr1 c'"
    by (induction rule: client_run.induct) (auto elim!: client_step.cases)
  with assms(4) c show ?thesis by blast
qed

theorem refused_client_leaves_child_witness:
  "\<exists>c. client_run \<lparr>parent_at = Connecting, child_at = Binding_port, usr1 = False, chld = False, screen = []\<rparr> [Bound, Refused] c \<and>
     parent_at c = Ended EXIT_FAILURE \<and> child_at c = Accepting"
proof -
  let ?argv = "[''client'', ''10.0.0.9'', ''7000'', ''8001'']"
  let ?c0 = "\<lparr>parent_at = Connecting, child_at = Binding_port, usr1 = False, chld = False, screen = []\<rparr>"
  have main: "cluster_client_main True ?argv = Inr ?c0" by (simp add: cluster_client_main_def cs_assert_def)
  have run: "client_run ?c0 [Bound, Refused] (moves (Ended EXIT_FAILURE) (?c0\<lparr>child_at := Accepting\<rparr>))"
    by (intro run_cons [OF client_step.bound] run_cons [OF client_step.refused] run_nil) simp_all
  from refused_client_leaves_child [OF main run run_nil] run show ?thesis by auto
qed

end
