(* ===== verification/Cluster_System.thy ===== *)
theory Cluster_System
  imports Cluster_Main
begin

text \<open>
  The cluster shell as a whole: the server of \<open>Cluster_Server\<close>, any number of clients of
  \<open>Cluster_Main\<close>, the machines they serve, and the byte streams between them. The steps of the
  processes interleave freely. The properties say that the sessions of all users are those of one
  sequential execution of their commands, that every line is answered, and where that ends.
\<close>

section \<open>The state\<close>

text \<open>
  Client \<open>t\<close> runs at the address \<open>ip_of t\<close> with the arguments \<open>argv_of t\<close> and is served by the handler
  thread \<open>t\<close>. \<open>to_server\<close> and \<open>to_client\<close> are the bytes written and not yet read on its connection.
\<close>

record 'm cs_system =
  cs_server :: cluster_server
  net :: "'m world"
  shells :: "nat \<Rightarrow> cs_client"
  to_server :: "nat \<Rightarrow> string"
  to_client :: "nat \<Rightarrow> string"
  ip_of :: "nat \<Rightarrow> string"
  argv_of :: "nat \<Rightarrow> string list"

definition site :: "'m cs_system \<Rightarrow> nat \<Rightarrow> string \<times> int" where
  "site s t = (ip_of s t, atoi (argv_of s t ! 3))"

definition set_shell :: "nat \<Rightarrow> cs_client \<Rightarrow> 'm cs_system \<Rightarrow> 'm cs_system" where
  "set_shell t c s = s\<lparr>shells := (shells s)(t := c)\<rparr>"

text \<open>How many bytes the next \<open>read\<close> of a handler thread asks for.\<close>

fun room :: "handler \<Rightarrow> nat" where
  "room (Await_port i) = 10"
| "room (Serving i) = MAX_COMMAND_SIZE"

text \<open>What a handler writes back for the bytes it read: the text and its NUL (lines 183 and 328).\<close>

definition handler_answer :: "'w exec \<Rightarrow> cluster_server \<Rightarrow> 'w \<Rightarrow> nat \<Rightarrow> string \<Rightarrow> string" where
  "handler_answer exec S w t bytes =
     (case handlers S t of
        Some (Serving idx) \<Rightarrow>
          (case handle_command exec (cluster_state S) idx bytes w of
             Inr (w', output) \<Rightarrow> output @ [NUL]
           | Inl e \<Rightarrow> [])
      | _ \<Rightarrow> [])"

section \<open>The steps\<close>

datatype 'm sys_event =
    Binds nat 'm | Connects nat | Types nat string | Handles nat | Shows nat
  | Child_ends nat | Parent_ends nat client_event | Hangs_up nat

text \<open>
  A child that has bound its port listens at its site; when it ends the site is free again. A
  connection creates the handler thread and brings the port. A \<open>read\<close> returns what has been written, up
  to the bytes it asks for. The parent's end closes the connection. A fault of a thread that ends the
  server has no step.
\<close>

inductive sys_step ::
  "('m \<Rightarrow> string \<Rightarrow> ('m \<times> string) res) \<Rightarrow> 'm cs_system \<Rightarrow> 'm sys_event \<Rightarrow> 'm cs_system \<Rightarrow> bool" for serve where
  binds: "child_at (shells s t) = Binding_port \<Longrightarrow> net s (site s t) = None \<Longrightarrow>
    sys_step serve s (Binds t m)
      (set_shell t ((shells s t)\<lparr>child_at := Accepting\<rparr>) (s\<lparr>net := (net s)(site s t \<mapsto> m)\<rparr>))"
| connects: "parent_at (shells s t) = Connecting \<Longrightarrow> send_port (argv_of s t) (shells s t) = (c, bytes) \<Longrightarrow>
    connectionHandler (node_exec serve) (Accept t (ip_of s t)) (cs_server s, net s) = Inr (S', w') \<Longrightarrow>
    sys_step serve s (Connects t)
      (set_shell t c (s\<lparr>cs_server := S', net := w', to_server := (to_server s)(t := to_server s t @ bytes)\<rparr>))"
| types: "parent_at (shells s t) = Prompting \<Longrightarrow> take_line (Some l) True (shells s t) = Inr (c, bytes) \<Longrightarrow>
    sys_step serve s (Types t l) (set_shell t c (s\<lparr>to_server := (to_server s)(t := to_server s t @ bytes)\<rparr>))"
| handles: "handlers (cs_server s) t = Some h \<Longrightarrow> to_server s t \<noteq> [] \<Longrightarrow> bytes = take (room h) (to_server s t) \<Longrightarrow>
    connectionHandler (node_exec serve) (Got t bytes) (cs_server s, net s) = Inr (S', w') \<Longrightarrow>
    sys_step serve s (Handles t)
      (s\<lparr>cs_server := S', net := w', to_server := (to_server s)(t := drop (room h) (to_server s t)),
         to_client := (to_client s)(t := to_client s t @ handler_answer (node_exec serve) (cs_server s) (net s) t bytes)\<rparr>)"
| displays: "parent_at (shells s t) = Awaiting \<Longrightarrow> to_client s t \<noteq> [] \<Longrightarrow>
    sys_step serve s (Shows t)
      (set_shell t (take_answer (take MAX_OUTPUT_SIZE (to_client s t)) (shells s t))
        (s\<lparr>to_client := (to_client s)(t := drop MAX_OUTPUT_SIZE (to_client s t))\<rparr>))"
| child_ends: "child_at (shells s t) \<noteq> Gone \<Longrightarrow>
    sys_step serve s (Child_ends t)
      (set_shell t (child_exits (shells s t))
        (if child_at (shells s t) = Accepting then s\<lparr>net := (net s)(site s t := None)\<rparr> else s))"
| parent_ends: "e \<in> {Return, Chld} \<Longrightarrow> client_step (shells s t) e c \<Longrightarrow>
    sys_step serve s (Parent_ends t e) (set_shell t c s)"
| hangs_up: "ended (parent_at (shells s t)) \<Longrightarrow> handlers (cs_server s) t = Some h \<Longrightarrow> to_server s t = [] \<Longrightarrow>
    connectionHandler (node_exec serve) (Got t []) (cs_server s, net s) = Inr (S', w') \<Longrightarrow>
    sys_step serve s (Hangs_up t) (s\<lparr>cs_server := S', net := w'\<rparr>)"

inductive sys_run ::
  "('m \<Rightarrow> string \<Rightarrow> ('m \<times> string) res) \<Rightarrow> 'm cs_system \<Rightarrow> 'm sys_event list \<Rightarrow> 'm cs_system \<Rightarrow> bool" for serve where
  sys_nil: "sys_run serve s [] s"
| sys_snoc: "sys_run serve s es s' \<Longrightarrow> sys_step serve s' e s'' \<Longrightarrow> sys_run serve s (es @ [e]) s''"

declare connectionHandler.simps [simp del]

inductive_simps sys_types: "sys_step serve s (Types t l) s'"
inductive_simps sys_handles: "sys_step serve s (Handles t) s'"
inductive_simps sys_shows: "sys_step serve s (Shows t) s'"

lemma sys_run_one: "sys_step serve s e s' \<Longrightarrow> sys_run serve s [e] s'"
  using sys_snoc [OF sys_nil] by fastforce

lemma sys_run_two: "sys_step serve s e s' \<Longrightarrow> sys_step serve s' f s'' \<Longrightarrow> sys_run serve s [e, f] s''"
  using sys_snoc [OF sys_run_one] by fastforce

lemma sys_run_Cons: "sys_step serve s e s' \<Longrightarrow> sys_run serve s' es s'' \<Longrightarrow> sys_run serve s (e # es) s''"
proof (rotate_tac, induction rule: sys_run.induct)
  case (sys_snoc s' es r f r')
  then show ?case using sys_run.sys_snoc [of serve s "e # es" r f r'] by simp
qed (rule sys_run_one)

section \<open>The specification\<close>

text \<open>The lines users type, and what each of them has seen: everything printed but the prompts.\<close>

definition spoken :: "cluster \<Rightarrow> cs_command list \<Rightarrow> bool" where
  "spoken cl cs \<longleftrightarrow> cs \<noteq> [] \<and> (\<forall>c \<in> set cs. typeable c \<and> runnable cl c) \<and>
     length (show_cs_pipe cs) \<le> MAX_COMMAND_SIZE \<and> show_cs_pipe cs \<noteq> ''nodes'' \<and> show_cs_pipe cs \<noteq> ''exit''"

definition shown :: "cs_client \<Rightarrow> string list" where
  "shown c = map butlast (filter (\<lambda>x. x \<noteq> prompt) (screen c))"

text \<open>
  The commands of all users, executed one after the other on the machines: the machines afterwards and
  the output of each.
\<close>

fun sequential ::
  "('m \<Rightarrow> string \<Rightarrow> string \<Rightarrow> 'm \<times> string) \<Rightarrow> cluster \<Rightarrow> (nat \<Rightarrow> nat) \<Rightarrow> (nat \<times> cs_command list) list \<Rightarrow> 'm world \<Rightarrow>
     ('m world \<times> (nat \<times> string) list) option" where
  "sequential run cl mach [] w = Some (w, [])"
| "sequential run cl mach ((t, cs) # log) w =
     (case spec_pipe run cl (mach t) cs [] w of
        None \<Rightarrow> None
      | Some (w', out) \<Rightarrow>
          (case sequential run cl mach log w' of
             None \<Rightarrow> None
           | Some (w'', outs) \<Rightarrow> Some (w'', (t, out) # outs)))"

definition of_user :: "nat \<Rightarrow> (nat \<times> 'b) list \<Rightarrow> 'b list" where
  "of_user t xs = map snd (filter (\<lambda>(u, x). u = t) xs)"

fun typed :: "nat \<Rightarrow> 'm sys_event list \<Rightarrow> string list" where
  "typed t [] = []"
| "typed t (Types u l # es) = (if u = t then l # typed t es else typed t es)"
| "typed t (e # es) = typed t es"

definition mach_of :: "cluster_server \<Rightarrow> nat \<Rightarrow> nat" where
  "mach_of S t = (case handlers S t of Some h \<Rightarrow> machine_of h | None \<Rightarrow> 0)"

definition user :: "cluster_server \<Rightarrow> nat \<Rightarrow> bool" where
  "user S t \<longleftrightarrow> (\<exists>idx. handlers S t = Some (Serving idx))"

text \<open>A system all of whose users are at their prompts, and the events of their sessions.\<close>

definition ready :: "'m cs_system \<Rightarrow> bool" where
  "ready s \<longleftrightarrow> server_ok (cs_server s) \<and> listening (cluster_state (cs_server s)) (net s) \<and>
     (\<forall>t. user (cs_server s) t \<longrightarrow>
        parent_at (shells s t) = Prompting \<and> to_server s t = [] \<and> to_client s t = [])"

fun session_event :: "cluster_server \<Rightarrow> 'm sys_event \<Rightarrow> bool" where
  "session_event S (Types t l) = (user S t \<and> (\<exists>cs. spoken (cluster_state S) cs \<and> l = show_cs_pipe cs @ [NL]))"
| "session_event S (Handles t) = user S t"
| "session_event S (Shows t) = user S t"
| "session_event S e = False"

text \<open>Commands whose outputs, taken from all machines, leave room for the NUL in one \<open>read\<close> of a client.\<close>

definition quiet :: "('m \<Rightarrow> string \<Rightarrow> string \<Rightarrow> 'm \<times> string) \<Rightarrow> cluster \<Rightarrow> bool" where
  "quiet run cl \<longleftrightarrow>
     (\<forall>m c inp. length c \<le> MAX_TYPED \<longrightarrow> length (snd (run m c inp)) \<le> 1023 div max 1 (config_count (config cl)))"

lemma typed_append [simp]: "typed t (es @ fs) = typed t es @ typed t fs"
  by (induction t es rule: typed.induct) auto

lemma of_user_simps [simp]:
  "of_user t [] = []" "of_user t (xs @ ys) = of_user t xs @ of_user t ys"
  "of_user t ((u, x) # xs) = (if u = t then x # of_user t xs else of_user t xs)"
  by (simp_all add: of_user_def)

lemma sequential_snoc:
  assumes "sequential run cl mach log w = Some (w', outs)" "spec_pipe run cl (mach t) cs [] w' = Some (w'', out)"
  shows "sequential run cl mach (log @ [(t, cs)]) w = Some (w'', outs @ [(t, out)])"
  using assms by (induction run cl mach log w arbitrary: outs rule: sequential.induct) (auto split: option.splits)


section \<open>The steps of a session\<close>

lemma spoken_line:
  assumes "spoken cl cs"
  shows "nul_free (show_cs_pipe cs)" "show_cs_pipe cs \<noteq> []" "length (show_cs_pipe cs) \<le> MAX_COMMAND_SIZE"
    "show_cs_pipe cs \<noteq> ''nodes''" "show_cs_pipe cs \<noteq> ''exit''"
    "\<forall>c \<in> set cs. typeable c \<and> runnable cl c"
proof -
  show "nul_free (show_cs_pipe cs)" using assms show_cs_pipe_nul_free [of cs cl] by (simp add: spoken_def)
  show "show_cs_pipe cs \<noteq> []"
    using assms parse_show_cs(2) by (cases cs rule: show_cs_pipe.cases) (auto simp: spoken_def)
qed (use assms in \<open>simp_all add: spoken_def\<close>)

lemma take_line_spoken:
  assumes "spoken cl cs"
  shows "take_line (Some (show_cs_pipe cs @ [NL])) True c = Inr (moves Awaiting c, show_cs_pipe cs)"
proof -
  note l = spoken_line [OF assms]
  have "cstr (show_cs_pipe cs @ [NL]) = show_cs_pipe cs @ [NL]" "cstr (show_cs_pipe cs) = show_cs_pipe cs"
    using l(1) by simp_all
  with l show ?thesis by (simp add: take_line_def read_line_def)
qed

lemma take_answer_short:
  assumes "nul_free out" "length out \<le> 1023"
  shows "take_answer (take MAX_OUTPUT_SIZE (out @ [NUL])) c = next_round (says (out @ [NL]) c)"
  using assms by (simp add: take_answer_def show_answer_def)

lemma shown_simps [simp]:
  "shown (moves p c) = shown c"
  "shown (next_round (says (out @ [NL]) c)) = shown c @ [out]"
proof -
  have "out @ [NL] \<noteq> prompt"
  proof
    assume "out @ [NL] = prompt"
    then have "last (out @ [NL]) = last prompt" by (rule arg_cong)
    then show False by simp
  qed
  then show "shown (next_round (says (out @ [NL]) c)) = shown c @ [out]"
    by (simp add: shown_def next_round_def says_def moves_def)
qed (simp add: shown_def moves_def)

lemma user_machine:
  assumes "server_ok S" "handlers S t = Some (Serving idx)"
  shows "wf_cluster (cluster_state S)" "idx < config_count (config (cluster_state S))"
    "active_connections (cluster_state S) ! idx" "mach_of S t = idx"
proof -
  have "owned S t idx" using assms(2) by (simp add: owned_def)
  then show "idx < config_count (config (cluster_state S))" "active_connections (cluster_state S) ! idx"
    using assms(1) unfolding server_ok_def by blast+
qed (use assms in \<open>simp_all add: server_ok_def wf_cluster_def mach_of_def\<close>)

text \<open>
  Where a user is between two lines: at the prompt, with the line on its way to the server, or with the
  answer on its way back. \<open>log\<close> and \<open>outs\<close> are the commands the server has run and their outputs.
\<close>

definition user_inv ::
  "cluster \<Rightarrow> string list \<Rightarrow> string list \<Rightarrow> cs_command list list \<Rightarrow> string list \<Rightarrow> cs_client \<Rightarrow> string \<Rightarrow> string \<Rightarrow> bool" where
  "user_inv cl seen0 ls log outs c up down \<longleftrightarrow>
     (let said = map (\<lambda>cs. show_cs_pipe cs @ [NL]) log in
      parent_at c = Prompting \<and> up = [] \<and> down = [] \<and> ls = said \<and> shown c = seen0 @ outs \<or>
      (\<exists>cs. parent_at c = Awaiting \<and> spoken cl cs \<and> up = show_cs_pipe cs \<and> down = [] \<and>
         ls = said @ [show_cs_pipe cs @ [NL]] \<and> shown c = seen0 @ outs) \<or>
      (\<exists>out. parent_at c = Awaiting \<and> up = [] \<and> down = out @ [NUL] \<and> nul_free out \<and> length out \<le> 1023 \<and>
         ls = said \<and> shown c @ [out] = seen0 @ outs))"

context cluster_node
begin

lemma gather_length:
  assumes "\<forall>m. length (snd (run m c inp)) \<le> k"
  shows "length (snd (gather run c inp as res w)) \<le> length res + length as * k"
proof (induction "as" arbitrary: res w)
  case (Cons a "as")
  obtain m' out where r: "run (the (w a)) c inp = (m', out)" by (cases "run (the (w a)) c inp")
  have "length out \<le> k" using assms r by (metis snd_conv)
  then show ?case using Cons.IH [of "res @ out" "w(a \<mapsto> m')"] by (simp add: r del: fun_upd_apply)
qed simp

lemma targets_length: "length (targets cl idx c) \<le> max 1 (config_count (config cl))"
proof -
  have "length (filter P [0..<n]) \<le> n" for P :: "nat \<Rightarrow> bool" and n
    using length_filter_le [of P "[0..<n]"] by simp
  then show ?thesis by (auto simp: targets_def max_def intro: le_trans)
qed

lemma gather_quiet:
  assumes "quiet run cl" "runnable cl c"
  shows "length (snd (gather run (cmd c) inp (map (addr cl) (targets cl idx c)) [] w)) \<le> 1023"
proof -
  let ?n = "max 1 (config_count (config cl))"
  have "length (snd (gather run (cmd c) inp (map (addr cl) (targets cl idx c)) [] w)) \<le> length (targets cl idx c) * (1023 div ?n)"
    using gather_length [of "cmd c" inp "1023 div ?n" "map (addr cl) (targets cl idx c)" "[]" w] assms
    by (simp add: quiet_def runnable_def)
  also have "\<dots> \<le> ?n * (1023 div ?n)" by (rule mult_le_mono1) (rule targets_length)
  also have "\<dots> \<le> 1023" by (rule times_div_less_eq_dividend)
  finally show ?thesis .
qed

lemma spec_pipe_quiet:
  assumes "quiet run cl"
  shows "\<forall>c \<in> set cs. runnable cl c \<Longrightarrow> nul_free inp \<Longrightarrow> length inp \<le> 1023 \<Longrightarrow> listening cl w \<Longrightarrow>
    \<exists>w' out. spec_pipe run cl idx cs inp w = Some (w', out) \<and> nul_free out \<and> length out \<le> 1023 \<and> listening cl w'"
proof (induction cs arbitrary: inp w)
  case (Cons c cs)
  obtain w1 res where g: "gather run (cmd c) inp (map (addr cl) (targets cl idx c)) [] w = (w1, res)"
    by (cases "gather run (cmd c) inp (map (addr cl) (targets cl idx c)) [] w")
  have c: "runnable cl c" using Cons.prems(1) by simp
  then have "nul_free (cmd c)" "length (cmd c) \<le> MAX_TYPED" by (simp_all add: runnable_def)
  from gather_nul_free [OF this, of "[]" inp "map (addr cl) (targets cl idx c)" w] g have res: "nul_free res" by simp
  have len: "length res \<le> 1023" using gather_quiet [OF assms c, of inp idx w] g by simp
  have lis: "listening cl w1"
    using gather_listening [OF Cons.prems(4), of run "cmd c" inp "map (addr cl) (targets cl idx c)" "[]"] g by simp
  have "\<exists>w' out. spec_pipe run cl idx cs res w1 = Some (w', out) \<and> nul_free out \<and> length out \<le> 1023 \<and> listening cl w'"
    using Cons.prems(1) by (intro Cons.IH res len lis) simp
  then show ?case using g len by auto
qed simp

end

definition sess_inv ::
  "('m \<Rightarrow> string \<Rightarrow> string \<Rightarrow> 'm \<times> string) \<Rightarrow> 'm cs_system \<Rightarrow> 'm cs_system \<Rightarrow> 'm sys_event list \<Rightarrow>
     (nat \<times> cs_command list) list \<Rightarrow> (nat \<times> string) list \<Rightarrow> bool" where
  "sess_inv run s0 s es log outs \<longleftrightarrow>
     (let S = cs_server s0; cl = cluster_state S in
      cs_server s = S \<and> sequential run cl (mach_of S) log (net s0) = Some (net s, outs) \<and> listening cl (net s) \<and>
      (\<forall>t. user S t \<longrightarrow> user_inv cl (shown (shells s0 t)) (typed t es) (of_user t log) (of_user t outs)
         (shells s t) (to_server s t) (to_client s t)))"

lemma sess_inv_start: "ready s \<Longrightarrow> sess_inv run s s [] [] []"
  by (simp add: sess_inv_def ready_def user_inv_def Let_def)

lemma user_inv_at:
  assumes "user_inv cl seen0 ls log outs c up down"
  shows "parent_at c = Prompting \<Longrightarrow> up = [] \<and> down = [] \<and> ls = map (\<lambda>cs. show_cs_pipe cs @ [NL]) log \<and> shown c = seen0 @ outs"
    and "up \<noteq> [] \<Longrightarrow> \<exists>cs. parent_at c = Awaiting \<and> spoken cl cs \<and> up = show_cs_pipe cs \<and> down = [] \<and>
         ls = map (\<lambda>cs. show_cs_pipe cs @ [NL]) log @ [show_cs_pipe cs @ [NL]] \<and> shown c = seen0 @ outs"
    and "down \<noteq> [] \<Longrightarrow> \<exists>out. parent_at c = Awaiting \<and> up = [] \<and> down = out @ [NUL] \<and> nul_free out \<and> length out \<le> 1023 \<and>
         ls = map (\<lambda>cs. show_cs_pipe cs @ [NL]) log \<and> shown c @ [out] = seen0 @ outs"
    and "parent_at c = Awaiting \<Longrightarrow> up \<noteq> [] \<or> down \<noteq> []"
    and "parent_at c = Prompting \<or> parent_at c = Awaiting"
  using assms by (auto simp: user_inv_def Let_def dest: spoken_line(2))


lemma sess_invI:
  assumes "sess_inv run s0 s es log outs" "user (cs_server s0) t"
    and "cs_server s' = cs_server s0"
    and "sequential run (cluster_state (cs_server s0)) (mach_of (cs_server s0)) log' (net s0) = Some (net s', outs')"
    and "listening (cluster_state (cs_server s0)) (net s')"
    and other: "\<And>u. u \<noteq> t \<Longrightarrow> of_user u log' = of_user u log \<and> of_user u outs' = of_user u outs \<and> typed u es' = typed u es \<and>
        shells s' u = shells s u \<and> to_server s' u = to_server s u \<and> to_client s' u = to_client s u"
    and "user_inv (cluster_state (cs_server s0)) (shown (shells s0 t)) (typed t es') (of_user t log') (of_user t outs')
        (shells s' t) (to_server s' t) (to_client s' t)"
  shows "sess_inv run s0 s' es' log' outs'"
  unfolding sess_inv_def Let_def
proof (intro conjI allI impI assms(3-5))
  fix u
  assume u: "user (cs_server s0) u"
  show "user_inv (cluster_state (cs_server s0)) (shown (shells s0 u)) (typed u es') (of_user u log') (of_user u outs')
      (shells s' u) (to_server s' u) (to_client s' u)"
  proof (cases "u = t")
    case True
    with assms(7) show ?thesis by simp
  next
    case False
    with other [OF False] assms(1) u show ?thesis by (simp add: sess_inv_def Let_def)
  qed
qed

context cluster_node
begin

lemma handled_line:
  assumes ok: "server_ok S" and h: "handlers S t = Some (Serving idx)" and lis: "listening (cluster_state S) w"
    and quiet: "quiet run (cluster_state S)" and cs: "spoken (cluster_state S) cs"
  shows "\<exists>w' out. spec_pipe run (cluster_state S) (mach_of S t) cs [] w = Some (w', out) \<and> nul_free out \<and> length out \<le> 1023 \<and>
      listening (cluster_state S) w' \<and>
      connectionHandler (node_exec serve) (Got t (show_cs_pipe cs)) (S, w) = Inr (S, w') \<and>
      handler_answer (node_exec serve) S w t (show_cs_pipe cs) = out @ [NUL]"
proof -
  note m = user_machine [OF ok h] and l = spoken_line [OF cs]
  have "\<exists>w' out. spec_pipe run (cluster_state S) idx cs [] w = Some (w', out) \<and> nul_free out \<and> length out \<le> 1023 \<and>
      listening (cluster_state S) w'"
    using l(6) lis by (intro spec_pipe_quiet [OF quiet]) auto
  then obtain w' out where r: "spec_pipe run (cluster_state S) idx cs [] w = Some (w', out)" "nul_free out" "length out \<le> 1023"
      "listening (cluster_state S) w'" by blast
  have "handle_command (node_exec serve) (cluster_state S) idx (show_cs_pipe cs) w = Inr (w', out)"
    using typed_pipe [OF m(1-3) lis l(6) l(3,4)] r(1) by simp
  with r h l(2) m(4) show ?thesis by (auto simp: handler_answer_def connectionHandler.simps)
qed

lemma session_step:
  assumes ready: "ready s0" and quiet: "quiet run (cluster_state (cs_server s0))"
    and inv: "sess_inv run s0 s es log outs" and step: "sys_step serve s e s'" and e: "session_event (cs_server s0) e"
  shows "\<exists>log' outs'. sess_inv run s0 s' (es @ [e]) log' outs'"
proof -
  let ?S = "cs_server s0"
  let ?cl = "cluster_state ?S"
  note I = inv [unfolded sess_inv_def Let_def]
  have ok: "server_ok ?S" using ready by (simp add: ready_def)
  show ?thesis
  proof (cases e)
    case (Types t l)
    then obtain cs where t: "user ?S t" and cs: "spoken ?cl cs" "l = show_cs_pipe cs @ [NL]" using e by auto
    obtain c bytes where c: "parent_at (shells s t) = Prompting" "take_line (Some l) True (shells s t) = Inr (c, bytes)"
        "s' = set_shell t c (s\<lparr>to_server := (to_server s)(t := to_server s t @ bytes)\<rparr>)"
      using step Types by (auto simp: sys_types)
    have b: "c = moves Awaiting (shells s t)" "bytes = show_cs_pipe cs"
      using c(2) take_line_spoken [OF cs(1)] cs(2) by auto
    have "user_inv ?cl (shown (shells s0 t)) (typed t es) (of_user t log) (of_user t outs) (shells s t) (to_server s t) (to_client s t)"
      using I t by blast
    note at = user_inv_at(1) [OF this c(1)]
    have "sess_inv run s0 s' (es @ [e]) log outs"
    proof (rule sess_invI [OF inv t])
      show "user_inv ?cl (shown (shells s0 t)) (typed t (es @ [e])) (of_user t log) (of_user t outs)
          (shells s' t) (to_server s' t) (to_client s' t)"
        using at cs b c(3) Types by (auto simp: user_inv_def set_shell_def moves_def shown_def)
    qed (use I c(3) Types in \<open>auto simp: set_shell_def\<close>)
    then show ?thesis by blast
  next
    case (Handles t)
    then have t: "user ?S t" using e by simp
    then obtain idx where h: "handlers ?S t = Some (Serving idx)" by (auto simp: user_def)
    have u: "user_inv ?cl (shown (shells s0 t)) (typed t es) (of_user t log) (of_user t outs) (shells s t) (to_server s t) (to_client s t)"
      using I t by blast
    have "to_server s t \<noteq> []" using step Handles by (auto simp: sys_handles)
    with user_inv_at(2) [OF u] obtain cs where cs: "parent_at (shells s t) = Awaiting" "spoken ?cl cs" "to_server s t = show_cs_pipe cs"
        "to_client s t = []" "typed t es = map (\<lambda>cs. show_cs_pipe cs @ [NL]) (of_user t log) @ [show_cs_pipe cs @ [NL]]"
        "shown (shells s t) = shown (shells s0 t) @ of_user t outs" by blast
    have lis: "listening ?cl (net s)" and srv: "cs_server s = ?S" using I by blast+
    obtain w' out where r: "spec_pipe run ?cl (mach_of ?S t) cs [] (net s) = Some (w', out)" "nul_free out" "length out \<le> 1023"
        "listening ?cl w'" "connectionHandler (node_exec serve) (Got t (show_cs_pipe cs)) (?S, net s) = Inr (?S, w')"
        "handler_answer (node_exec serve) ?S (net s) t (show_cs_pipe cs) = out @ [NUL]"
      using handled_line [OF ok h lis quiet cs(2)] by blast
    note l = spoken_line [OF cs(2)]
    have s': "s' = s\<lparr>cs_server := ?S, net := w', to_server := (to_server s)(t := []), to_client := (to_client s)(t := out @ [NUL])\<rparr>"
      using step Handles h srv cs(3,4) l(3) r(5,6) by (auto simp: sys_handles)
    have "sess_inv run s0 s' (es @ [e]) (log @ [(t, cs)]) (outs @ [(t, out)])"
    proof (rule sess_invI [OF inv t])
      show "sequential run ?cl (mach_of ?S) (log @ [(t, cs)]) (net s0) = Some (net s', outs @ [(t, out)])"
        using I r(1) s' by (simp add: sequential_snoc)
      show "user_inv ?cl (shown (shells s0 t)) (typed t (es @ [e])) (of_user t (log @ [(t, cs)])) (of_user t (outs @ [(t, out)]))
          (shells s' t) (to_server s' t) (to_client s' t)"
        using cs r(2,3) s' Handles by (auto simp: user_inv_def)
    qed (use r(4) s' Handles in auto)
    then show ?thesis by blast
  next
    case (Shows t)
    then have t: "user ?S t" using e by simp
    have u: "user_inv ?cl (shown (shells s0 t)) (typed t es) (of_user t log) (of_user t outs) (shells s t) (to_server s t) (to_client s t)"
      using I t by blast
    have "to_client s t \<noteq> []" using step Shows by (auto simp: sys_shows)
    with user_inv_at(3) [OF u] obtain out where o: "parent_at (shells s t) = Awaiting" "to_server s t = []" "to_client s t = out @ [NUL]"
        "nul_free out" "length out \<le> 1023" "typed t es = map (\<lambda>cs. show_cs_pipe cs @ [NL]) (of_user t log)"
        "shown (shells s t) @ [out] = shown (shells s0 t) @ of_user t outs" by blast
    have s': "s' = set_shell t (next_round (says (out @ [NL]) (shells s t))) (s\<lparr>to_client := (to_client s)(t := [])\<rparr>)"
      using step Shows o(3,5) take_answer_short [OF o(4,5)] by (auto simp: sys_shows)
    have "sess_inv run s0 s' (es @ [e]) log outs"
    proof (rule sess_invI [OF inv t])
      have "parent_at (next_round c) = Prompting" for c by (simp add: next_round_def moves_def)
      then show "user_inv ?cl (shown (shells s0 t)) (typed t (es @ [e])) (of_user t log) (of_user t outs)
          (shells s' t) (to_server s' t) (to_client s' t)"
        using o s' Shows by (auto simp: user_inv_def set_shell_def)
    qed (use I s' Shows in \<open>auto simp: set_shell_def\<close>)
    then show ?thesis by blast
  qed (use e in auto)
qed

lemma session_run:
  assumes "sys_run serve s0 es s" "ready s0" "quiet run (cluster_state (cs_server s0))"
    and "\<forall>e \<in> set es. session_event (cs_server s0) e"
  shows "\<exists>log outs. sess_inv run s0 s es log outs"
  using assms
proof (induction rule: sys_run.induct)
  case (sys_nil s)
  then show ?case using sess_inv_start by blast
next
  case (sys_snoc s0 es s e s')
  then obtain log outs where "sess_inv run s0 s es log outs" by auto
  then show ?case by (rule session_step [OF sys_snoc.prems(1,2) _ sys_snoc.hyps(2)]) (use sys_snoc.prems(3) in simp)
qed

end

context cluster_node
begin

lemma answer_comes:
  assumes ready: "ready s0" and quiet: "quiet run (cluster_state (cs_server s0))"
    and inv: "sess_inv run s0 s es log outs" and t: "user (cs_server s0) t" "parent_at (shells s t) = Awaiting"
  shows "\<exists>fs s'. sys_run serve s fs s' \<and> set fs \<subseteq> {Handles t, Shows t} \<and> length fs \<le> 2 \<and>
      parent_at (shells s' t) = Prompting \<and> (\<forall>u. u \<noteq> t \<longrightarrow> shells s' u = shells s u)"
proof -
  let ?S = "cs_server s0"
  note I = inv [unfolded sess_inv_def Let_def]
  have prompting: "parent_at (next_round c) = Prompting" for c by (simp add: next_round_def moves_def)
  have show_it: "\<exists>s'. sys_step serve r (Shows t) s' \<and> parent_at (shells s' t) = Prompting \<and> (\<forall>u. u \<noteq> t \<longrightarrow> shells s' u = shells r u)"
    if "parent_at (shells r t) = Awaiting" "to_client r t = out @ [NUL]" "nul_free out" "length out \<le> 1023" for r out
    using that take_answer_short [OF that(3,4)] prompting
    by (simp add: sys_shows set_shell_def)
  have u: "user_inv (cluster_state ?S) (shown (shells s0 t)) (typed t es) (of_user t log) (of_user t outs)
      (shells s t) (to_server s t) (to_client s t)" using I t by blast
  consider "to_server s t \<noteq> []" | "to_client s t \<noteq> []" using user_inv_at(4) [OF u t(2)] by blast
  then show ?thesis
  proof cases
    case 1
    then obtain cs where cs: "spoken (cluster_state ?S) cs" "to_server s t = show_cs_pipe cs" "to_client s t = []"
      using user_inv_at(2) [OF u] by blast
    obtain idx where h: "handlers ?S t = Some (Serving idx)" using t(1) by (auto simp: user_def)
    have lis: "listening (cluster_state ?S) (net s)" and srv: "cs_server s = ?S" and ok: "server_ok ?S"
      using I ready by (auto simp: ready_def)
    obtain w' out where r: "nul_free out" "length out \<le> 1023"
        "connectionHandler (node_exec serve) (Got t (show_cs_pipe cs)) (?S, net s) = Inr (?S, w')"
        "handler_answer (node_exec serve) ?S (net s) t (show_cs_pipe cs) = out @ [NUL]"
      using handled_line [OF ok h lis quiet cs(1)] by blast
    define s1 where "s1 = s\<lparr>cs_server := ?S, net := w', to_server := (to_server s)(t := drop MAX_COMMAND_SIZE (to_server s t)),
        to_client := (to_client s)(t := out @ [NUL])\<rparr>"
    have "sys_step serve s (Handles t) s1"
      using h srv cs 1 r(3,4) spoken_line(3) [OF cs(1)] by (simp add: sys_handles s1_def)
    moreover obtain s' where "sys_step serve s1 (Shows t) s'" "parent_at (shells s' t) = Prompting"
        "\<forall>u. u \<noteq> t \<longrightarrow> shells s' u = shells s1 u"
      using show_it [of s1 out] t(2) r(1,2) by (auto simp: s1_def)
    ultimately show ?thesis
      by (intro exI [of _ "[Handles t, Shows t]"] exI [of _ s']) (auto simp: s1_def intro: sys_run_two)
  next
    case 2
    then obtain out where "to_client s t = out @ [NUL]" "nul_free out" "length out \<le> 1023"
      using user_inv_at(3) [OF u] by blast
    then obtain s' where "sys_step serve s (Shows t) s'" "parent_at (shells s' t) = Prompting"
        "\<forall>u. u \<noteq> t \<longrightarrow> shells s' u = shells s u"
      using show_it [of s out] t(2) by auto
    then show ?thesis by (intro exI [of _ "[Shows t]"] exI [of _ s']) (auto intro: sys_run_one)
  qed
qed

end

lemma show_cs_targeted:
  assumes "machine c = int j + 1" "int j < 100" "nul_free (cmd c)" "length (cmd c) \<le> MAX_TYPED"
  shows "nul_free (show_cs c)" "length (show_cs c) \<le> MAX_COMMAND_SIZE" "show_cs c \<noteq> ''nodes''"
proof -
  have c: "show_cs c = CHR ''n'' # show_nat (nat (int j + 1)) @ CHR ''.'' # cmd c"
    using assms(1) by (simp add: show_cs_def show_int_def)
  have "length (show_nat (nat (int j + 1))) \<le> 3" using assms(2) by (intro show_nat_digit_count) simp
  with assms(3,4) show "nul_free (show_cs c)" "length (show_cs c) \<le> MAX_COMMAND_SIZE" by (simp_all add: c)
  have "CHR ''.'' \<in> set (show_cs c)" by (simp add: c)
  then show "show_cs c \<noteq> ''nodes''" by auto
qed

section \<open>Two users\<close>

text \<open>A system in which two users are at their prompts and every command prints \<open>ok\<close>.\<close>

lemma two_users:
  obtains s0 :: "nat cs_system" where
    "ready s0" "quiet (run_command (\<lambda>(m :: nat) p. Some m) (\<lambda>m c inp. (m, ''ok''))) (cluster_state (cs_server s0))"
    "handlers (cs_server s0) 1 = Some (Serving 0)" "handlers (cs_server s0) 2 = Some (Serving 1)"
    "parent_at (shells s0 1) = Prompting" "parent_at (shells s0 2) = Prompting"
    "child_at (shells s0 1) = Accepting" "child_at (shells s0 2) = Accepting"
    "shown (shells s0 1) = []" "usr1 (shells s0 2) = False"
    "site s0 2 = addr (cluster_state (cs_server s0)) 1"
    "spoken (cluster_state (cs_server s0)) [\<lparr>cmd = ''ls'', machine = 2\<rparr>]"
proof -
  define cl where "cl = \<lparr>config = \<lparr>config_data = [''10.0.0.1'', ''10.0.0.2''], config_count = 2\<rparr>,
        active_connections = [True, True] @ replicate 98 False, connection_ports = [8001, 8002] @ replicate 98 0\<rparr>"
  define S where "S = \<lparr>cluster_state = cl, handlers = [1 \<mapsto> Serving 0, 2 \<mapsto> Serving 1]\<rparr>"
  define c where "c = \<lparr>parent_at = Prompting, child_at = Accepting, usr1 = False, chld = False, screen = [prompt]\<rparr>"
  define s0 :: "nat cs_system" where "s0 = \<lparr>cs_server = S, net = (\<lambda>a. Some 0), shells = (\<lambda>t. c), to_server = (\<lambda>t. []), to_client = (\<lambda>t. []),
      ip_of = (\<lambda>t. if t = 1 then ''10.0.0.1'' else ''10.0.0.2''),
      argv_of = (\<lambda>t. [''client'', ''10.0.0.9'', ''7000'', if t = 1 then ''8001'' else ''8002''])\<rparr>"
  have act: "active_connections cl ! i \<longleftrightarrow> i < 2" if "i < 100" for i
    using that by (auto simp: cl_def nth_Cons' split: if_splits)
  have own: "owned S t i \<longleftrightarrow> t = 1 \<and> i = 0 \<or> t = 2 \<and> i = 1" for t i
    by (auto simp: owned_def S_def)
  have ok: "server_ok S"
    unfolding server_ok_def own using act by (auto simp: S_def cl_def wf_config_def)
  have port: "atoi ''8002'' = 8002" by code_simp
  have len: "length (snd (run_command (\<lambda>m p. Some m) (\<lambda>m c inp. (m, ''ok'')) m c inp)) \<le> 511" for m :: nat and c inp
    by (simp add: run_command_def Let_def cstr_def)
  have line: "show_cs_pipe [\<lparr>cmd = ''ls'', machine = 2\<rparr>] = ''n2.ls''" by code_simp
  have count: "config_count (config (cluster_state (cs_server s0))) = 2" by (simp add: s0_def S_def cl_def)
  have two: "1023 div max 1 2 = (511 :: nat)" by (simp add: max_def)
  show ?thesis
  proof (rule that [of s0])
    show "ready s0" using ok by (auto simp: ready_def s0_def c_def listening_def)
    show "quiet (run_command (\<lambda>(m :: nat) p. Some m) (\<lambda>m c inp. (m, ''ok''))) (cluster_state (cs_server s0))"
      unfolding quiet_def count two by (intro allI impI len)
    show "spoken (cluster_state (cs_server s0)) [\<lparr>cmd = ''ls'', machine = 2\<rparr>]"
      unfolding spoken_def line by (simp add: s0_def S_def cl_def typeable_def runnable_def trim_last_def)
    show "site s0 2 = addr (cluster_state (cs_server s0)) 1" using port by (simp add: site_def addr_def s0_def S_def cl_def)
  qed (simp_all add: s0_def S_def c_def shown_def)
qed

abbreviation ok_serve :: "nat \<Rightarrow> string \<Rightarrow> (nat \<times> string) res" where
  "ok_serve \<equiv> serve_request (\<lambda>m p. Some m) (\<lambda>m c inp. (m, ''ok'')) ''junk''"



section \<open>Properties\<close>





text \<open>
  C39: an answer that fills a client's \<open>read\<close> puts its session out of step. The 1024 characters that
  \<open>executeCmd\<close> returns at most are followed by a NUL, which stays behind: the answer to the next line is
  shown as empty before the server has even read that line.
\<close>

theorem long_answer_shifts_session:
  assumes "parent_at (shells s t) = Awaiting" "to_server s t = []"
    and "to_client s t = out @ [NUL]" "nul_free out" "length out = MAX_OUTPUT_SIZE" "spoken cl cs"
  shows "\<exists>s'. sys_run serve s [Shows t, Types t (show_cs_pipe cs @ [NL]), Shows t] s' \<and>
     shown (shells s' t) = shown (shells s t) @ [out, ''''] \<and> parent_at (shells s' t) = Prompting \<and>
     to_server s' t = show_cs_pipe cs"
proof -
  have prompting: "parent_at (next_round c) = Prompting" for c by (simp add: next_round_def moves_def)
  have first: "take_answer (take MAX_OUTPUT_SIZE (out @ [NUL])) c = next_round (says (out @ [NL]) c)" for c
    using assms(4,5) by (auto simp: take_answer_def show_answer_def)
  have second: "take_answer [NUL] c = next_round (says ('''' @ [NL]) c)" for c
    by (simp add: take_answer_def show_answer_def cstr_def)
  define c1 where "c1 = next_round (says (out @ [NL]) (shells s t))"
  define s1 where "s1 = set_shell t c1 (s\<lparr>to_client := (to_client s)(t := [NUL])\<rparr>)"
  define s2 where "s2 = set_shell t (moves Awaiting c1) (s1\<lparr>to_server := (to_server s1)(t := show_cs_pipe cs)\<rparr>)"
  define s3 where "s3 = set_shell t (next_round (says ('''' @ [NL]) (moves Awaiting c1))) (s2\<lparr>to_client := (to_client s2)(t := [])\<rparr>)"
  have "sys_step serve s (Shows t) s1"
    using assms(1,3,5) first by (simp add: sys_shows s1_def c1_def)
  moreover have "sys_step serve s1 (Types t (show_cs_pipe cs @ [NL])) s2"
    using take_line_spoken [OF assms(6), of c1] prompting assms(2)
    by (simp add: sys_types s2_def s1_def set_shell_def c1_def)
  moreover have "sys_step serve s2 (Shows t) s3"
    using second by (simp add: sys_shows s3_def s2_def s1_def set_shell_def moves_def)
  ultimately have "sys_run serve s [Shows t, Types t (show_cs_pipe cs @ [NL]), Shows t] s3"
    by (meson sys_run_Cons sys_run_one)
  moreover have "shown (shells s3 t) = shown (shells s t) @ [out, '''']"
    using shown_simps(2) [of "[]" "moves Awaiting c1"] by (simp add: s3_def c1_def set_shell_def)
  moreover have "parent_at (shells s3 t) = Prompting" "to_server s3 t = show_cs_pipe cs"
    using prompting by (simp_all add: s3_def s2_def set_shell_def)
  ultimately show ?thesis by blast
qed

text \<open>
  C40: a user who leaves can stop the server for everyone. After \<open>exit\<close> the child of that client is gone,
  but until the handler thread has read the end of the connection the machine counts as connected; a
  command for it, from any other user, makes \<open>clientSetup\<close> fail, which ends the server's process.
\<close>

theorem leaving_client_stops_server:
  assumes "ready s0" "user (cs_server s0) t" "handlers (cs_server s0) u = Some (Serving j)"
    and "child_at (shells s0 u) = Accepting" "site s0 u = addr (cluster_state (cs_server s0)) j"
    and c: "typeable c" "machine c = int j + 1" "nul_free (cmd c)" "length (cmd c) \<le> MAX_TYPED"
  shows "\<exists>s. sys_run serve s0 [Types u (''exit'' @ [NL]), Child_ends u] s \<and>
     connectionHandler (node_exec serve) (Got t (show_cs c)) (cs_server s, net s) = Inl (Exit_failure ''connect'')"
proof -
  let ?S = "cs_server s0"
  let ?cl = "cluster_state ?S"
  have u: "parent_at (shells s0 u) = Prompting" using assms(1,3) by (auto simp: ready_def user_def)
  define c1 where "c1 = moves (Leaving EXIT_SUCCESS) (kill_child (says ([NL] @ ''Exiting...'' @ [NL]) (shells s0 u)))"
  define s1 where "s1 = set_shell u c1 (s0\<lparr>to_server := (to_server s0)(u := to_server s0 u @ [])\<rparr>)"
  define s2 where "s2 = set_shell u (child_exits c1) (s1\<lparr>net := (net s0)(addr ?cl j := None)\<rparr>)"
  have line: "take_line (Some (''exit'' @ [NL])) True (shells s0 u) = Inr (c1, [])"
    by (simp add: take_line_def read_line_def c1_def)
  have first: "sys_step serve s0 (Types u (''exit'' @ [NL])) s1"
    unfolding s1_def by (rule sys_step.types [OF u line])
  have c1: "child_at c1 = Accepting" using assms(4) by (simp add: c1_def client_defs)
  have "site s1 u = addr ?cl j" using assms(5) by (simp add: s1_def set_shell_def site_def)
  then have "sys_step serve s1 (Child_ends u) s2"
    using sys_step.child_ends [of s1 u serve] c1 by (simp add: s2_def s1_def set_shell_def)
  with first have run: "sys_run serve s0 [Types u (''exit'' @ [NL]), Child_ends u] s2" by (rule sys_run_two)
  have ok: "server_ok ?S" using assms(1) by (simp add: ready_def)
  obtain i where i: "handlers ?S t = Some (Serving i)" using assms(2) by (auto simp: user_def)
  note m = user_machine [OF ok assms(3)]
  have at: "elem_at (config_data (config ?cl)) (int j) = Inr (fst (addr ?cl j))"
      "elem_at (connection_ports ?cl) (int j) = Inr (snd (addr ?cl j))" "elem_at (active_connections ?cl) (int j) = Inr True"
    using wf_cluster_at [OF m(1,2)] m(3) by simp_all
  have "int j < 100" using c(1,2) by (auto simp: typeable_def)
  then have cint: "cint (int j) = Inr (int j)" by (simp add: cint_def in_int_def)
  have "run_on (node_exec serve) ?cl ((net s0)(addr ?cl j := None)) (int j) (cmd c) [] = Inl (Exit_failure ''connect'')"
    using at c(4) by (simp add: run_on_def request_def node_exec_def)
  then have pipe: "run_pipe (node_exec serve) ?cl i [c] [] ((net s0)(addr ?cl j := None)) = Inl (Exit_failure ''connect'')"
    using c(2) cint m(2) at(3) by simp
  have l: "nul_free (show_cs c)" "length (show_cs c) \<le> MAX_COMMAND_SIZE" "show_cs c \<noteq> ''nodes''" "show_cs c \<noteq> []"
    using show_cs_targeted [OF c(2) \<open>int j < 100\<close> c(3,4)] parse_show_cs(2) [OF c(1)] by simp_all
  have "createCommandPipe (show_cs c) initCommandPipe = Inr \<lparr>cmd_list = [c], cmd_count = 1\<rparr>"
    using createCommandPipe_single [OF l(4)] parse_show_cs [OF c(1)] by simp
  then have "handle_command (node_exec serve) ?cl i (show_cs c) ((net s0)(addr ?cl j := None)) = Inl (Exit_failure ''connect'')"
    using handle_line [OF l(2,1,3), of "node_exec serve" ?cl i] pipe by simp
  then have "connectionHandler (node_exec serve) (Got t (show_cs c)) (cs_server s2, net s2) = Inl (Exit_failure ''connect'')"
    using i l(4) by (simp add: connectionHandler.simps s2_def s1_def set_shell_def)
  with run show ?thesis by blast
qed

theorem leaving_client_stops_server_witness:
  "\<exists>(s0 :: nat cs_system) s. ready s0 \<and> sys_run ok_serve s0 [Types 2 (''exit'' @ [NL]), Child_ends 2] s \<and>
     connectionHandler (node_exec ok_serve) (Got 1 ''n2.ls'') (cs_server s, net s) = Inl (Exit_failure ''connect'')"
proof -
  let ?c = "\<lparr>cmd = ''ls'', machine = 2\<rparr>"
  obtain s0 :: "nat cs_system" where s0: "ready s0" "handlers (cs_server s0) 1 = Some (Serving 0)"
      "handlers (cs_server s0) 2 = Some (Serving 1)" "child_at (shells s0 2) = Accepting"
      "site s0 2 = addr (cluster_state (cs_server s0)) 1"
    by (rule two_users) blast
  have u: "user (cs_server s0) 1" using s0(2) by (simp add: user_def)
  have line: "show_cs ?c = ''n2.ls''" by code_simp
  have c: "typeable ?c" "machine ?c = int 1 + 1" "nul_free (cmd ?c)" "length (cmd ?c) \<le> MAX_TYPED"
    by (simp_all add: typeable_def trim_last_def)
  from leaving_client_stops_server [OF s0(1) u s0(3-5) c, of ok_serve] s0(1) show ?thesis unfolding line by blast
qed

theorem long_answer_shifts_session_witness:
  "\<exists>(s :: nat cs_system) s'. sys_run ok_serve s [Shows 1, Types 1 (''n2.ls'' @ [NL]), Shows 1] s' \<and>
     shown (shells s' 1) = [replicate 1024 CHR ''x'', ''''] \<and> to_server s' 1 = ''n2.ls''"
proof -
  let ?cs = "[\<lparr>cmd = ''ls'', machine = 2\<rparr>]" and ?out = "replicate 1024 CHR ''x''"
  obtain s0 :: "nat cs_system" where s0: "ready s0" "handlers (cs_server s0) 1 = Some (Serving 0)" "shown (shells s0 1) = []"
      "spoken (cluster_state (cs_server s0)) ?cs"
    by (rule two_users) blast
  define s where "s = set_shell 1 (moves Awaiting (shells s0 1)) (s0\<lparr>to_client := (to_client s0)(1 := ?out @ [NUL])\<rparr>)"
  have line: "show_cs_pipe ?cs = ''n2.ls''" by code_simp
  have "parent_at (shells s 1) = Awaiting" by (simp add: s_def set_shell_def moves_def)
  moreover have "to_server s 1 = []" using s0(1,2) by (auto simp: s_def set_shell_def ready_def user_def)
  moreover have "to_client s 1 = ?out @ [NUL]" unfolding s_def set_shell_def by simp
  moreover have "nul_free ?out" "length ?out = MAX_OUTPUT_SIZE" by simp_all
  ultimately obtain s' where "sys_run ok_serve s [Shows 1, Types 1 (''n2.ls'' @ [NL]), Shows 1] s'"
      "shown (shells s' 1) = shown (shells s 1) @ [?out, '''']" "to_server s' 1 = ''n2.ls''"
    using long_answer_shifts_session [of s 1 ?out "cluster_state (cs_server s0)" ?cs ok_serve] s0(4) unfolding line by blast
  moreover have "shown (shells s 1) = []" using s0(3) by (simp add: s_def set_shell_def)
  ultimately show ?thesis by (intro exI [of _ s] exI [of _ s']) simp
qed

end
