(* ===== verification/Group_Parse.thy ===== *)
theory Group_Parse
  imports Prelude
begin

text \<open>
  The command lines of the group chat, \<open>assignment-2/q3/utils.c\<close>: \<open>parseCommand\<close>, which fills the
  fixed arrays of \<open>struct command\<close>, and \<open>printCommand\<close>. A line the code rejects is \<open>None\<close>.
\<close>

section \<open>Commands\<close>

abbreviation GROUP_NAME_LEN :: nat where "GROUP_NAME_LEN \<equiv> 20"
abbreviation IP_LEN :: nat where "IP_LEN \<equiv> 20"
abbreviation MESSAGE_LEN :: nat where "MESSAGE_LEN \<equiv> 100"
abbreviation NUM_OPTIONS :: nat where "NUM_OPTIONS \<equiv> 5"
abbreviation COMMAND_LEN :: nat where "COMMAND_LEN \<equiv> 1024"
abbreviation FILE_NAME_LEN :: nat where "FILE_NAME_LEN \<equiv> 20"

abbreviation QUOTE :: char where "QUOTE \<equiv> CHR 0x22"

text \<open>\<open>cmd_name\<close> with the member of the union it selects; of \<open>options\<close> the first \<open>option_cnt\<close>.\<close>

datatype gcommand =
    Create_group string string int
  | Join_group string
  | Leave_group string
  | Find_group string
  | Send_message string string
  | Init_poll string string "string list" int
  | List_groups
  | List_files
  | Request_file string
  | Help_cmd
  | Exit_cmd

text \<open>\<open>strtok (NULL, ds)\<close>: the token and what is left.\<close>

definition tok_next :: "char list \<Rightarrow> string \<Rightarrow> string option \<times> string" where
  "tok_next ds s = (case strtok ds s of None \<Rightarrow> (None, []) | Some (t, r) \<Rightarrow> (Some t, r))"

text \<open>The options of a poll, the loop of lines 131 to 142 with \<open>n\<close> rounds left.\<close>

fun parse_options :: "nat \<Rightarrow> nat \<Rightarrow> string \<Rightarrow> string list \<Rightarrow> string list option res" where
  "parse_options 0 i s acc = Inr (Some acc)"
| "parse_options (Suc n) i s acc =
     (let (opt, s) = tok_next [QUOTE] s; (_, s) = tok_next [QUOTE] s in
      case opt of
        None \<Rightarrow> Inr None
      | Some opt \<Rightarrow>
          if NUM_OPTIONS \<le> i then Inl Out_of_bounds
          else rbind (strcpy_to MESSAGE_LEN opt) (\<lambda>opt. parse_options n (i + 1) s (acc @ [opt])))"

definition parse_poll :: "string \<Rightarrow> gcommand option res" where
  "parse_poll s =
     (let (grp_name, s) = tok_next '' '' s; (que, s) = tok_next [QUOTE] s; (option_cnt, s) = tok_next '' '' s in
      case (grp_name, que, option_cnt) of
        (Some grp_name, Some que, Some option_cnt) \<Rightarrow>
          let cnt = atoi option_cnt in
          rbind (strcpy_to GROUP_NAME_LEN grp_name) (\<lambda>grp_name.
          rbind (strcpy_to MESSAGE_LEN que) (\<lambda>que.
          rbind (parse_options (nat cnt) 0 s []) (\<lambda>opts.
          Inr (map_option (\<lambda>opts. Init_poll grp_name que opts cnt) opts))))
      | _ \<Rightarrow> Inr None)"

text \<open>The commands with one name as argument.\<close>

definition parse_name :: "(string \<Rightarrow> gcommand) \<Rightarrow> string \<Rightarrow> gcommand option res" where
  "parse_name mk s =
     (case fst (tok_next '' '' s) of
        None \<Rightarrow> Inr None
      | Some name \<Rightarrow> rbind (strcpy_to GROUP_NAME_LEN name) (\<lambda>name. Inr (Some (mk name))))"

text \<open>Lines 31 to 187, on the first word of the line and what stands behind it.\<close>

definition parse_words :: "string \<Rightarrow> string \<Rightarrow> gcommand option res" where
  "parse_words cmd_name s =
     (if cmd_name = ''create-group'' then
        let (grp_name, s) = tok_next '' '' s; (addr, s) = tok_next '' '' s; (port, s) = tok_next '' '' s in
        case (grp_name, addr, port) of
          (Some grp_name, Some addr, Some port) \<Rightarrow>
            rbind (strcpy_to GROUP_NAME_LEN grp_name) (\<lambda>grp_name.
            rbind (strcpy_to IP_LEN addr) (\<lambda>addr.
            Inr (Some (Create_group grp_name addr (atoi port)))))
        | _ \<Rightarrow> Inr None
      else if cmd_name = ''join-group'' then parse_name Join_group s
      else if cmd_name = ''leave-group'' then parse_name Leave_group s
      else if cmd_name = ''find-group'' then parse_name Find_group s
      else if cmd_name = ''send-message'' then
        let (grp_name, s) = tok_next '' '' s; (msg, s) = tok_next [QUOTE] s in
        case (grp_name, msg) of
          (Some grp_name, Some msg) \<Rightarrow>
            rbind (strcpy_to GROUP_NAME_LEN grp_name) (\<lambda>grp_name.
            rbind (strcpy_to MESSAGE_LEN msg) (\<lambda>msg.
            Inr (Some (Send_message grp_name msg))))
        | _ \<Rightarrow> Inr None
      else if cmd_name = ''init-poll'' then parse_poll s
      else if cmd_name = ''list-groups'' then Inr (Some List_groups)
      else if cmd_name = ''help'' then Inr (Some Help_cmd)
      else if cmd_name = ''exit'' then Inr (Some Exit_cmd)
      else if cmd_name = ''list-files'' then Inr (Some List_files)
      else if cmd_name = ''request-file'' then
        (case fst (tok_next '' '' s) of
           None \<Rightarrow> Inr None
         | Some file_name \<Rightarrow>
             if FILE_NAME_LEN < length file_name then Inr None
             else rbind (strcpy_to FILE_NAME_LEN file_name) (\<lambda>file_name. Inr (Some (Request_file file_name))))
      else Inr None)"

text \<open>
  \<open>parseCommand\<close>: the copy into an array of 1024 characters, then the first \<open>strtok\<close>. A copy of
  exactly 1024 characters has no NUL.
\<close>

definition parseCommand :: "string \<Rightarrow> gcommand option res" where
  "parseCommand raw_cmd =
     (if raw_cmd = [] then Inl Out_of_bounds
      else
        let cmd_len = (if last raw_cmd = NL then length raw_cmd - 1 else length raw_cmd) in
        if cmd_len = 0 then Inr None
        else
          let cmd = (if hd raw_cmd = NL then take (cmd_len - 1) (drop 1 raw_cmd) else take cmd_len raw_cmd) in
          if COMMAND_LEN < length cmd then Inl Buffer_overflow
          else if length cmd = COMMAND_LEN then Inl Out_of_bounds
          else
            case strtok '' '' cmd of
              None \<Rightarrow> Inl Null_deref
            | Some (cmd_name, s) \<Rightarrow> parse_words cmd_name s)"

text \<open>\<open>printCommand\<close>, with its two misspelled names.\<close>

fun show_options :: "string list \<Rightarrow> string" where
  "show_options [] = []"
| "show_options (opt # opts) = SP # QUOTE # opt @ QUOTE # show_options opts"

fun printCommand :: "gcommand option \<Rightarrow> string" where
  "printCommand None = ''Command not recognized.'' @ [NL]"
| "printCommand (Some (Create_group g a p)) = ''create-group '' @ g @ SP # a @ SP # show_int p @ [NL]"
| "printCommand (Some (Join_group g)) = ''join-group '' @ g @ [NL]"
| "printCommand (Some (Leave_group g)) = ''leave-group '' @ g @ [NL]"
| "printCommand (Some (Find_group q)) = ''find-groups '' @ q @ [NL]"
| "printCommand (Some (Send_message g m)) = ''sned-message '' @ g @ SP # m @ [NL]"
| "printCommand (Some (Init_poll g q opts n)) =
     ''init-poll '' @ g @ SP # QUOTE # q @ QUOTE # SP # show_int n @ show_options opts @ [NL]"
| "printCommand (Some List_groups) = ''list-groups'' @ [NL]"
| "printCommand (Some List_files) = ''list-files'' @ [NL]"
| "printCommand (Some (Request_file f)) = ''request-file '' @ f @ [NL]"
| "printCommand (Some Help_cmd) = ''help'' @ [NL]"
| "printCommand (Some Exit_cmd) = ''exit'' @ [NL]"

section \<open>Printing and parsing\<close>

definition word :: "nat \<Rightarrow> string \<Rightarrow> bool" where
  "word n s \<longleftrightarrow> s \<noteq> [] \<and> length s < n \<and> SP \<notin> set s \<and> NL \<notin> set s"

definition quotable :: "string \<Rightarrow> bool" where
  "quotable s \<longleftrightarrow> s \<noteq> [] \<and> length s < MESSAGE_LEN \<and> QUOTE \<notin> set s"

fun wf_gcommand :: "gcommand \<Rightarrow> bool" where
  "wf_gcommand (Create_group g a p) \<longleftrightarrow> word GROUP_NAME_LEN g \<and> word IP_LEN a \<and> in_int p"
| "wf_gcommand (Join_group g) \<longleftrightarrow> word GROUP_NAME_LEN g"
| "wf_gcommand (Leave_group g) \<longleftrightarrow> word GROUP_NAME_LEN g"
| "wf_gcommand (Find_group q) \<longleftrightarrow> word GROUP_NAME_LEN q"
| "wf_gcommand (Send_message g m) \<longleftrightarrow> word GROUP_NAME_LEN g \<and> quotable m"
| "wf_gcommand (Init_poll g q opts n) \<longleftrightarrow>
     word GROUP_NAME_LEN g \<and> quotable q \<and> n = int (length opts) \<and> length opts \<le> NUM_OPTIONS \<and> (\<forall>s \<in> set opts. quotable s)"
| "wf_gcommand (Request_file f) \<longleftrightarrow> word FILE_NAME_LEN f"
| "wf_gcommand c \<longleftrightarrow> True"

text \<open>What a user types: the printed form, except for the two commands it misspells.\<close>

fun typed :: "gcommand \<Rightarrow> string" where
  "typed (Find_group q) = ''find-group '' @ q @ [NL]"
| "typed (Send_message g m) = ''send-message '' @ g @ SP # QUOTE # m @ QUOTE # [NL]"
| "typed c = printCommand (Some c)"

lemma tok_next_plain:
  assumes "t \<noteq> []" "\<forall>c \<in> set t. c \<notin> set ds"
  shows "d \<in> set ds \<Longrightarrow> tok_next ds (t @ d # r) = (Some t, r)" and "tok_next ds t = (Some t, [])"
  using strtok_plain [OF assms] by (simp_all add: tok_next_def)

lemma tok_next_skip: "d \<in> set ds \<Longrightarrow> tok_next ds (d # s) = tok_next ds s"
  by (simp add: tok_next_def strtok_def)

lemma tok_word: "word n t \<Longrightarrow> tok_next '' '' (t @ SP # r) = (Some t, r)" "word n t \<Longrightarrow> tok_next '' '' t = (Some t, [])"
  using tok_next_plain [of t "'' ''"] by (auto simp: word_def)

lemma tok_quoted: "quotable t \<Longrightarrow> tok_next [QUOTE] (t @ QUOTE # r) = (Some t, r)"
  using tok_next_plain [of t "[QUOTE]"] by (auto simp: quotable_def)

lemma strcpy_word [simp]: "word n t \<Longrightarrow> strcpy_to n t = Inr t"
  by (simp add: word_def)

lemma strcpy_quotable [simp]: "quotable t \<Longrightarrow> strcpy_to MESSAGE_LEN t = Inr t"
  by (simp add: quotable_def)

lemma show_int_spaceless: "SP \<notin> set (show_int v)" "show_int v \<noteq> []"
  using show_nat_digits [of "nat v"] show_nat_digits [of "nat (- v)"]
  by (auto simp: show_int_def isdigit_def code_def)

lemma tok_number: "tok_next '' '' (show_int v @ SP # r) = (Some (show_int v), r)" "tok_next '' '' (show_int v) = (Some (show_int v), [])"
  using tok_next_plain [of "show_int v" "'' ''"] show_int_spaceless [of v] by auto

lemma parse_options_print:
  "\<forall>s \<in> set opts. quotable s \<Longrightarrow> i + length opts \<le> NUM_OPTIONS \<Longrightarrow>
   parse_options (length opts) i (drop 1 (show_options opts)) acc = Inr (Some (acc @ opts))"
proof (induction opts arbitrary: i acc)
  case (Cons opt opts)
  have first: "tok_next [QUOTE] (QUOTE # opt @ QUOTE # show_options opts) = (Some opt, show_options opts)"
    using Cons.prems(1) tok_quoted [of opt] by (simp add: tok_next_skip)
  show ?case
  proof (cases opts)
    case Nil
    with first Cons.prems show ?thesis by simp
  next
    case (Cons o2 os)
    have "tok_next [QUOTE] (show_options opts) = (Some '' '', drop 1 (drop 1 (show_options opts)))"
      using tok_next_plain(1) [of "'' ''" "[QUOTE]" QUOTE "o2 @ QUOTE # show_options os"] Cons by simp
    moreover have "parse_options (length opts) (i + 1) (drop 1 (drop 1 (show_options opts))) (acc @ [opt]) =
        parse_options (length opts) (i + 1) (drop 1 (show_options opts)) (acc @ [opt])"
      using Cons by (simp add: tok_next_skip)
    ultimately show ?thesis using first Cons.prems Cons.IH [of "i + 1" "acc @ [opt]"] by simp
  qed
qed simp

lemma parseCommand_text:
  assumes "l \<noteq> []" "hd l \<noteq> NL" "length l < COMMAND_LEN"
  shows "parseCommand (l @ [NL]) = (case strtok '' '' l of None \<Rightarrow> Inl Null_deref | Some (c, r) \<Rightarrow> parse_words c r)"
  unfolding parseCommand_def using assms by (simp only: Let_def) simp

text \<open>A line is parsed by its first word and the rest.\<close>

lemma parseCommand_line:
  assumes "\<forall>c \<in> set w. c \<noteq> SP \<and> c \<noteq> NL" "w \<noteq> []" "s = [] \<or> (\<exists>r. s = SP # r)" "length (w @ s) < COMMAND_LEN"
  shows "parseCommand (w @ s @ [NL]) = parse_words w (drop 1 s)"
proof -
  have "hd (w @ s) \<noteq> NL" using assms(1,2) by (cases w) auto
  moreover have "strtok '' '' (w @ s) = Some (w, drop 1 s)"
  proof -
    have w: "\<forall>c \<in> set w. c \<notin> set '' ''" using assms(1) by simp
    from assms(3) show ?thesis
    proof
      assume "s = []"
      with strtok_plain(2) [OF assms(2) w] show ?thesis by simp
    next
      assume "\<exists>r. s = SP # r"
      then obtain r where "s = SP # r" ..
      with strtok_plain(1) [OF assms(2) w, of SP r] show ?thesis by simp
    qed
  qed
  ultimately show ?thesis using parseCommand_text [of "w @ s"] assms(2,4) by simp
qed

lemma length_show_options:
  "\<forall>s \<in> set opts. quotable s \<Longrightarrow> length (show_options opts) \<le> 102 * length opts"
  by (induction opts) (auto simp: quotable_def)

lemma typed_lengths: "word n s \<Longrightarrow> length s < n" "quotable s \<Longrightarrow> length s < MESSAGE_LEN"
  by (simp_all add: word_def quotable_def)

lemma length_show_nat_int: "in_int v \<Longrightarrow> length (show_int v) \<le> 11"
proof -
  assume v: "in_int v"
  have step: "length (show_nat n) \<le> Suc k" if "n < 10 ^ Suc k" for n k
    using that
  proof (induction k arbitrary: n)
    case 0
    then show ?case by (subst show_nat.simps) simp
  next
    case (Suc k)
    then have "n div 10 < 10 ^ Suc k" by (simp add: less_mult_imp_div_less mult.commute)
    with Suc.IH [of "n div 10"] show ?case by (subst show_nat.simps) auto
  qed
  from v have "nat \<bar>v\<bar> < 10000000000" by (auto simp: in_int_def)
  then have "nat \<bar>v\<bar> < 10 ^ Suc 9" by simp
  from step [OF this] show ?thesis by (auto simp: show_int_def abs_if split: if_splits)
qed

lemma create_group_printed:
  assumes "wf_gcommand (Create_group g a p)"
  shows "parseCommand (typed (Create_group g a p)) = Inr (Some (Create_group g a p))"
proof -
  from assms have w: "word GROUP_NAME_LEN g" "word IP_LEN a" "in_int p" by simp_all
  have "parseCommand (''create-group'' @ (SP # g @ SP # a @ SP # show_int p) @ [NL]) =
      parse_words ''create-group'' (g @ SP # a @ SP # show_int p)"
    using parseCommand_line [of "''create-group''" "SP # g @ SP # a @ SP # show_int p"]
      typed_lengths(1) [OF w(1)] typed_lengths(1) [OF w(2)] length_show_nat_int [OF w(3)] by simp
  then show ?thesis using w by (simp add: parse_words_def tok_word tok_number atoi_show_int)
qed

lemma send_message_printed:
  assumes "wf_gcommand (Send_message g m)"
  shows "parseCommand (typed (Send_message g m)) = Inr (Some (Send_message g m))"
proof -
  from assms have w: "word GROUP_NAME_LEN g" "quotable m" by simp_all
  have "parseCommand (''send-message'' @ (SP # g @ SP # QUOTE # m @ [QUOTE]) @ [NL]) =
      parse_words ''send-message'' (g @ SP # QUOTE # m @ [QUOTE])"
    using parseCommand_line [of "''send-message''" "SP # g @ SP # QUOTE # m @ [QUOTE]"]
      typed_lengths(1) [OF w(1)] typed_lengths(2) [OF w(2)] by simp
  then show ?thesis using w tok_quoted [of m "[]"] by (simp add: parse_words_def tok_word tok_next_skip)
qed

lemma init_poll_printed:
  assumes "wf_gcommand (Init_poll g q opts n)"
  shows "parseCommand (typed (Init_poll g q opts n)) = Inr (Some (Init_poll g q opts n))"
proof -
  from assms have w: "word GROUP_NAME_LEN g" "quotable q" "n = int (length opts)" "length opts \<le> NUM_OPTIONS"
      "\<forall>s \<in> set opts. quotable s" by simp_all
  then have n: "in_int n" by (simp add: in_int_def)
  let ?s = "g @ SP # QUOTE # q @ QUOTE # SP # show_int n @ show_options opts"
  have "parseCommand (''init-poll'' @ (SP # ?s) @ [NL]) = parse_words ''init-poll'' ?s"
    using parseCommand_line [of "''init-poll''" "SP # ?s"] length_show_options [OF w(5)] w(4)
      typed_lengths(1) [OF w(1)] typed_lengths(2) [OF w(2)] length_show_nat_int [OF n] by simp
  moreover have "tok_next '' '' (SP # show_int n @ show_options opts) = (Some (show_int n), drop 1 (show_options opts))"
    using tok_number [of n] by (cases opts) (simp_all add: tok_next_skip)
  ultimately show ?thesis
    using w tok_quoted [of q] parse_options_print [OF w(5), of 0 "[]"] n
    by (simp add: parse_words_def parse_poll_def tok_word tok_next_skip atoi_show_int)
qed

text \<open>
  C30: every command survives being typed and parsed: for names, addresses and quoted texts that fit their
  arrays, \<open>parseCommand\<close> of the line recovers the command with all its arguments. The line is what
  \<open>printCommand\<close> prints, except for find-group and send-message, whose printed forms it does not accept.
\<close>

theorem group_command_roundtrip:
  assumes "wf_gcommand c"
  shows "parseCommand (typed c) = Inr (Some c)"
proof (cases c)
  case (Create_group g a p)
  with assms create_group_printed show ?thesis by simp
next
  case (Join_group g)
  with assms parseCommand_line [of "''join-group''" "SP # g"] typed_lengths(1) [of GROUP_NAME_LEN g] show ?thesis
    by (simp add: parse_words_def parse_name_def tok_word)
next
  case (Leave_group g)
  with assms parseCommand_line [of "''leave-group''" "SP # g"] typed_lengths(1) [of GROUP_NAME_LEN g] show ?thesis
    by (simp add: parse_words_def parse_name_def tok_word)
next
  case (Find_group g)
  with assms parseCommand_line [of "''find-group''" "SP # g"] typed_lengths(1) [of GROUP_NAME_LEN g] show ?thesis
    by (simp add: parse_words_def parse_name_def tok_word)
next
  case (Send_message g m)
  with assms send_message_printed show ?thesis by simp
next
  case (Init_poll g q opts n)
  with assms init_poll_printed show ?thesis by simp
next
  case List_groups
  with parseCommand_line [of "''list-groups''" "[]"] show ?thesis by (simp add: parse_words_def)
next
  case List_files
  with parseCommand_line [of "''list-files''" "[]"] show ?thesis by (simp add: parse_words_def)
next
  case (Request_file f)
  with assms have w: "word FILE_NAME_LEN f" by simp
  have "parseCommand (''request-file'' @ (SP # f) @ [NL]) = parse_words ''request-file'' f"
    using parseCommand_line [of "''request-file''" "SP # f"] typed_lengths(1) [OF w] by simp
  then show ?thesis using w Request_file typed_lengths(1) [OF w] by (simp add: parse_words_def tok_word)
next
  case Help_cmd
  with parseCommand_line [of "''help''" "[]"] show ?thesis by (simp add: parse_words_def)
next
  case Exit_cmd
  with parseCommand_line [of "''exit''" "[]"] show ?thesis by (simp add: parse_words_def)
qed

theorem group_command_roundtrip_witness:
  "parseCommand (''init-poll os '' @ QUOTE # ''which one?'' @ QUOTE # '' 2 '' @ QUOTE # ''Net BSD'' @ QUOTE # SP # QUOTE # ''Linux'' @ QUOTE # [NL]) =
     Inr (Some (Init_poll ''os'' ''which one?'' [''Net BSD'', ''Linux''] 2))"
proof -
  have "show_int 2 = ''2''" by code_simp
  with group_command_roundtrip [of "Init_poll ''os'' ''which one?'' [''Net BSD'', ''Linux''] 2"] show ?thesis
    by (simp add: word_def quotable_def)
qed

text \<open>
  Where the parser has no bound it faults. A line of blanks makes it compare a NULL word; a group name
  of 20 characters or more overflows its array; a file name of exactly 20 characters passes the test
  against the length and overflows by its NUL, while a longer one is rejected.
\<close>

theorem parser_faults:
  assumes "blanks \<noteq> []" "\<forall>c \<in> set blanks. c = SP" "length blanks < COMMAND_LEN"
    and "SP \<notin> set name" "NL \<notin> set name" "20 \<le> length name" "length name \<le> 1000"
  shows "parseCommand (blanks @ [NL]) = Inl Null_deref \<and>
     parseCommand (''join-group '' @ name @ [NL]) = Inl Buffer_overflow \<and>
     parseCommand (''request-file '' @ name @ [NL]) = (if length name = 20 then Inl Buffer_overflow else Inr None)"
proof (intro conjI)
  have "dropWhile (\<lambda>c. c \<in> set '' '') blanks = []" using assms(2) by (simp add: dropWhile_eq_Nil_conv)
  then have "strtok '' '' blanks = None" by (simp only: strtok_def Let_def if_True simp_thms)
  moreover have "hd blanks \<noteq> NL" using assms(1,2) by (cases blanks) auto
  ultimately show "parseCommand (blanks @ [NL]) = Inl Null_deref"
    using parseCommand_text [of blanks] assms(1,3) by simp
  have "name \<noteq> []" using assms(6) by auto
  then have tok: "tok_next '' '' name = (Some name, [])"
    using tok_next_plain [of name "'' ''"] assms(4) by auto
  show "parseCommand (''join-group '' @ name @ [NL]) = Inl Buffer_overflow"
    using parseCommand_line [of "''join-group''" "SP # name"] assms(6,7) tok
    by (simp add: parse_words_def parse_name_def strcpy_to_def)
  show "parseCommand (''request-file '' @ name @ [NL]) = (if length name = 20 then Inl Buffer_overflow else Inr None)"
    using parseCommand_line [of "''request-file''" "SP # name"] assms(6,7) tok
    by (simp add: parse_words_def strcpy_to_def)
qed

theorem parser_faults_witness:
  "parseCommand (''  '' @ [NL]) = Inl Null_deref \<and>
   parseCommand (''join-group '' @ ''aaaaabbbbbcccccddddd'' @ [NL]) = Inl Buffer_overflow \<and>
   parseCommand (''request-file '' @ ''aaaaabbbbbcccccddddd'' @ [NL]) = Inl Buffer_overflow"
  using parser_faults [of "''  ''" "''aaaaabbbbbcccccddddd''"] by simp

end
