(* ===== verification/Group_List.thy ===== *)
theory Group_List
  imports Linked_Store Group_Parse
begin

text \<open>
  The list of joined multicast groups of the group chat, \<open>assignment-2/q3/utils.c\<close> with the commands of
  \<open>group_comm.c\<close> that change it. The groups are blocks of an explicit store; \<open>free\<close> removes a block, and
  an address is not used again, so every use of a freed group is visible as a fault.
\<close>

section \<open>Data\<close>

text \<open>\<open>send_addr\<close> and \<open>recv_addr\<close> are functions of \<open>ip\<close> and \<open>port\<close>.\<close>

record mc_group =
  gname :: string
  gip :: string
  gport :: int
  gnext :: "nat option"
  gprev :: "nat option"
  send_fd :: int
  recv_fd :: int

text \<open>\<open>mc_list\<close> with the store it lives in.\<close>

record chat =
  gheap :: "nat \<Rightarrow> mc_group option"
  gfresh :: nat
  ghead :: "nat option"
  gtail :: "nat option"
  gcount :: nat

definition chat_init :: chat where
  "chat_init = \<lparr>gheap = (\<lambda>_. None), gfresh = 0, ghead = None, gtail = None, gcount = 0\<rparr>"

definition grp_at :: "chat \<Rightarrow> nat \<Rightarrow> mc_group res" where
  "grp_at st a = block_at (gheap st) a"

definition set_grp :: "chat \<Rightarrow> nat \<Rightarrow> (mc_group \<Rightarrow> mc_group) \<Rightarrow> chat res" where
  "set_grp st a f = rbind (grp_at st a) (\<lambda>g. Inr (st\<lparr>gheap := (gheap st)(a \<mapsto> f g)\<rparr>))"

section \<open>Operations\<close>

text \<open>
  The loops over the list. At most \<open>gfresh\<close> blocks can be linked, so a loop that runs longer than that
  does not end and is reported as \<open>Blocked\<close>.
\<close>

fun find_group :: "nat \<Rightarrow> chat \<Rightarrow> (mc_group \<Rightarrow> bool) \<Rightarrow> nat option \<Rightarrow> nat option res" where
  "find_group k st P None = Inr None"
| "find_group 0 st P (Some a) = Inl Blocked"
| "find_group (Suc k) st P (Some a) =
     rbind (grp_at st a) (\<lambda>g. if P g then Inr (Some a) else find_group k st P (gnext g))"

definition findGroupByName :: "string \<Rightarrow> chat \<Rightarrow> nat option res" where
  "findGroupByName grp_name st = find_group (gfresh st) st (\<lambda>g. gname g = grp_name) (ghead st)"

definition findGroupByIpAndPort :: "string \<Rightarrow> int \<Rightarrow> chat \<Rightarrow> nat option res" where
  "findGroupByIpAndPort addr port st = find_group (gfresh st) st (\<lambda>g. gip g = addr \<and> gport g = port) (ghead st)"

text \<open>
  \<open>alloc\<close> is whether \<open>calloc\<close> succeeds; \<open>fds\<close> are the descriptors for sending and receiving, or \<open>None\<close> when
  one of the socket calls fails. The result is \<open>err\<close> and the new group.
\<close>

definition initMulticastGroup ::
  "string \<Rightarrow> string \<Rightarrow> int \<Rightarrow> bool \<Rightarrow> (int \<times> int) option \<Rightarrow> chat \<Rightarrow> (int \<times> nat option \<times> chat) res" where
  "initMulticastGroup name addr port alloc fds st =
     rbind (findGroupByName name st) (\<lambda>found.
     if found \<noteq> None then Inr (-1, None, st)
     else
       rbind (findGroupByIpAndPort addr port st) (\<lambda>found.
       if found \<noteq> None then Inr (-2, None, st)
       else if \<not> alloc then Inr (0, None, st)
       else
         rbind (strcpy_to GROUP_NAME_LEN name) (\<lambda>name.
         rbind (strcpy_to IP_LEN addr) (\<lambda>addr.
         case fds of
           None \<Rightarrow> Inr (0, None, st)
         | Some (sfd, rfd) \<Rightarrow>
             let a = gfresh st;
                 g = \<lparr>gname = name, gip = addr, gport = port, gnext = None, gprev = None, send_fd = sfd, recv_fd = rfd\<rparr>
             in Inr (0, Some a, st\<lparr>gheap := (gheap st)(a \<mapsto> g), gfresh := gfresh st + 1\<rparr>)))))"

definition insertMulticastGroup :: "nat option \<Rightarrow> chat \<Rightarrow> (int \<times> chat) res" where
  "insertMulticastGroup grp st =
     (case grp of
        None \<Rightarrow> Inr (-1, st)
      | Some a \<Rightarrow>
          rbind
            (if gcount st = 0 then Inr (st\<lparr>ghead := Some a, gtail := Some a\<rparr>)
             else
               case gtail st of
                 None \<Rightarrow> Inl Null_deref
               | Some t \<Rightarrow>
                   rbind (set_grp st t (\<lambda>g. g\<lparr>gnext := Some a\<rparr>)) (\<lambda>st.
                   rbind (set_grp st a (\<lambda>g. g\<lparr>gprev := Some t\<rparr>)) (\<lambda>st.
                   Inr (st\<lparr>gtail := Some a\<rparr>))))
            (\<lambda>st. Inr (0, st\<lparr>gcount := gcount st + 1\<rparr>)))"

text \<open>The loop of lines 410 to 417; \<open>memcmp\<close> compares the contents of two blocks.\<close>

fun remove_find :: "chat \<Rightarrow> mc_group \<Rightarrow> nat \<Rightarrow> nat option \<Rightarrow> nat option \<Rightarrow> (nat option \<times> nat option) res" where
  "remove_find st target 0 prev cur = Inr (prev, cur)"
| "remove_find st target (Suc n) prev None = Inl Null_deref"
| "remove_find st target (Suc n) prev (Some c) =
     rbind (grp_at st c) (\<lambda>g.
     if g = target then Inr (prev, Some c) else remove_find st target n (Some c) (gnext g))"

definition removeMulticastGroup :: "nat option \<Rightarrow> chat \<Rightarrow> (int \<times> chat) res" where
  "removeMulticastGroup grp st =
     (case grp of
        None \<Rightarrow> Inr (-1, st)
      | Some a \<Rightarrow>
          rbind (grp_at st a) (\<lambda>target.
          rbind (remove_find st target (gcount st) None (ghead st)) (\<lambda>(prev, cur).
          case cur of
            None \<Rightarrow> Inr (-1, st)
          | Some c \<Rightarrow>
              rbind (grp_at st c) (\<lambda>g.
              rbind
                (case prev of
                   None \<Rightarrow> Inr (st\<lparr>ghead := gnext g\<rparr>)
                 | Some p \<Rightarrow> set_grp st p (\<lambda>x. x\<lparr>gnext := gnext g\<rparr>)) (\<lambda>st.
              rbind
                (case gnext g of
                   None \<Rightarrow> Inr st
                 | Some n \<Rightarrow> set_grp st n (\<lambda>x. x\<lparr>gprev := prev\<rparr>)) (\<lambda>st.
              Inr (0, st\<lparr>gcount := gcount st - 1\<rparr>)))))))"

text \<open>\<open>ok\<close> is whether \<open>setsockopt\<close> succeeds.\<close>

definition joinMulticastGroup :: "bool \<Rightarrow> nat \<Rightarrow> chat \<Rightarrow> (int \<times> chat) res" where
  "joinMulticastGroup ok a st =
     rbind (grp_at st a) (\<lambda>_.
     if \<not> ok then Inr (-1, st)
     else rbind (insertMulticastGroup (Some a) st) (\<lambda>(r, st). if r = -1 then Inr (-1, st) else Inr (0, st)))"

definition leaveMulticastGroup :: "bool \<Rightarrow> nat \<Rightarrow> chat \<Rightarrow> (int \<times> chat) res" where
  "leaveMulticastGroup ok a st =
     rbind (grp_at st a) (\<lambda>_.
     if \<not> ok then Inr (-1, st)
     else
       rbind (removeMulticastGroup (Some a) st) (\<lambda>(r, st).
       if r = -1 then Inr (-1, st) else Inr (0, st\<lparr>gheap := (gheap st)(a := None)\<rparr>)))"

text \<open>What \<open>listGroups\<close> prints of each group, and the largest descriptor \<open>select\<close> watches.\<close>

fun list_loop :: "chat \<Rightarrow> nat \<Rightarrow> nat option \<Rightarrow> (string \<times> string \<times> int) list res" where
  "list_loop st 0 cur = Inr []"
| "list_loop st (Suc n) None = Inl Null_deref"
| "list_loop st (Suc n) (Some a) =
     rbind (grp_at st a) (\<lambda>g.
     rbind (list_loop st n (gnext g)) (\<lambda>ls. Inr ((gname g, gip g, gport g) # ls)))"

definition listGroups :: "chat \<Rightarrow> (string \<times> string \<times> int) list res" where
  "listGroups st = (if gcount st = 0 then Inr [] else list_loop st (gcount st) (ghead st))"

fun max_fd_loop :: "nat \<Rightarrow> chat \<Rightarrow> nat option \<Rightarrow> int \<Rightarrow> int res" where
  "max_fd_loop k st None max_fd = Inr max_fd"
| "max_fd_loop 0 st (Some a) max_fd = Inl Blocked"
| "max_fd_loop (Suc k) st (Some a) max_fd =
     rbind (grp_at st a) (\<lambda>g.
     max_fd_loop k st (gnext g) (if max_fd < recv_fd g then recv_fd g else max_fd))"

definition getMaxFd :: "int \<Rightarrow> chat \<Rightarrow> int res" where
  "getMaxFd broadcast_fd st =
     (let max_fd = (if 0 < broadcast_fd then broadcast_fd else 0) in
      if 0 < gcount st then max_fd_loop (gfresh st) st (ghead st) max_fd else Inr max_fd)"

text \<open>The loop of \<open>cleanup\<close>: a group is left and freed before its \<open>next\<close> is read.\<close>

fun cleanup_loop :: "nat \<Rightarrow> bool \<Rightarrow> nat option \<Rightarrow> chat \<Rightarrow> chat res" where
  "cleanup_loop k ok None st = Inr st"
| "cleanup_loop 0 ok (Some a) st = Inl Blocked"
| "cleanup_loop (Suc k) ok (Some a) st =
     rbind (leaveMulticastGroup ok a st) (\<lambda>(_, st).
     rbind (grp_at st a) (\<lambda>g. cleanup_loop k ok (gnext g) st))"

definition cleanup_groups :: "bool \<Rightarrow> chat \<Rightarrow> chat res" where
  "cleanup_groups ok st = cleanup_loop (gfresh st) ok (ghead st) st"

section \<open>The commands of the main loop\<close>

datatype chat_reply =
    Already_joined string
  | Address_joined string int
  | Not_created
  | Not_joined
  | Joined string string int
  | No_group string
  | Not_left string
  | Left_group string
  | Group_lines "(string \<times> string \<times> int) list"

text \<open>Lines 131 to 158, and 175 to 196 on the group found on the network.\<close>

definition create_group_cmd ::
  "string \<Rightarrow> string \<Rightarrow> int \<Rightarrow> bool \<Rightarrow> (int \<times> int) option \<Rightarrow> bool \<Rightarrow> chat \<Rightarrow> (chat_reply \<times> chat) res" where
  "create_group_cmd name addr port alloc fds ok st =
     rbind (initMulticastGroup name addr port alloc fds st) (\<lambda>(err, grp, st).
     case grp of
       None \<Rightarrow>
         Inr (if err = -1 then Already_joined name
              else if err = -2 then Address_joined addr port
              else Not_created, st)
     | Some a \<Rightarrow>
         rbind (joinMulticastGroup ok a st) (\<lambda>(r, st).
         if r = -1 then Inr (Not_joined, st)
         else rbind (grp_at st a) (\<lambda>g. Inr (Joined (gname g) (gip g) (gport g), st))))"

text \<open>Lines 199 to 215 and 217 to 226.\<close>

definition leave_group_cmd :: "string \<Rightarrow> bool \<Rightarrow> chat \<Rightarrow> (chat_reply \<times> chat) res" where
  "leave_group_cmd name ok st =
     rbind (findGroupByName name st) (\<lambda>grp.
     case grp of
       None \<Rightarrow> Inr (No_group name, st)
     | Some a \<Rightarrow>
         rbind (leaveMulticastGroup ok a st) (\<lambda>(r, st).
         Inr (if r = -1 then Not_left name else Left_group name, st)))"

datatype chat_op = Chat_create string string int bool "(int \<times> int) option" bool | Chat_leave string bool | Chat_list

fun chat_step :: "chat_op \<Rightarrow> chat \<Rightarrow> (chat_reply \<times> chat) res" where
  "chat_step (Chat_create name addr port alloc fds ok) st = create_group_cmd name addr port alloc fds ok st"
| "chat_step (Chat_leave name ok) st = leave_group_cmd name ok st"
| "chat_step Chat_list st = rbind (listGroups st) (\<lambda>gs. Inr (Group_lines gs, st))"

section \<open>The store holds a list\<close>

type_synonym group_line = "string \<times> string \<times> int"

definition gview :: "mc_group \<Rightarrow> group_line" where
  "gview g = (gname g, gip g, gport g)"

definition lines_of :: "chat \<Rightarrow> nat list \<Rightarrow> group_line list" where
  "lines_of st as = map (\<lambda>a. gview (the (gheap st a))) as"

abbreviation gseg :: "(nat \<Rightarrow> mc_group option) \<Rightarrow> nat option \<Rightarrow> nat list \<Rightarrow> nat option \<Rightarrow> bool" where
  "gseg \<equiv> dseg gnext gprev"

interpretation group_links: block_links gnext gprev "\<lambda>q g. g\<lparr>gnext := q\<rparr>" "\<lambda>p g. g\<lparr>gprev := p\<rparr>"
  by unfold_locales simp_all

text \<open>
  \<open>stale\<close> says that \<open>gtail\<close> points to a group that was freed: \<open>removeMulticastGroup\<close> never moves it.
\<close>

definition chat_ok :: "chat \<Rightarrow> nat list \<Rightarrow> bool \<Rightarrow> bool" where
  "chat_ok st as stale \<longleftrightarrow>
     gseg (gheap st) None as None \<and> distinct as \<and> ghead st = first_of as None \<and> gcount st = length as \<and>
     (\<forall>a \<in> set as. a < gfresh st) \<and> (stale \<longrightarrow> as \<noteq> []) \<and>
     (as \<noteq> [] \<longrightarrow>
        (if stale then \<exists>t < gfresh st. gtail st = Some t \<and> gheap st t = None else gtail st = Some (last as)))"

lemma chat_ok_length: "chat_ok st as stale \<Longrightarrow> length as \<le> gfresh st"
proof -
  assume ok: "chat_ok st as stale"
  then have "set as \<subseteq> {..<gfresh st}" "distinct as" by (auto simp: chat_ok_def)
  then show ?thesis by (metis card_lessThan card_mono distinct_card finite_lessThan)
qed

lemma grp_at_mem: "chat_ok st as stale \<Longrightarrow> a \<in> set as \<Longrightarrow> \<exists>g. gheap st a = Some g \<and> grp_at st a = Inr g"
  using dseg_mem [of gnext gprev "gheap st" None as None a] by (auto simp: chat_ok_def grp_at_def)

lemma find_group_list:
  "gseg (gheap st) q as None \<Longrightarrow> length as \<le> k \<Longrightarrow>
   find_group k st P (first_of as None) = Inr (find (\<lambda>a. P (the (gheap st a))) as)"
proof (induction as arbitrary: k q)
  case (Cons a as)
  then obtain g k' where g: "gheap st a = Some g" "gnext g = first_of as None" "k = Suc k'"
    by (cases k) auto
  with Cons show ?case by (auto simp: grp_at_def)
qed simp

lemma find_in_chat:
  "chat_ok st as stale \<Longrightarrow> find_group (gfresh st) st P (ghead st) = Inr (find (\<lambda>a. P (the (gheap st a))) as)"
  using find_group_list [of st None as "gfresh st" P] chat_ok_length [of st as stale] by (simp add: chat_ok_def)

text \<open>Two groups of the list never have the same contents: their \<open>next\<close> pointers differ.\<close>

lemma next_inside: "gseg s p xs (Some a) \<Longrightarrow> x \<in> set xs \<Longrightarrow> \<exists>g b. s x = Some g \<and> gnext g = Some b \<and> (b = a \<or> b \<in> set xs)"
proof (induction xs arbitrary: p)
  case (Cons y ys)
  show ?case
  proof (cases "x = y")
    case True
    with Cons.prems show ?thesis by (cases ys) auto
  next
    case False
    with Cons.prems have "gseg s (Some y) ys (Some a)" "x \<in> set ys" by simp_all
    from Cons.IH [OF this] show ?thesis by auto
  qed
qed simp

lemma contents_differ:
  assumes "gseg s None (xs @ a # ys) None" "distinct (xs @ a # ys)" "x \<in> set xs"
  shows "s x \<noteq> s a"
proof -
  obtain g b where x: "s x = Some g" "gnext g = Some b" "b = a \<or> b \<in> set xs"
    using next_inside [of s None xs a x] assms by (auto simp: dseg_append)
  obtain h where a: "s a = Some h" "gnext h = first_of ys None" using assms(1) by (auto simp: dseg_append)
  have "first_of ys None \<noteq> Some b" using x(3) assms(2) by (cases ys) auto
  with x a show ?thesis by auto
qed

lemma remove_find_list:
  "gseg (gheap st) p (xs @ a # ys) None \<Longrightarrow> gheap st a = Some g \<Longrightarrow> \<forall>x \<in> set xs. gheap st x \<noteq> Some g \<Longrightarrow>
   length xs < n \<Longrightarrow> remove_find st g n p (first_of (xs @ a # ys) None) = Inr (last_of p xs, Some a)"
proof (induction xs arbitrary: p n)
  case Nil
  then show ?case by (cases n) (auto simp: grp_at_def)
next
  case (Cons x xs)
  then obtain n' h where n: "n = Suc n'" and h: "gheap st x = Some h" "gnext h = first_of (xs @ a # ys) None"
    by (cases n) auto
  have "h \<noteq> g" using Cons.prems(3) h(1) by auto
  with Cons.prems n h Cons.IH [of "Some x" n'] show ?case by (auto simp: grp_at_def)
qed

lemma set_grp_Some: "gheap st a = Some g \<Longrightarrow> set_grp st a f = Inr (st\<lparr>gheap := (gheap st)(a \<mapsto> f g)\<rparr>)"
  by (simp add: set_grp_def grp_at_def)

lemma lines_of_simps [simp]:
  "lines_of st [] = []" "lines_of st (a # as) = gview (the (gheap st a)) # lines_of st as"
  "lines_of st (xs @ ys) = lines_of st xs @ lines_of st ys"
  by (simp_all add: lines_of_def)

lemma lines_of_frame: "\<forall>a \<in> set as. gview (the (gheap st' a)) = gview (the (gheap st a)) \<Longrightarrow> lines_of st' as = lines_of st as"
  by (simp add: lines_of_def)

text \<open>Removing a group: the list without it, no other block freed or renamed.\<close>

lemma remove_group_list:
  assumes ok: "chat_ok st (xs @ a # ys) stale"
  defines "s' \<equiv> group_links.bypass (gheap st) (last_of None xs) (first_of ys None)"
  shows "removeMulticastGroup (Some a) st =
     Inr (0, st\<lparr>gheap := s', ghead := first_of (xs @ ys) None, gcount := length xs + length ys\<rparr>)"
proof -
  have seg: "gseg (gheap st) None (xs @ a # ys) None" and d: "distinct (xs @ a # ys)"
    and st: "ghead st = first_of (xs @ a # ys) None" "gcount st = Suc (length xs + length ys)"
    using ok by (simp_all add: chat_ok_def)
  obtain g where g: "gheap st a = Some g" "gnext g = first_of ys None" using seg by (auto simp: dseg_append)
  have "\<forall>x \<in> set xs. gheap st x \<noteq> Some g" using contents_differ [OF seg d] g(1) by simp
  then have found: "remove_find st g (gcount st) None (ghead st) = Inr (last_of None xs, Some a)"
    using remove_find_list [OF seg g(1), of "gcount st"] st by simp
  have ys: "\<exists>w. gheap st y = Some w" if "first_of ys None = Some y" for y
    using dseg_mem [OF seg, of y] that by (cases ys) auto
  show ?thesis
  proof (cases xs rule: rev_cases)
    case Nil
    then show ?thesis
      using found g st ys by (cases ys) (auto simp: removeMulticastGroup_def grp_at_def s'_def group_links.bypass_def set_grp_Some)
  next
    case (snoc zs p)
    then obtain pw where pw: "gheap st p = Some pw" using dseg_mem [OF seg, of p] by auto
    let ?st = "st\<lparr>gheap := (gheap st)(p \<mapsto> pw\<lparr>gnext := first_of ys None\<rparr>)\<rparr>"
    have head: "ghead st = first_of (xs @ ys) None" using st(1) snoc by (cases zs) simp_all
    show ?thesis
    proof (cases ys)
      case Nil
      with found g st head snoc pw show ?thesis
        by (simp add: removeMulticastGroup_def grp_at_def s'_def group_links.bypass_def set_grp_Some)
    next
      case (Cons y zs')
      then obtain yw where yw: "gheap st y = Some yw" using ys by auto
      have "y \<noteq> p" using d snoc Cons by auto
      with found g st head snoc pw Cons yw show ?thesis
        by (simp add: removeMulticastGroup_def grp_at_def s'_def group_links.bypass_def set_grp_Some)
    qed
  qed
qed

lemma bypass_view: "map_option gview (group_links.bypass s p n x) = map_option gview (s x)"
proof -
  have "map_option gview (map_option f y) = map_option gview y" if "\<And>g. gview (f g) = gview g" for f y
    using that by (cases y) simp_all
  moreover have "gview (g\<lparr>gnext := q\<rparr>) = gview g" "gview (g\<lparr>gprev := q\<rparr>) = gview g" for g q
    by (simp_all add: gview_def)
  ultimately show ?thesis by (auto simp: group_links.bypass_def Let_def split: option.splits)
qed

lemma map_option_the: "map_option f x = map_option f y \<Longrightarrow> y \<noteq> None \<Longrightarrow> f (the x) = f (the y)"
  by (cases x; cases y) auto

lemma leave_group_ok:
  assumes ok: "chat_ok st (xs @ a # ys) stale"
  shows "\<exists>st'. leaveMulticastGroup True a st = Inr (0, st') \<and>
     chat_ok st' (xs @ ys) (xs @ ys \<noteq> [] \<and> (stale \<or> ys = [])) \<and> lines_of st' (xs @ ys) = lines_of st (xs @ ys)"
proof -
  define s where "s = (group_links.bypass (gheap st) (last_of None xs) (first_of ys None))(a := None)"
  let ?st = "st\<lparr>gheap := s, ghead := first_of (xs @ ys) None, gcount := length xs + length ys\<rparr>"
  have seg: "gseg (gheap st) None (xs @ a # ys) None" and d: "distinct (xs @ a # ys)"
    and below: "\<forall>x \<in> set (xs @ a # ys). x < gfresh st"
    and tail: "if stale then \<exists>t < gfresh st. gtail st = Some t \<and> gheap st t = None else gtail st = Some (last (xs @ a # ys))"
    using ok by (simp_all add: chat_ok_def split: if_splits)
  have freed: "s t = None" if "gheap st t = None" for t
    using bypass_view [of "gheap st" "last_of None xs" "first_of ys None" t] that by (simp add: s_def)
  have "s a = None" by (simp add: s_def)
  have "gseg s None (xs @ ys) None"
    using group_links.unlink [OF seg d] d by (simp add: s_def)
  moreover have "if stale \<or> ys = [] then \<exists>t < gfresh st. gtail st = Some t \<and> s t = None else gtail st = Some (last (xs @ ys))"
  proof (cases "stale")
    case True
    with tail obtain t where "t < gfresh st" "gtail st = Some t" "gheap st t = None" by auto
    with True freed [of t] show ?thesis by auto
  next
    case False
    with tail below \<open>s a = None\<close> show ?thesis by (cases ys) auto
  qed
  ultimately have "chat_ok ?st (xs @ ys) (xs @ ys \<noteq> [] \<and> (stale \<or> ys = []))"
    using d below by (auto simp: chat_ok_def)
  moreover have "lines_of ?st (xs @ ys) = lines_of st (xs @ ys)"
  proof (rule lines_of_frame)
    show "\<forall>x \<in> set (xs @ ys). gview (the (gheap ?st x)) = gview (the (gheap st x))"
    proof
      fix x
      assume x: "x \<in> set (xs @ ys)"
      then have "gheap st x \<noteq> None" using dseg_mem [OF seg, of x] by auto
      moreover have "x \<noteq> a" using x d by auto
      ultimately show "gview (the (gheap ?st x)) = gview (the (gheap st x))"
        using map_option_the [OF bypass_view] by (simp add: s_def)
    qed
  qed
  moreover have "leaveMulticastGroup True a st = Inr (0, ?st)"
    using remove_group_list [OF ok] grp_at_mem [OF ok, of a] by (auto simp: leaveMulticastGroup_def s_def)
  ultimately show ?thesis by blast
qed

text \<open>Adding a new group at the end, when the tail is not stale.\<close>

lemma insert_group_ok:
  assumes ok: "chat_ok st as False" and a: "gheap st a = Some g" "gnext g = None" "gprev g = None" "a \<notin> set as" "a < gfresh st"
  shows "\<exists>st'. insertMulticastGroup (Some a) st = Inr (0, st') \<and> chat_ok st' (as @ [a]) False \<and>
     lines_of st' (as @ [a]) = lines_of st as @ [gview g] \<and> (\<exists>h. grp_at st' a = Inr h \<and> gview h = gview g)"
proof (cases as rule: rev_cases)
  case Nil
  with ok a show ?thesis by (auto simp: insertMulticastGroup_def chat_ok_def grp_at_def)
next
  case (snoc zs t)
  have seg: "gseg (gheap st) None as None" and d: "distinct as" using ok by (simp_all add: chat_ok_def)
  obtain w where w: "gheap st t = Some w" using dseg_mem [OF seg, of t] snoc by auto
  have ta: "t \<noteq> a" using a(4) snoc by auto
  define s where "s = ((gheap st)(t \<mapsto> w\<lparr>gnext := Some a\<rparr>))(a \<mapsto> g\<lparr>gprev := Some t\<rparr>)"
  let ?st = "st\<lparr>gheap := s, gtail := Some a, gcount := Suc (length as)\<rparr>"
  have at: "s a = Some (g\<lparr>gprev := Some t\<rparr>)" "s t = Some (w\<lparr>gnext := Some a\<rparr>)"
      "\<And>x. x \<noteq> t \<Longrightarrow> x \<noteq> a \<Longrightarrow> s x = gheap st x"
    using ta by (simp_all add: s_def)
  have seg': "gseg s None (as @ [a]) None"
    using group_links.append_block [OF seg d a(4,2,3,1)] snoc w by (simp add: s_def)
  have "first_of (as @ [a]) None = first_of as None" using snoc by (cases zs) simp_all
  with ok seg' d a(4,5) snoc have "chat_ok ?st (as @ [a]) False"
    unfolding chat_ok_def by simp
  moreover have "insertMulticastGroup (Some a) st = Inr (0, ?st)"
    using ok snoc w a(1) ta by (simp add: insertMulticastGroup_def chat_ok_def set_grp_def grp_at_def s_def)
  moreover have view: "gview (w\<lparr>gnext := Some a\<rparr>) = gview w" "gview (g\<lparr>gprev := Some t\<rparr>) = gview g"
    by (simp_all add: gview_def)
  have "gview (the (s x)) = gview (the (gheap st x))" if "x \<in> set as" for x
  proof (cases "x = t")
    case True
    then show ?thesis using at(2) view(1) w by simp
  next
    case False
    moreover have "x \<noteq> a" using that a(4) by blast
    ultimately show ?thesis using at(3) by metis
  qed
  then have "lines_of ?st as = lines_of st as" by (intro lines_of_frame) simp
  with at(1) view have "lines_of ?st (as @ [a]) = lines_of st as @ [gview g]" by simp
  moreover have "grp_at ?st a = Inr (g\<lparr>gprev := Some t\<rparr>)" using at(1) by (simp add: grp_at_def)
  ultimately show ?thesis using view by blast
qed

lemma insert_group_stale:
  assumes ok: "chat_ok st as True"
  shows "insertMulticastGroup (Some a) st = Inl Use_after_free"
  using ok by (auto simp: insertMulticastGroup_def chat_ok_def set_grp_def grp_at_def)

section \<open>What the commands promise\<close>

text \<open>
  The state is the list of joined groups and whether the last of several groups has been left since one
  was last added; after that the next one to be added runs into the freed tail.
\<close>

fun chat_spec :: "chat_op \<Rightarrow> group_line list \<times> bool \<Rightarrow> (chat_reply \<times> (group_line list \<times> bool)) res" where
  "chat_spec (Chat_create name addr port alloc fds ok) (es, stale) =
     (if name \<in> fst ` set es then Inr (Already_joined name, es, stale)
      else if (addr, port) \<in> snd ` set es then Inr (Address_joined addr port, es, stale)
      else if \<not> alloc then Inr (Not_created, es, stale)
      else if GROUP_NAME_LEN \<le> length name \<or> IP_LEN \<le> length addr then Inl Buffer_overflow
      else if fds = None then Inr (Not_created, es, stale)
      else if \<not> ok then Inr (Not_joined, es, stale)
      else if stale then Inl Use_after_free
      else Inr (Joined name addr port, es @ [(name, addr, port)], False))"
| "chat_spec (Chat_leave name ok) (es, stale) =
     (case find (\<lambda>e. fst e = name) es of
        None \<Rightarrow> Inr (No_group name, es, stale)
      | Some e \<Rightarrow>
          if \<not> ok then Inr (Not_left name, es, stale)
          else Inr (Left_group name, remove1 e es, remove1 e es \<noteq> [] \<and> (stale \<or> last es = e)))"
| "chat_spec Chat_list (es, stale) = Inr (Group_lines es, es, stale)"

definition chat_rel :: "chat \<Rightarrow> group_line list \<times> bool \<Rightarrow> bool" where
  "chat_rel st = (\<lambda>(es, stale). \<exists>as. chat_ok st as stale \<and> es = lines_of st as \<and> distinct (map fst es))"

lemma find_map_view: "find (\<lambda>a. P (f a)) as = Some a \<Longrightarrow> find P (map f as) = Some (f a)"
  by (induction as) (auto split: if_splits)

lemma find_line:
  "find (\<lambda>a. gname (the (gheap st a)) = n) as = None \<longleftrightarrow> n \<notin> fst ` set (lines_of st as)"
  "find (\<lambda>a. gip (the (gheap st a)) = i \<and> gport (the (gheap st a)) = p) as = None \<longleftrightarrow> (i, p) \<notin> snd ` set (lines_of st as)"
  by (auto simp: find_None_iff lines_of_def gview_def image_iff)

lemma remove1_split:
  "distinct (map fst (xs @ e # ys)) \<Longrightarrow> remove1 e (xs @ e # ys) = xs @ ys \<and> (last (xs @ e # ys) = e \<longleftrightarrow> ys = [])"
  by (cases ys rule: rev_cases) (auto simp: remove1_append)

lemma list_groups_ok: "chat_ok st as stale \<Longrightarrow> listGroups st = Inr (lines_of st as)"
proof -
  assume ok: "chat_ok st as stale"
  have "gseg (gheap st) q bs None \<Longrightarrow> list_loop st (length bs) (first_of bs None) = Inr (lines_of st bs)" for q bs
    by (induction bs arbitrary: q) (auto simp: grp_at_def gview_def)
  with ok show ?thesis by (auto simp: listGroups_def chat_ok_def)
qed

lemma fresh_block:
  fixes g :: mc_group
  assumes "chat_ok st as stale"
  defines "st' \<equiv> st\<lparr>gheap := (gheap st)(gfresh st \<mapsto> g), gfresh := gfresh st + 1\<rparr>"
  shows "chat_ok st' as stale" "lines_of st' as = lines_of st as" "gfresh st \<notin> set as"
proof -
  have new: "gfresh st \<notin> set as" using assms(1) by (auto simp: chat_ok_def)
  then show "gfresh st \<notin> set as" .
  have below: "\<forall>a \<in> set as. a < gfresh st + 1" using assms(1) by (auto simp: chat_ok_def)
  have "\<exists>t < gfresh st + 1. gtail st = Some t \<and> ((gheap st)(gfresh st \<mapsto> g)) t = None"
    if "\<exists>t < gfresh st. gtail st = Some t \<and> gheap st t = None"
    using that by (metis add.commute fun_upd_other less_SucI nat_neq_iff plus_1_eq_Suc)
  then show "chat_ok st' as stale"
    using assms(1) new below unfolding chat_ok_def st'_def
    by (cases stale) (simp_all del: fun_upd_apply)
  show "lines_of st' as = lines_of st as"
    using new by (intro lines_of_frame) (auto simp: st'_def)
qed

lemma chat_create_refines:
  assumes ok: "chat_ok st as stale" and d: "distinct (map fst (lines_of st as))"
  shows "(\<exists>e. create_group_cmd n i p alloc fds j st = Inl e \<and> chat_spec (Chat_create n i p alloc fds j) (lines_of st as, stale) = Inl e) \<or>
     (\<exists>r st' t. create_group_cmd n i p alloc fds j st = Inr (r, st') \<and>
        chat_spec (Chat_create n i p alloc fds j) (lines_of st as, stale) = Inr (r, t) \<and> chat_rel st' t)"
proof -
  let ?es = "lines_of st as"
  have rel: "chat_rel st (?es, stale)" using ok d by (auto simp: chat_rel_def)
  note find = find_in_chat [OF ok]
  define N A where "N \<longleftrightarrow> n \<in> fst ` set ?es" and "A \<longleftrightarrow> (i, p) \<in> snd ` set ?es"
  have name: "find (\<lambda>a. gname (the (gheap st a)) = n) as = None \<longleftrightarrow> \<not> N" unfolding N_def by (rule find_line(1))
  have addr: "find (\<lambda>a. gip (the (gheap st a)) = i \<and> gport (the (gheap st a)) = p) as = None \<longleftrightarrow> \<not> A"
    unfolding A_def by (rule find_line(2))
  have init: "initMulticastGroup n i p alloc fds st =
      (if N then Inr (-1, None, st) else if A then Inr (-2, None, st)
       else if \<not> alloc then Inr (0, None, st)
       else if GROUP_NAME_LEN \<le> length n \<or> IP_LEN \<le> length i then Inl Buffer_overflow
       else case fds of None \<Rightarrow> Inr (0, None, st)
         | Some (sfd, rfd) \<Rightarrow> Inr (0, Some (gfresh st), st\<lparr>gheap := (gheap st)(gfresh st \<mapsto>
             \<lparr>gname = n, gip = i, gport = p, gnext = None, gprev = None, send_fd = sfd, recv_fd = rfd\<rparr>), gfresh := gfresh st + 1\<rparr>))"
    unfolding initMulticastGroup_def findGroupByName_def findGroupByIpAndPort_def find rbind_simps name addr
    by (cases N; cases A) (simp_all add: strcpy_to_def Let_def not_less split: option.splits)
  have spec: "chat_spec (Chat_create n i p alloc fds j) (?es, stale) =
      (if N then Inr (Already_joined n, ?es, stale) else if A then Inr (Address_joined i p, ?es, stale)
       else if \<not> alloc then Inr (Not_created, ?es, stale)
       else if GROUP_NAME_LEN \<le> length n \<or> IP_LEN \<le> length i then Inl Buffer_overflow
       else if fds = None then Inr (Not_created, ?es, stale)
       else if \<not> j then Inr (Not_joined, ?es, stale)
       else if stale then Inl Use_after_free
       else Inr (Joined n i p, ?es @ [(n, i, p)], False))"
    unfolding N_def A_def chat_spec.simps ..
  show ?thesis
  proof (cases "N \<or> A \<or> \<not> alloc \<or> GROUP_NAME_LEN \<le> length n \<or> IP_LEN \<le> length i \<or> fds = None")
    case True
    then show ?thesis
      using rel unfolding create_group_cmd_def init spec
      by (cases N; cases A; cases alloc; cases fds; cases "GROUP_NAME_LEN \<le> length n \<or> IP_LEN \<le> length i") simp_all
  next
    case False
    then obtain sfd rfd where 2: "\<not> N" "\<not> A" "alloc" "length n < GROUP_NAME_LEN" "length i < IP_LEN"
        "fds = Some (sfd, rfd)"
      by auto
    let ?g = "\<lparr>gname = n, gip = i, gport = p, gnext = None, gprev = None, send_fd = sfd, recv_fd = rfd\<rparr>"
    let ?st = "st\<lparr>gheap := (gheap st)(gfresh st \<mapsto> ?g), gfresh := gfresh st + 1\<rparr>"
    note fresh = fresh_block(1,2) [OF ok, of ?g]
    have g: "gheap ?st (gfresh st) = Some ?g" "gview ?g = (n, i, p)" by (simp_all add: gview_def)
    have new: "initMulticastGroup n i p alloc fds st = Inr (0, Some (gfresh st), ?st)" using init 2 by simp
    have spec: "chat_spec (Chat_create n i p alloc fds j) (?es, stale) =
        (if \<not> j then Inr (Not_joined, ?es, stale) else if stale then Inl Use_after_free
         else Inr (Joined n i p, ?es @ [(n, i, p)], False))"
      using 2 unfolding spec by simp
    show ?thesis
    proof (cases "j \<and> \<not> stale")
      case False
      have "chat_rel ?st (?es, stale)" using fresh d by (auto simp: chat_rel_def)
      with False spec new show ?thesis
        using insert_group_stale [of ?st as "gfresh st"] fresh(1)
        by (cases j) (simp_all add: create_group_cmd_def joinMulticastGroup_def grp_at_def)
    next
      case True
      then have "chat_ok ?st as False" using fresh(1) by simp
      from insert_group_ok [OF this g(1) _ _ fresh_block(3) [OF ok]] obtain st' h where
        st': "insertMulticastGroup (Some (gfresh st)) ?st = Inr (0, st')" "chat_ok st' (as @ [gfresh st]) False"
          "lines_of st' (as @ [gfresh st]) = lines_of ?st as @ [gview ?g]" "grp_at st' (gfresh st) = Inr h" "gview h = gview ?g"
        by auto
      have "n \<notin> fst ` set ?es" using 2(1) unfolding N_def .
      then have "chat_rel st' (?es @ [(n, i, p)], False)"
        using st'(2,3) fresh(2) g(2) d unfolding chat_rel_def prod.case
        by (intro exI [of _ "as @ [gfresh st]"]) simp
      moreover have "create_group_cmd n i p alloc fds j st = Inr (Joined n i p, st')"
        using True new st'(1,4,5) g by (simp add: create_group_cmd_def joinMulticastGroup_def grp_at_def gview_def)
      ultimately show ?thesis using True spec by simp
    qed
  qed
qed

lemma chat_leave_refines:
  assumes ok: "chat_ok st as stale" and d: "distinct (map fst (lines_of st as))"
  shows "\<exists>r st' t. leave_group_cmd n j st = Inr (r, st') \<and>
     chat_spec (Chat_leave n j) (lines_of st as, stale) = Inr (r, t) \<and> chat_rel st' t"
proof -
  let ?es = "lines_of st as"
  have rel: "chat_rel st (?es, stale)" using ok d by (auto simp: chat_rel_def)
  have found: "findGroupByName n st = Inr (find (\<lambda>a. gname (the (gheap st a)) = n) as)"
    using find_in_chat [OF ok] by (simp add: findGroupByName_def)
  show ?thesis
  proof (cases "find (\<lambda>a. gname (the (gheap st a)) = n) as")
    case None
    then have "find (\<lambda>e. fst e = n) ?es = None" by (auto simp: find_None_iff lines_of_def gview_def)
    with None found rel show ?thesis by (simp add: leave_group_cmd_def)
  next
    case (Some a)
    let ?e = "gview (the (gheap st a))"
    have e: "find (\<lambda>e. fst e = n) ?es = Some ?e"
      using find_map_view [of "\<lambda>e. fst e = n" "\<lambda>a. gview (the (gheap st a))" as a] Some
      by (simp add: lines_of_def gview_def)
    from Some have "a \<in> set as" using find_Some_first by fast
    then obtain xs ys where as: "as = xs @ a # ys" by (auto simp: in_set_conv_decomp)
    show ?thesis
    proof (cases j)
      case False
      with Some e found rel grp_at_mem [OF ok \<open>a \<in> set as\<close>] show ?thesis
        by (auto simp: leave_group_cmd_def leaveMulticastGroup_def)
    next
      case True
      obtain st' where st': "leaveMulticastGroup True a st = Inr (0, st')"
          "chat_ok st' (xs @ ys) (xs @ ys \<noteq> [] \<and> (stale \<or> ys = []))" "lines_of st' (xs @ ys) = lines_of st (xs @ ys)"
        using leave_group_ok [of st xs a ys stale] ok as by auto
      have es: "remove1 ?e ?es = lines_of st (xs @ ys)" "last ?es = ?e \<longleftrightarrow> lines_of st ys = []"
        using remove1_split [of "lines_of st xs" ?e "lines_of st ys"] d as by simp_all
      have nil: "lines_of st zs = [] \<longleftrightarrow> zs = []" for zs by (simp add: lines_of_def)
      have "distinct (map fst (lines_of st (xs @ ys)))" using d as by auto
      then have "chat_rel st' (remove1 ?e ?es, remove1 ?e ?es \<noteq> [] \<and> (stale \<or> last ?es = ?e))"
        using st'(2,3) unfolding es nil chat_rel_def prod.case by (intro exI [of _ "xs @ ys"]) simp
      with True Some e found st'(1) show ?thesis by (simp add: leave_group_cmd_def)
    qed
  qed
qed

lemma chat_step_refines:
  assumes "chat_rel st t"
  shows "(\<exists>e. chat_step op st = Inl e \<and> chat_spec op t = Inl e) \<or>
     (\<exists>r st' t'. chat_step op st = Inr (r, st') \<and> chat_spec op t = Inr (r, t') \<and> chat_rel st' t')"
proof -
  obtain as stale where ok: "chat_ok st as stale" and t: "t = (lines_of st as, stale)" and d: "distinct (map fst (lines_of st as))"
    using assms by (cases t) (auto simp: chat_rel_def)
  show ?thesis
  proof (cases op)
    case (Chat_create n i p alloc fds j)
    show ?thesis using chat_create_refines [OF ok d, of n i p alloc fds j] unfolding Chat_create t chat_step.simps .
  next
    case (Chat_leave n j)
    show ?thesis using chat_leave_refines [OF ok d, of n j] unfolding Chat_leave t chat_step.simps by blast
  next
    case Chat_list
    with list_groups_ok [OF ok] t assms show ?thesis by simp
  qed
qed

lemma chat_init_rel: "chat_rel chat_init ([], False)"
  by (auto simp: chat_rel_def chat_init_def chat_ok_def intro!: exI [of _ "[]"])

lemma chat_run_refines: "run_ops chat_step ops chat_init = run_ops chat_spec ops ([], False)"
  using chat_init_rel chat_step_refines by (rule run_ops_simulation)

section \<open>The descriptors and the clean-up\<close>

lemma max_fd_list:
  "gseg (gheap st) q as None \<Longrightarrow> length as \<le> k \<Longrightarrow>
   max_fd_loop k st (first_of as None) m = Inr (foldl max m (map (\<lambda>a. recv_fd (the (gheap st a))) as))"
proof (induction as arbitrary: k q m)
  case (Cons a as)
  then obtain g k' where g: "gheap st a = Some g" "gnext g = first_of as None" "k = Suc k'"
    by (cases k) auto
  with Cons show ?case by (auto simp: grp_at_def max_def)
qed simp

lemma max_fd_chat:
  assumes "chat_ok st as stale"
  shows "getMaxFd b st = Inr (foldl max (max b 0) (map (\<lambda>a. recv_fd (the (gheap st a))) as))"
  using max_fd_list [of st None as "gfresh st"] assms chat_ok_length [OF assms]
  by (auto simp: getMaxFd_def chat_ok_def max_def)

lemma foldl_max_upper:
  fixes m :: int
  shows "m \<le> foldl max m xs" "\<forall>y \<in> set xs. y \<le> foldl max m xs"
proof -
  show up: "m \<le> foldl max m xs" for m :: int and xs
  proof (induction xs arbitrary: m)
    case (Cons x xs)
    show ?case using Cons.IH [of "max m x"] by simp
  qed simp
  show "\<forall>y \<in> set xs. y \<le> foldl max m xs"
  proof (induction xs arbitrary: m)
    case (Cons x xs)
    show ?case using Cons.IH [of "max m x"] up [of "max m x" xs] by simp
  qed simp
qed

lemma leave_rejected: "chat_ok st as stale \<Longrightarrow> a \<in> set as \<Longrightarrow> leaveMulticastGroup False a st = Inr (-1, st)"
  using grp_at_mem [of st as stale a] by (auto simp: leaveMulticastGroup_def)

lemma cleanup_rejected:
  "gseg (gheap st) q bs None \<Longrightarrow> length bs \<le> k \<Longrightarrow> set bs \<subseteq> set as \<Longrightarrow> chat_ok st as stale \<Longrightarrow>
   cleanup_loop k False (first_of bs None) st = Inr st"
proof (induction bs arbitrary: k q)
  case (Cons b bs)
  then obtain g k' where g: "gheap st b = Some g" "gnext g = first_of bs None" "k = Suc k'"
    by (cases k) auto
  with Cons show ?case by (auto simp: grp_at_def leave_rejected)
qed simp

lemma leave_frees:
  assumes "leaveMulticastGroup True a st = Inr (0, st')"
  shows "grp_at st' a = Inl Use_after_free"
  using assms by (auto simp: leaveMulticastGroup_def rbind_Inr_iff grp_at_def split: if_splits)

lemma cleanup_chat:
  assumes "chat_ok st as stale"
  shows "cleanup_groups ok st = (if ok \<and> as \<noteq> [] then Inl Use_after_free else Inr st)"
proof (cases "ok \<and> as \<noteq> []")
  case True
  then obtain a bs where as: "as = [] @ a # bs" by (cases as) auto
  obtain st' where st': "leaveMulticastGroup True a st = Inr (0, st')"
    using leave_group_ok [of st "[]" a bs stale] assms as by auto
  obtain k where "gfresh st = Suc k" using chat_ok_length [OF assms] as by (cases "gfresh st") auto
  with st' leave_frees [OF st'] True as assms show ?thesis by (simp add: cleanup_groups_def chat_ok_def)
next
  case False
  then consider "as = []" | "\<not> ok" by blast
  then show ?thesis
  proof cases
    case 1
    with assms show ?thesis by (simp add: cleanup_groups_def chat_ok_def)
  next
    case 2
    with cleanup_rejected [of st None as "gfresh st" as stale] chat_ok_length [OF assms] assms show ?thesis
      by (simp add: cleanup_groups_def chat_ok_def)
  qed
qed

section \<open>Properties\<close>

text \<open>
  C4: the groups in the store behave like a list. Every sequence of create, leave and list commands from
  the start of the program answers as the list \<open>chat_spec\<close> does: a name and an address are in the list
  once, a new group goes to the end, a leave removes the group of that name, a listing prints the groups
  in the order they were joined; and the two agree on when the program faults: a name or address that
  does not fit, or the tail of the list, which a leave never moves, being a group that was freed.
\<close>

theorem groups_refine_list: "run_ops chat_step ops chat_init = run_ops chat_spec ops ([], False)"
  by (rule chat_run_refines)

text \<open>
  \<open>removeMulticastGroup\<close> leaves \<open>tail\<close> where it was. When the last of two groups is left and another
  one is joined, \<open>insertMulticastGroup\<close> writes to the group that was freed.
\<close>

theorem leave_last_then_join_faults:
  assumes "n1 \<noteq> n2" "n3 \<noteq> n1" "(i1, p1) \<noteq> (i2, p2)" "(i3, p3) \<noteq> (i1, p1)"
    and "\<forall>s \<in> {n1, n2, n3}. length s < GROUP_NAME_LEN" "\<forall>s \<in> {i1, i2, i3}. length s < IP_LEN"
  shows "run_ops chat_step
     [Chat_create n1 i1 p1 True (Some f1) True, Chat_create n2 i2 p2 True (Some f2) True,
      Chat_leave n2 True, Chat_create n3 i3 p3 True (Some f3) True] chat_init = Inl Use_after_free"
  using assms unfolding chat_run_refines by (auto simp: rbind_def split: if_splits)

theorem leave_last_then_join_faults_witness:
  "run_ops chat_step
     [Chat_create ''a'' ''224.0.0.1'' 1 True (Some (4, 5)) True, Chat_create ''b'' ''224.0.0.2'' 1 True (Some (6, 7)) True,
      Chat_leave ''b'' True, Chat_create ''c'' ''224.0.0.3'' 1 True (Some (6, 7)) True] chat_init = Inl Use_after_free"
  by (rule leave_last_then_join_faults) simp_all

text \<open>
  \<open>cleanup\<close> on \<open>SIGINT\<close>. With a group joined and \<open>setsockopt\<close> working it frees the first group and then
  reads the next pointer out of it; if the groups cannot be left, it walks the whole list and changes nothing.
\<close>

theorem cleanup_reads_freed_group:
  assumes "chat_ok st as stale"
  shows "cleanup_groups ok st = (if ok \<and> as \<noteq> [] then Inl Use_after_free else Inr st)"
  using assms by (rule cleanup_chat)

theorem cleanup_reads_freed_group_witness:
  "cleanup_groups True
     \<lparr>gheap = [0 \<mapsto> \<lparr>gname = ''a'', gip = ''224.0.0.1'', gport = 1, gnext = None, gprev = None, send_fd = 4, recv_fd = 5\<rparr>],
      gfresh = 1, ghead = Some 0, gtail = Some 0, gcount = 1\<rparr> = Inl Use_after_free"
  using cleanup_reads_freed_group [of "\<lparr>gheap = [0 \<mapsto> \<lparr>gname = ''a'', gip = ''224.0.0.1'', gport = 1, gnext = None,
      gprev = None, send_fd = 4, recv_fd = 5\<rparr>], gfresh = 1, ghead = Some 0, gtail = Some 0, gcount = 1\<rparr>" "[0]" False True]
  by (simp add: chat_ok_def)

text \<open>
  \<open>getMaxFd\<close> returns at least every descriptor that \<open>select\<close> is asked to watch, and one of them or 0.
\<close>

theorem max_fd_covers_groups:
  assumes "chat_ok st as stale"
  shows "\<exists>m. getMaxFd b st = Inr m \<and> b \<le> m \<and> (\<forall>a \<in> set as. recv_fd (the (gheap st a)) \<le> m) \<and>
     m \<in> insert 0 (insert b ((\<lambda>a. recv_fd (the (gheap st a))) ` set as))"
proof -
  let ?xs = "map (\<lambda>a. recv_fd (the (gheap st a))) as"
  have member: "foldl max m xs = m \<or> foldl max m xs \<in> set xs" for m and xs :: "int list"
    by (induction xs arbitrary: m) (auto simp: max_def)
  have "max b 0 \<le> foldl max (max b 0) ?xs" "\<forall>y \<in> set ?xs. y \<le> foldl max (max b 0) ?xs"
    using foldl_max_upper by blast+
  with max_fd_chat [OF assms, of b] member [of "max b 0" ?xs] show ?thesis by (auto simp: max_def)
qed

theorem max_fd_covers_groups_witness:
  "\<exists>m. getMaxFd 3 \<lparr>gheap = [0 \<mapsto> \<lparr>gname = ''a'', gip = ''224.0.0.1'', gport = 1, gnext = None, gprev = None, send_fd = 4, recv_fd = 5\<rparr>],
      gfresh = 1, ghead = Some 0, gtail = Some 0, gcount = 1\<rparr> = Inr m \<and> 5 \<le> m"
  using max_fd_covers_groups [of "\<lparr>gheap = [0 \<mapsto> \<lparr>gname = ''a'', gip = ''224.0.0.1'', gport = 1, gnext = None,
      gprev = None, send_fd = 4, recv_fd = 5\<rparr>], gfresh = 1, ghead = Some 0, gtail = Some 0, gcount = 1\<rparr>" "[0]" False 3]
  by (auto simp: chat_ok_def)

end
