(* ===== verification/Group_Msg.thy ===== *)
theory Group_Msg
  imports Group_List
begin

text \<open>
  Messages of the group chat: looking for a group on the network and joining it, texts, and polls
  (\<open>assignment-2/q3/utils.c\<close> from \<open>findGroupSend\<close> to \<open>handleFindGroupCmd\<close>, with the commands and the
  receiving code of \<open>group_comm.c\<close>). Sockets are modelled by what arrives on them and whether a call on
  them succeeds.
\<close>

section \<open>Messages\<close>

record poll_req =
  option_cnt :: int
  que :: string
  poll_options :: "string list"
  poll_id :: int
  reply_port :: int

text \<open>The arrays of a file list have \<open>MAX_FILE_ALLOWED\<close> and \<open>MAX_GROUPS\<close> elements; elements never written are junk.\<close>

record file_list =
  fl_files :: "string list"
  fl_groups :: "string list"
  fl_file_count :: int
  fl_grp_count :: int

datatype message =
    Simple_msg string
  | Find_group_req string int
  | Find_group_reply string string int
  | Poll_request poll_req
  | Poll_reply int int
  | File_req string int
  | File_list_multicast file_list
  | File_reply bool string int

text \<open>What a loop around \<open>select\<close> sees: a message, the timeout, an interrupt by a signal, another error.\<close>

datatype net_event = Got message | Timed_out | Interrupted | Select_failed

section \<open>Finding a group\<close>

text \<open>
  \<open>findGroupRecv\<close>. \<open>live\<close> says that \<open>recv_msg\<close> is not NULL. After an interrupted \<open>select\<close> the set still
  holds the socket, and \<open>recvfrom\<close> waits for a message without a timeout.
\<close>

definition is_got :: "net_event \<Rightarrow> bool" where
  "is_got e = (case e of Got _ \<Rightarrow> True | _ \<Rightarrow> False)"

function findGroupRecv :: "bool \<Rightarrow> string \<Rightarrow> net_event list \<Rightarrow> (string \<times> string \<times> int) option res" where
  "findGroupRecv live grp_name [] = Inl Blocked"
| "findGroupRecv live grp_name (Timed_out # es) = Inr None"
| "findGroupRecv live grp_name (Interrupted # es) = findGroupRecv live grp_name (dropWhile (\<lambda>e. \<not> is_got e) es)"
| "findGroupRecv live grp_name (Select_failed # es) = findGroupRecv live grp_name (dropWhile (\<lambda>e. \<not> is_got e) es)"
| "findGroupRecv live grp_name (Got m # es) =
     (if \<not> live then Inl Null_deref
      else
        case m of
          Find_group_reply n addr port \<Rightarrow>
            if n = grp_name then Inr (Some (n, addr, port)) else findGroupRecv False grp_name es
        | _ \<Rightarrow> findGroupRecv False grp_name es)"
  by pat_completeness auto
termination
  by (relation "measure (\<lambda>(_, _, es). length es)") (auto simp: le_imp_less_Suc length_dropWhile_le)

text \<open>The port replies are to be sent to, with the reply.\<close>

definition handleFindGroupReq :: "string \<Rightarrow> int \<Rightarrow> chat \<Rightarrow> (int \<times> message) option res" where
  "handleFindGroupReq query port st =
     rbind (findGroupByName query st) (\<lambda>grp.
     case grp of
       None \<Rightarrow> Inr None
     | Some a \<Rightarrow>
         rbind (grp_at st a) (\<lambda>g.
         rbind (strcpy_to GROUP_NAME_LEN (gname g)) (\<lambda>n.
         rbind (strcpy_to IP_LEN (gip g)) (\<lambda>addr.
         Inr (Some (port, Find_group_reply n addr (gport g)))))))"

text \<open>
  \<open>sock\<close> is the port the reply socket is bound to, \<open>None\<close> if one of its calls fails; \<open>sent\<close> is whether the
  broadcast goes out. The result is \<open>err_no\<close> and the contents of the reply.
\<close>

definition handleFindGroupCmd ::
  "string \<Rightarrow> int option \<Rightarrow> bool \<Rightarrow> net_event list \<Rightarrow> chat \<Rightarrow> (int \<times> group_line option) res" where
  "handleFindGroupCmd grp_name sock sent es st =
     rbind (findGroupByName grp_name st) (\<lambda>found.
     if found \<noteq> None then Inr (-1, None)
     else
       case sock of
         None \<Rightarrow> Inr (-3, None)
       | Some port \<Rightarrow>
           rbind (strcpy_to GROUP_NAME_LEN grp_name) (\<lambda>_.
           if \<not> sent then Inr (-2, None)
           else rbind (findGroupRecv True grp_name es) (\<lambda>r. Inr (0, r))))"

text \<open>JOIN_GROUP and FIND_GROUP of the main loop; \<open>None\<close> when no group is found.\<close>

definition join_group_cmd ::
  "string \<Rightarrow> int option \<Rightarrow> bool \<Rightarrow> net_event list \<Rightarrow> bool \<Rightarrow> (int \<times> int) option \<Rightarrow> bool \<Rightarrow> chat \<Rightarrow>
   (chat_reply option \<times> chat) res" where
  "join_group_cmd grp_name sock sent es alloc fds ok st =
     rbind (handleFindGroupCmd grp_name sock sent es st) (\<lambda>(_, reply_msg).
     case reply_msg of
       None \<Rightarrow> Inr (None, st)
     | Some (n, addr, port) \<Rightarrow>
         rbind (create_group_cmd n addr port alloc fds ok st) (\<lambda>(r, st). Inr (Some r, st)))"

definition find_group_cmd ::
  "string \<Rightarrow> int option \<Rightarrow> bool \<Rightarrow> net_event list \<Rightarrow> chat \<Rightarrow> group_line option res" where
  "find_group_cmd query sock sent es st =
     rbind (handleFindGroupCmd query sock sent es st) (\<lambda>(_, reply_msg). Inr reply_msg)"

section \<open>Texts\<close>

text \<open>What is sent to which group; \<open>sent\<close> is whether \<open>sendto\<close> succeeds.\<close>

definition sendSimpleMessage :: "string \<Rightarrow> message res" where
  "sendSimpleMessage msg = rbind (strcpy_to MESSAGE_LEN msg) (\<lambda>msg. Inr (Simple_msg msg))"

datatype send_reply = Send_not_joined | Send_error | Message_sent group_line message

definition send_message_cmd :: "string \<Rightarrow> string \<Rightarrow> bool \<Rightarrow> chat \<Rightarrow> send_reply res" where
  "send_message_cmd name msg sent st =
     rbind (findGroupByName name st) (\<lambda>grp.
     case grp of
       None \<Rightarrow> Inr Send_not_joined
     | Some a \<Rightarrow>
         rbind (grp_at st a) (\<lambda>g.
         rbind (sendSimpleMessage msg) (\<lambda>pkt.
         Inr (if sent then Message_sent (gname g, gip g, gport g) pkt else Send_error))))"

section \<open>Polls\<close>

text \<open>The copy of the options, lines 288 and 289 of \<open>group_comm.c\<close>, from option \<open>i\<close> with \<open>n\<close> rounds left.\<close>

fun copy_options :: "nat \<Rightarrow> nat \<Rightarrow> string list \<Rightarrow> string list res" where
  "copy_options 0 i opts = Inr []"
| "copy_options (Suc n) i opts =
     (if NUM_OPTIONS \<le> i then Inl Out_of_bounds
      else
        rbind (elem_at opts (int i)) (\<lambda>opt.
        rbind (strcpy_to MESSAGE_LEN opt) (\<lambda>opt.
        rbind (copy_options n (i + 1) opts) (\<lambda>rest. Inr (opt # rest)))))"

text \<open>
  The child of \<open>handlePollCommand\<close>: counting the replies that carry the number of the poll. When \<open>select\<close>
  fails the child returns to the main loop and goes on as a second chat.
\<close>

datatype tally = Counts "int list" | Child_returns

fun poll_loop :: "int \<Rightarrow> net_event list \<Rightarrow> int list \<Rightarrow> tally res" where
  "poll_loop pid [] counts = Inl Blocked"
| "poll_loop pid (Timed_out # es) counts = Inr (Counts counts)"
| "poll_loop pid (Interrupted # es) counts = Inr Child_returns"
| "poll_loop pid (Select_failed # es) counts = Inr Child_returns"
| "poll_loop pid (Got m # es) counts =
     (case m of
        Poll_reply opt i \<Rightarrow>
          if i \<noteq> pid then poll_loop pid es counts
          else rbind (elem_at counts opt) (\<lambda>c. poll_loop pid es (counts[nat opt := c + 1]))
      | _ \<Rightarrow> poll_loop pid es counts)"

fun show_counts :: "nat \<Rightarrow> nat \<Rightarrow> int list \<Rightarrow> int list res" where
  "show_counts 0 i counts = Inr []"
| "show_counts (Suc n) i counts =
     rbind (elem_at counts (int i)) (\<lambda>c. rbind (show_counts n (i + 1) counts) (\<lambda>cs. Inr (c # cs)))"

text \<open>
  \<open>handlePollCommand\<close>: the message sent to the group, and what the child prints at the end (\<open>None\<close> when it
  returns instead). \<open>sock\<close> is as in \<open>handleFindGroupCmd\<close>.
\<close>

datatype poll_outcome = Poll_send_error | Poll_receive_error | Poll_sent message "int list option"

definition handlePollCommand :: "poll_req \<Rightarrow> int option \<Rightarrow> bool \<Rightarrow> net_event list \<Rightarrow> poll_outcome res" where
  "handlePollCommand req sock sent es =
     (case sock of
        None \<Rightarrow> Inr Poll_receive_error
      | Some port \<Rightarrow>
          let req = req\<lparr>reply_port := port\<rparr> in
          if \<not> sent then Inr Poll_send_error
          else
            rbind (poll_loop (poll_id req) es (replicate NUM_OPTIONS 0)) (\<lambda>t.
            case t of
              Child_returns \<Rightarrow> Inr (Poll_sent (Poll_request req) None)
            | Counts counts \<Rightarrow>
                rbind (show_counts (nat (option_cnt req)) 0 counts) (\<lambda>cs.
                Inr (Poll_sent (Poll_request req) (Some cs)))))"

text \<open>INIT_POLL of the main loop; \<open>None\<close> when the group is not joined.\<close>

definition init_poll_cmd ::
  "string \<Rightarrow> string \<Rightarrow> string list \<Rightarrow> int \<Rightarrow> int \<Rightarrow> int \<Rightarrow> int option \<Rightarrow> bool \<Rightarrow> net_event list \<Rightarrow> chat \<Rightarrow>
   poll_outcome option res" where
  "init_poll_cmd name question opts cnt pid junk sock sent es st =
     rbind (findGroupByName name st) (\<lambda>grp.
     if grp = None then Inr None
     else
       rbind (strcpy_to MESSAGE_LEN question) (\<lambda>question.
       rbind (copy_options (nat cnt) 0 opts) (\<lambda>opts.
       rbind (handlePollCommand \<lparr>option_cnt = cnt, que = question, poll_options = opts, poll_id = pid, reply_port = junk\<rparr> sock sent es)
         (\<lambda>r. Inr (Some r)))))"

text \<open>
  Answering a poll, lines 373 to 428: the question and the options are printed, then lines are read until
  one holds the number of an option; after the end of the input \<open>getline\<close> changes nothing and the loop
  does not end. The result is the port and the reply.
\<close>

fun show_poll_options :: "nat \<Rightarrow> nat \<Rightarrow> string list \<Rightarrow> string list res" where
  "show_poll_options 0 i opts = Inr []"
| "show_poll_options (Suc n) i opts =
     (if NUM_OPTIONS \<le> i then Inl Out_of_bounds
      else rbind (elem_at opts (int i)) (\<lambda>opt. rbind (show_poll_options n (i + 1) opts) (\<lambda>rest. Inr (opt # rest))))"

fun read_vote :: "int \<Rightarrow> string list \<Rightarrow> int res" where
  "read_vote cnt [] = Inl Blocked"
| "read_vote cnt (buff # lines) =
     (let poll_opt_selected = atoi buff in
      if poll_opt_selected < 1 \<or> cnt < poll_opt_selected then read_vote cnt lines else Inr poll_opt_selected)"

definition answer_poll :: "poll_req \<Rightarrow> string list \<Rightarrow> bool \<Rightarrow> (int \<times> message) option res" where
  "answer_poll req lines sock =
     rbind (show_poll_options (nat (option_cnt req)) 0 (poll_options req)) (\<lambda>_.
     rbind (read_vote (option_cnt req) lines) (\<lambda>v.
     Inr (if sock then Some (reply_port req, Poll_reply (v - 1) (poll_id req)) else None)))"

section \<open>Lemmas\<close>

lemma findGroupRecv_messages:
  "findGroupRecv False n (map Got ms @ Timed_out # es) = (if ms = [] then Inr None else Inl Null_deref)"
  by (cases ms) simp_all

lemma group_of_line:
  assumes "chat_ok st as stale" "(n, addr, port) \<in> set (lines_of st as)" "distinct (map fst (lines_of st as))"
  shows "\<exists>a g. findGroupByName n st = Inr (Some a) \<and> grp_at st a = Inr g \<and> gview g = (n, addr, port)"
proof -
  obtain a where a: "find (\<lambda>a. gname (the (gheap st a)) = n) as = Some a"
    using assms(2) find_line(1) [of st n as] by (cases "find (\<lambda>a. gname (the (gheap st a)) = n) as") force+
  then have mem: "a \<in> set as" "gname (the (gheap st a)) = n" using find_Some_first by fast+
  then obtain g where g: "gheap st a = Some g" "grp_at st a = Inr g" using grp_at_mem [OF assms(1)] by blast
  have "gview g \<in> set (lines_of st as)" using mem(1) g(1) by (force simp: lines_of_def)
  moreover have "fst (gview g) = n" using mem(2) g(1) by (simp add: gview_def)
  ultimately have "gview g = (n, addr, port)"
    using assms(2,3) eq_key_imp_eq_value [of "lines_of st as" n "snd (gview g)"] by (metis prod.collapse snd_conv)
  with a g find_in_chat [OF assms(1)] show ?thesis by (auto simp: findGroupByName_def)
qed

definition votes :: "int \<Rightarrow> message list \<Rightarrow> nat \<Rightarrow> int" where
  "votes pid ms i = int (length (filter (\<lambda>m. m = Poll_reply (int i) pid) ms))"

lemma poll_loop_counts:
  "length counts = k \<Longrightarrow>
   poll_loop pid (map Got ms @ Timed_out # es) counts =
     (if \<exists>v. Poll_reply v pid \<in> set ms \<and> (v < 0 \<or> int k \<le> v) then Inl Out_of_bounds
      else Inr (Counts (map (\<lambda>i. counts ! i + votes pid ms i) [0..<k])))"
proof (induction ms arbitrary: counts)
  case Nil
  then show ?case by (auto simp: votes_def intro!: nth_equalityI)
next
  case (Cons m ms)
  show ?case
  proof (cases "\<exists>v. m = Poll_reply v pid")
    case False
    then have "poll_loop pid (map Got (m # ms) @ Timed_out # es) counts = poll_loop pid (map Got ms @ Timed_out # es) counts"
      by (cases m) auto
    moreover have "votes pid (m # ms) i = votes pid ms i" for i using False by (auto simp: votes_def)
    moreover have "Poll_reply v pid \<in> set (m # ms) \<longleftrightarrow> Poll_reply v pid \<in> set ms" for v using False by auto
    ultimately show ?thesis using Cons by simp
  next
    case True
    then obtain v where m: "m = Poll_reply v pid" by blast
    show ?thesis
    proof (cases "0 \<le> v \<and> v < int k")
      case True
      let ?cs = "counts[nat v := counts ! nat v + 1]"
      have "votes pid (m # ms) i = (if i = nat v then 1 else 0) + votes pid ms i" for i
        using True by (auto simp: votes_def m)
      moreover have "?cs ! i = (if i = nat v then 1 else 0) + counts ! i" if "i < k" for i
        using that Cons.prems by (auto simp: nth_list_update)
      moreover have "(Poll_reply x pid \<in> set (m # ms) \<and> (x < 0 \<or> int k \<le> x)) \<longleftrightarrow>
          (Poll_reply x pid \<in> set ms \<and> (x < 0 \<or> int k \<le> x))" for x using True by (auto simp: m)
      ultimately show ?thesis
        using True Cons.prems Cons.IH [of ?cs] by (simp add: m elem_at_def algebra_simps cong: map_cong)
    next
      case False
      with Cons.prems show ?thesis by (auto simp: m elem_at_def)
    qed
  qed
qed

lemma show_counts_all:
  "i + n \<le> length counts \<Longrightarrow> show_counts n i counts = Inr (take n (drop i counts))"
proof (induction n arbitrary: i)
  case (Suc n)
  then show ?case using Cons_nth_drop_Suc [of i counts] elem_at_nat [of i counts]
    by (simp del: elem_at_nat add: take_Suc_conv_app_nth flip: Cons_nth_drop_Suc)
qed simp

lemma show_counts_over: "i \<le> length counts \<Longrightarrow> length counts < i + n \<Longrightarrow> show_counts n i counts = Inl Out_of_bounds"
proof (induction n arbitrary: i)
  case (Suc n)
  show ?case
  proof (cases "i = length counts")
    case True
    then show ?thesis by (simp add: elem_at_def)
  next
    case False
    with Suc have "i < length counts" "show_counts n (i + 1) counts = Inl Out_of_bounds" by simp_all
    then show ?thesis by simp
  qed
qed simp

lemma read_vote_range: "read_vote cnt lines = Inr v \<Longrightarrow> 1 \<le> v \<and> v \<le> cnt"
  by (induction lines) (auto simp: Let_def split: if_splits)

lemma answer_poll_vote:
  "answer_poll req lines sock = Inr (Some (p, m)) \<Longrightarrow>
   \<exists>v. m = Poll_reply v (poll_id req) \<and> 0 \<le> v \<and> v < option_cnt req \<and> p = reply_port req"
  by (auto simp: answer_poll_def rbind_Inr_iff dest!: read_vote_range split: if_splits)

lemma sum_votes:
  assumes "\<forall>m \<in> set ms. \<exists>v. m = Poll_reply v pid \<and> 0 \<le> v \<and> v < int k"
  shows "(\<Sum>i < k. votes pid ms i) = int (length ms)"
  using assms
proof (induction ms)
  case (Cons m ms)
  then obtain v where v: "m = Poll_reply v pid" "0 \<le> v" "v < int k" by auto
  have "votes pid (m # ms) i = (if i = nat v then 1 else 0) + votes pid ms i" for i
    using v by (auto simp: votes_def)
  then show ?case using v Cons by (simp add: sum.distrib)
qed (simp add: votes_def)

section \<open>Properties\<close>

text \<open>
  C26: joining a group through a member of it. If a peer has joined a group of this name, its answer to the
  request makes the joining chat create a group with exactly the name, address and port the peer has, at
  the end of its list; nothing else in the list changes.
\<close>

theorem join_adopts_peers_group:
  assumes peer: "chat_rel stp (esp, sp)" "(n, addr, port) \<in> set esp"
    and me: "chat_rel st (es, False)" "n \<notin> fst ` set es" "(addr, port) \<notin> snd ` set es"
    and fits: "length n < GROUP_NAME_LEN" "length addr < IP_LEN"
  shows "\<exists>reply st'. handleFindGroupReq n rp stp = Inr (Some (rp, reply)) \<and>
     join_group_cmd n (Some rp) True (Got reply # evs) True (Some fds) True st = Inr (Some (Joined n addr port), st') \<and>
     chat_rel st' (es @ [(n, addr, port)], False)"
proof -
  obtain asp where p: "chat_ok stp asp sp" "esp = lines_of stp asp" "distinct (map fst esp)"
    using peer(1) by (auto simp: chat_rel_def)
  then obtain a g where g: "findGroupByName n stp = Inr (Some a)" "grp_at stp a = Inr g" "gview g = (n, addr, port)"
    using group_of_line [of stp asp sp n addr port] peer(2) by auto
  have reply: "handleFindGroupReq n rp stp = Inr (Some (rp, Find_group_reply n addr port))"
    using g fits by (simp add: handleFindGroupReq_def gview_def strcpy_to_def)
  obtain as where m: "chat_ok st as False" "es = lines_of st as" using me(1) by (auto simp: chat_rel_def)
  have none: "findGroupByName n st = Inr None"
    using find_in_chat [OF m(1)] find_line(1) [of st n as] me(2) m(2) by (simp add: findGroupByName_def)
  obtain st' t where st': "create_group_cmd n addr port True (Some fds) True st = Inr (Joined n addr port, st')"
      "chat_rel st' (es @ [(n, addr, port)], False)"
    using chat_step_refines [OF me(1), of "Chat_create n addr port True (Some fds) True"] me(2,3) fits by auto
  have "join_group_cmd n (Some rp) True (Got (Find_group_reply n addr port) # evs) True (Some fds) True st =
      Inr (Some (Joined n addr port), st')"
    using none fits(1) st'(1) by (simp add: join_group_cmd_def handleFindGroupCmd_def strcpy_to_def)
  with reply st'(2) show ?thesis by blast
qed

theorem join_adopts_peers_group_witness:
  "\<exists>reply st'. handleFindGroupReq ''os'' 4000 \<lparr>gheap = [0 \<mapsto> \<lparr>gname = ''os'', gip = ''224.0.0.1'', gport = 9000,
        gnext = None, gprev = None, send_fd = 4, recv_fd = 5\<rparr>], gfresh = 1, ghead = Some 0, gtail = Some 0, gcount = 1\<rparr> =
      Inr (Some (4000, reply)) \<and>
     join_group_cmd ''os'' (Some 4000) True [Got reply] True (Some (4, 5)) True chat_init =
       Inr (Some (Joined ''os'' ''224.0.0.1'' 9000), st') \<and>
     chat_rel st' ([(''os'', ''224.0.0.1'', 9000)], False)"
proof -
  have "chat_rel \<lparr>gheap = [0 \<mapsto> \<lparr>gname = ''os'', gip = ''224.0.0.1'', gport = 9000, gnext = None, gprev = None,
        send_fd = 4, recv_fd = 5\<rparr>], gfresh = 1, ghead = Some 0, gtail = Some 0, gcount = 1\<rparr> ([(''os'', ''224.0.0.1'', 9000)], False)"
    unfolding chat_rel_def by (auto simp: chat_ok_def gview_def intro!: exI [of _ "[0]"])
  from join_adopts_peers_group [OF this, of "''os''" "''224.0.0.1''" 9000 chat_init "[]" 4000 "[]" "(4, 5)"] chat_init_rel
  show ?thesis by simp
qed

text \<open>
  \<open>findGroupRecv\<close> frees its message at the first one that is not the reply it waits for and then uses
  the NULL pointer: within one wait it survives only a first message that matches, or at most one other.
\<close>

theorem find_survives_one_foreign_message:
  "findGroupRecv True n (map Got ms @ Timed_out # es) =
     (case ms of
        [] \<Rightarrow> Inr None
      | m # ms' \<Rightarrow>
          if \<exists>addr port. m = Find_group_reply n addr port
          then Inr (Some (case m of Find_group_reply n addr port \<Rightarrow> (n, addr, port)))
          else if ms' = [] then Inr None else Inl Null_deref)"
proof (cases ms)
  case (Cons m ms')
  then show ?thesis by (cases m) (auto simp: findGroupRecv_messages)
qed simp

text \<open>
  The tally of a poll. After any messages and the timeout every option has as many votes as there were
  replies for it that carry the number of the poll, other messages being ignored; a reply whose option is
  none of the five elements of the array, and a poll that claims more than five options, is an access out
  of bounds.
\<close>

theorem poll_counts_replies:
  "handlePollCommand req (Some port) True (map Got ms @ Timed_out # es) =
     (if (\<exists>v. Poll_reply v (poll_id req) \<in> set ms \<and> (v < 0 \<or> 5 \<le> v)) \<or> 5 < option_cnt req then Inl Out_of_bounds
      else Inr (Poll_sent (Poll_request (req\<lparr>reply_port := port\<rparr>))
                  (Some (map (votes (poll_id req) ms) [0..<nat (option_cnt req)]))))"
proof (cases "\<exists>v. Poll_reply v (poll_id req) \<in> set ms \<and> (v < 0 \<or> 5 \<le> v)")
  case True
  then show ?thesis using poll_loop_counts [of "replicate 5 0" 5 "poll_id req" ms es]
    by (simp add: handlePollCommand_def Let_def)
next
  case False
  let ?cs = "map (\<lambda>i. replicate 5 (0::int) ! i + votes (poll_id req) ms i) [0..<5]"
  have cs: "?cs = map (votes (poll_id req) ms) [0..<5]" by simp
  have loop: "poll_loop (poll_id req) (map Got ms @ Timed_out # es) (replicate 5 0) = Inr (Counts ?cs)"
    using poll_loop_counts [of "replicate 5 0" 5 "poll_id req" ms es] False by simp
  show ?thesis
  proof (cases "5 < option_cnt req")
    case True
    with show_counts_over [of 0 ?cs "nat (option_cnt req)"] loop cs show ?thesis
      by (simp add: handlePollCommand_def Let_def del: upt_rec_numeral)
  next
    case False
    then have "show_counts (nat (option_cnt req)) 0 ?cs = Inr (take (nat (option_cnt req)) ?cs)"
      using show_counts_all [of 0 "nat (option_cnt req)" ?cs] by simp
    moreover have "take (nat (option_cnt req)) ?cs = map (votes (poll_id req) ms) [0..<nat (option_cnt req)]"
      using False unfolding cs by (simp add: take_map min_def del: upt_rec_numeral)
    ultimately show ?thesis using loop False \<open>\<not> (\<exists>v. Poll_reply v (poll_id req) \<in> set ms \<and> (v < 0 \<or> 5 \<le> v))\<close>
      by (simp add: handlePollCommand_def Let_def del: upt_rec_numeral)
  qed
qed

text \<open>
  C27: a poll and its answers. When peers that got the poll answer it, whatever lines their users type
  before a valid one, the result holds one count per option and the counts add up to the number of
  answers: no vote is lost and no answer of a peer runs out of the array.
\<close>

theorem poll_counts_every_answer:
  assumes "0 \<le> option_cnt req" "option_cnt req \<le> 5"
    and "\<forall>m \<in> set ms. \<exists>lines. answer_poll (req\<lparr>reply_port := port\<rparr>) lines True = Inr (Some (port, m))"
  shows "\<exists>cs. handlePollCommand req (Some port) True (map Got ms @ Timed_out # es) =
       Inr (Poll_sent (Poll_request (req\<lparr>reply_port := port\<rparr>)) (Some cs)) \<and>
     length cs = nat (option_cnt req) \<and> sum_list cs = int (length ms)"
proof -
  have ans: "\<forall>m \<in> set ms. \<exists>v. m = Poll_reply v (poll_id req) \<and> 0 \<le> v \<and> v < option_cnt req"
    using assms(3) answer_poll_vote [of "req\<lparr>reply_port := port\<rparr>"] by fastforce
  then have ok: "\<not> (\<exists>v. Poll_reply v (poll_id req) \<in> set ms \<and> (v < 0 \<or> int 5 \<le> v))" using assms(2) by fastforce
  let ?k = "nat (option_cnt req)"
  let ?cs = "map (\<lambda>i. replicate 5 (0::int) ! i + votes (poll_id req) ms i) [0..<5]"
  have cs: "?cs = map (votes (poll_id req) ms) [0..<5]" by simp
  have "show_counts ?k 0 ?cs = Inr (take ?k ?cs)" using show_counts_all [of 0 ?k ?cs] assms(2) by simp
  moreover have "take ?k ?cs = map (votes (poll_id req) ms) [0..<?k]"
    using assms(2) unfolding cs by (simp add: take_map min_def del: upt_rec_numeral)
  moreover have "poll_loop (poll_id req) (map Got ms @ Timed_out # es) (replicate 5 0) = Inr (Counts ?cs)"
    using poll_loop_counts [of "replicate 5 0" 5 "poll_id req" ms es] ok by simp
  moreover have "sum_list (map (votes (poll_id req) ms) [0..<?k]) = int (length ms)"
    using sum_votes [of ms "poll_id req" ?k] ans assms(1) by (simp add: interv_sum_list_conv_sum_set_nat atLeast0LessThan)
  ultimately show ?thesis by (simp add: handlePollCommand_def Let_def del: upt_rec_numeral)
qed

theorem poll_counts_every_answer_witness:
  "\<exists>cs. handlePollCommand \<lparr>option_cnt = 2, que = ''os?'', poll_options = [''a'', ''b''], poll_id = 7, reply_port = 0\<rparr>
       (Some 4000) True [Got (Poll_reply 1 7), Timed_out] =
       Inr (Poll_sent (Poll_request \<lparr>option_cnt = 2, que = ''os?'', poll_options = [''a'', ''b''], poll_id = 7, reply_port = 4000\<rparr>) (Some cs)) \<and>
     length cs = 2 \<and> sum_list cs = 1"
proof -
  have "answer_poll \<lparr>option_cnt = 2, que = ''os?'', poll_options = [''a'', ''b''], poll_id = 7, reply_port = 4000\<rparr> [''9'', ''2''] True =
      Inr (Some (4000, Poll_reply 1 7))"
    by code_simp
  then show ?thesis
    using poll_counts_every_answer [of "\<lparr>option_cnt = 2, que = ''os?'', poll_options = [''a'', ''b''], poll_id = 7, reply_port = 0\<rparr>"
        "[Poll_reply 1 7]" 4000 "[]"]
    by auto
qed

end
