(* ===== verification/Group_File.thy ===== *)
theory Group_File
  imports Group_Msg
begin

text \<open>
  Files in the group chat: the list of own files, the transfer of a file between two chats, and the lists of
  files that are multicast every minute (\<open>assignment-2/q3/utils.c\<close> from \<open>requestFileReqHandler\<close> to
  \<open>getFileList\<close>, and \<open>sigAlrmHandler\<close> and the receiving code of \<open>group_comm.c\<close>).
\<close>

section \<open>The list of own files\<close>

abbreviation MAX_FILE_ALLOWED :: nat where "MAX_FILE_ALLOWED \<equiv> 30"
abbreviation MAX_GROUPS :: nat where "MAX_GROUPS \<equiv> 20"
abbreviation FILE_CHUNK_LEN :: nat where "FILE_CHUNK_LEN \<equiv> 500"

text \<open>The first \<open>file_count\<close> elements of \<open>my_files\<close>; storing one more.\<close>

definition store_file :: "string \<Rightarrow> string list \<Rightarrow> string list res" where
  "store_file name files =
     (if MAX_FILE_ALLOWED \<le> length files then Inl Out_of_bounds
      else rbind (strcpy_to FILE_NAME_LEN name) (\<lambda>name. Inr (files @ [name])))"

definition add_entry :: "string \<times> bool \<Rightarrow> string list \<Rightarrow> string list res" where
  "add_entry e files = (if snd e then store_file (fst e) files else Inr files)"

text \<open>\<open>dir\<close>: the entries of the directory with whether they are regular files; \<open>None\<close> when it cannot be made or opened.\<close>

definition getFileList :: "(string \<times> bool) list option \<Rightarrow> (int \<times> string list) res" where
  "getFileList dir =
     (case dir of
        None \<Rightarrow> Inr (-1, [])
      | Some entries \<Rightarrow>
rbind (rfold add_entry entries []) (\<lambda>files. Inr (0, files)))"

section \<open>Sending a file\<close>

text \<open>\<open>strcpy\<close> into \<open>data\<close>: what stood behind the terminating NUL stays.\<close>

definition data_copy :: "string \<Rightarrow> string \<Rightarrow> string" where
  "data_copy s data = s @ NUL # drop (length s + 1) data"

text \<open>
  \<open>reads\<close> are the results of \<open>read\<close> on the file: \<open>None\<close> for an error, \<open>Some []\<close> at the end. \<open>k\<close> is how many
  \<open>send\<close> calls succeed. \<open>is_last\<close> and \<open>data\<close> are the local \<open>reply\<close>, which is not initialised. \<open>buff\<close> is
  cleared before each \<open>read\<close>, so it ends with a NUL unless all its 500 characters were read.
\<close>

fun send_file_loop :: "string option list \<Rightarrow> nat \<Rightarrow> bool \<Rightarrow> string \<Rightarrow> (int \<times> message list) res" where
  "send_file_loop [] k is_last data = Inl Blocked"
| "send_file_loop (nread # reads) k is_last data =
     rbind
       (case nread of
          None \<Rightarrow> Inr (is_last, data_copy [] data, -1)
        | Some buff \<Rightarrow>
            if buff = [] then Inr (True, data_copy [] data, 0)
            else if FILE_CHUNK_LEN \<le> length buff \<and> nul_free buff then Inl Out_of_bounds
            else Inr (is_last, data_copy (cstr buff) data, int (length buff)))
       (\<lambda>(is_last, data, len).
          case k of
            0 \<Rightarrow> Inr (-1, [])
          | Suc k' \<Rightarrow>
              if nread = Some [] then Inr (0, [File_reply is_last data len])
              else
                rbind (send_file_loop reads k' is_last data) (\<lambda>(r, ms).
                Inr (r, File_reply is_last data len # ms)))"

text \<open>
  \<open>file\<close> holds the results of \<open>read\<close> when \<open>open\<close> succeeds; \<open>sock\<close> is whether the socket is made and \<open>conn\<close>
  whether the connection is.
\<close>

definition requestFileReqHandler ::
  "string \<Rightarrow> string list \<Rightarrow> string option list option \<Rightarrow> bool \<Rightarrow> bool \<Rightarrow> nat \<Rightarrow> bool \<Rightarrow> string \<Rightarrow> (int \<times> message list) res" where
  "requestFileReqHandler file_name my_files file sock conn k is_last data =
     (if file_name \<notin> set my_files then Inr (0, [])
      else
        rbind (strcpy_to 100 (''files/'' @ file_name)) (\<lambda>_.
        case file of
          None \<Rightarrow> Inr (-1, [])
        | Some reads \<Rightarrow>
            if \<not> sock then Inr (-1, [])
            else if \<not> conn then Inr (0, [])
            else send_file_loop reads k is_last data))"

section \<open>Requesting a file\<close>

text \<open>What \<open>read\<close> on the connection gives: a message, an error, or nothing because the sender has closed.\<close>

datatype file_event = Msg_read message | Read_error | Conn_closed

text \<open>
  The loop of the child that receives the file, on the contents written so far. A \<open>read\<close> that gives nothing
  leaves \<open>res\<close> as it was. \<open>None\<close> when the child gives up; \<open>write\<close> of a negative length fails.
\<close>

fun recv_file_loop :: "file_event list \<Rightarrow> message \<Rightarrow> string \<Rightarrow> string option res" where
  "recv_file_loop [] res out = Inl Blocked"
| "recv_file_loop (e # es) res out =
     (if e = Read_error then Inr None
      else
        let res = (case e of Msg_read m \<Rightarrow> m | _ \<Rightarrow> res) in
        case res of
          File_reply is_last data len \<Rightarrow>
            if len < 0 then Inr None
            else if length data < nat len then Inl Out_of_bounds
            else
              let out = out @ take (nat len) data in
              if is_last then Inr (Some out) else recv_file_loop es res out
        | _ \<Rightarrow> Inr None)"

text \<open>
  The child: \<open>nready\<close> is the result of \<open>select\<close> with its timeout, \<open>opened\<close> whether the file can be opened, \<open>old\<close> its
  contents before: the file is not truncated. \<open>Inr None\<close> is a failing exit.
\<close>

definition receive_file ::
  "string \<Rightarrow> int \<Rightarrow> bool \<Rightarrow> string \<Rightarrow> file_event list \<Rightarrow> message \<Rightarrow> string option res" where
  "receive_file file_name nready opened old es res =
     (if nready \<le> 0 then Inr None
      else
        rbind (strcpy_to 100 (''files/'' @ file_name)) (\<lambda>_.
        if \<not> opened then Inr None
        else
          rbind (recv_file_loop es res []) (\<lambda>r.
          Inr (map_option (\<lambda>out. out @ drop (length out) old) r))))"

text \<open>The groups from \<open>p\<close> on, in the order of the next pointers.\<close>

fun groups_from :: "nat \<Rightarrow> chat \<Rightarrow> nat option \<Rightarrow> mc_group list res" where
  "groups_from k st None = Inr []"
| "groups_from 0 st (Some a) = Inl Blocked"
| "groups_from (Suc k) st (Some a) =
     rbind (grp_at st a) (\<lambda>g. rbind (groups_from k st (gnext g)) (\<lambda>gs. Inr (g # gs)))"

text \<open>
  \<open>sock\<close> is the port of the listening socket, \<open>None\<close> when one of its calls fails; \<open>child\<close> is whether the child
  exits successfully. The result is the code returned, the messages sent to the groups and the own files.
\<close>

definition requestFileCmdHandler ::
  "string \<Rightarrow> int option \<Rightarrow> bool \<Rightarrow> string list \<Rightarrow> chat \<Rightarrow> (int \<times> (group_line \<times> message) list \<times> string list) res" where
  "requestFileCmdHandler file_name sock child my_files st =
     (if file_name \<in> set my_files then Inr (-1, [], my_files)
      else if length my_files = MAX_FILE_ALLOWED then Inr (-4, [], my_files)
      else
        case sock of
          None \<Rightarrow> Inr (-2, [], my_files)
        | Some port \<Rightarrow>
            rbind (strcpy_to FILE_NAME_LEN file_name) (\<lambda>_.
            rbind (groups_from (gfresh st) st (ghead st)) (\<lambda>gs.
            let sent = map (\<lambda>g. (gview g, File_req file_name port)) gs in
            if child then rbind (store_file file_name my_files) (\<lambda>my_files. Inr (0, sent, my_files))
            else Inr (-2, sent, my_files))))"

section \<open>Lists of files\<close>

text \<open>
  \<open>sigAlrmHandler\<close>, on junk for the elements of the arrays that are not written. \<open>ok\<close> is whether \<open>cleanup\<close>
  can leave the groups.
\<close>

definition sigAlrmHandler ::
  "bool \<Rightarrow> string list \<Rightarrow> string list \<Rightarrow> string list \<Rightarrow> chat \<Rightarrow> (group_line \<times> message) list res" where
  "sigAlrmHandler ok junk_files junk_groups my_files st =
     (if my_files = [] then Inr []
      else
        rbind (groups_from (gfresh st) st (ghead st)) (\<lambda>gs.
        if MAX_GROUPS < length gs
        then rbind (cleanup_groups ok st) (\<lambda>_. Inl (Exit_failure ''max groups exceeded''))
        else
          let m = File_list_multicast
                \<lparr>fl_files = my_files @ drop (length my_files) junk_files,
                 fl_groups = map gname gs @ drop (length gs) junk_groups,
                 fl_file_count = int (length my_files), fl_grp_count = int (length gs)\<rparr>
          in Inr (map (\<lambda>g. (gview g, m)) gs)))"

text \<open>
  The search of lines 461 to 469: \<open>name\<close> among the first \<open>grp_count\<close> groups of the message as it was received.
\<close>

fun in_groups :: "nat \<Rightarrow> nat \<Rightarrow> string list \<Rightarrow> string \<Rightarrow> bool res" where
  "in_groups 0 i groups name = Inr False"
| "in_groups (Suc n) i groups name =
     rbind (elem_at groups (int i)) (\<lambda>g. if g = name then Inr True else in_groups n (i + 1) groups name)"

text \<open>
  Passing the message on, lines 456 to 484: \<open>fl\<close> is the copy of the message, which never changes, and \<open>msg\<close>
  the message that is changed and sent.
\<close>

fun forward_loop :: "file_list \<Rightarrow> mc_group list \<Rightarrow> file_list \<Rightarrow> ((group_line \<times> message) list \<times> file_list) res" where
  "forward_loop fl [] msg = Inr ([], msg)"
| "forward_loop fl (g # gs) msg =
     rbind (in_groups (nat (fl_grp_count fl)) 0 (fl_groups fl) (gname g)) (\<lambda>found_group.
     if found_group then forward_loop fl gs msg
     else if int MAX_GROUPS \<le> fl_grp_count fl then Inr ([], msg)
     else if fl_grp_count fl < 0 then Inl Out_of_bounds
     else
       rbind (strcpy_to GROUP_NAME_LEN (gname g)) (\<lambda>n.
       let msg = msg\<lparr>fl_groups := (fl_groups msg)[nat (fl_grp_count fl) := n], fl_grp_count := fl_grp_count msg + 1\<rparr> in
       rbind (forward_loop fl gs msg) (\<lambda>(sent, msg'). Inr ((gview g, File_list_multicast msg) # sent, msg'))))"

text \<open>
  A received list, lines 435 to 488, from file \<open>i\<close> on with \<open>n\<close> rounds left. \<open>env\<close> gives the socket and the
  success of the child for each file requested.
\<close>

fun file_list_loop ::
  "(nat \<Rightarrow> int option \<times> bool) \<Rightarrow> file_list \<Rightarrow> chat \<Rightarrow> nat \<Rightarrow> nat \<Rightarrow> string list \<Rightarrow> file_list \<Rightarrow>
   ((group_line \<times> message) list \<times> string list) res" where
  "file_list_loop env fl st 0 i my_files msg = Inr ([], my_files)"
| "file_list_loop env fl st (Suc n) i my_files msg =
     rbind (elem_at (fl_files fl) (int i)) (\<lambda>f.
     rbind
       (if f \<in> set my_files then Inr ([], my_files)
        else
          rbind (requestFileCmdHandler f (fst (env i)) (snd (env i)) my_files st)
            (\<lambda>(_, reqs, my_files). Inr (reqs, my_files)))
       (\<lambda>(reqs, my_files).
     rbind (groups_from (gfresh st) st (ghead st)) (\<lambda>gs.
     rbind (forward_loop fl gs msg) (\<lambda>(sent, msg).
     rbind (file_list_loop env fl st n (i + 1) my_files msg) (\<lambda>(rest, my_files).
     Inr (reqs @ sent @ rest, my_files))))))"

definition receive_file_list ::
  "(nat \<Rightarrow> int option \<times> bool) \<Rightarrow> file_list \<Rightarrow> string list \<Rightarrow> chat \<Rightarrow> ((group_line \<times> message) list \<times> string list) res" where
  "receive_file_list env fl my_files st = file_list_loop env fl st (nat (fl_file_count fl)) 0 my_files fl"

section \<open>Lemmas on the groups\<close>

abbreviation groups_in :: "chat \<Rightarrow> nat list \<Rightarrow> mc_group list" where
  "groups_in st as \<equiv> map (\<lambda>a. the (gheap st a)) as"

lemma groups_from_list:
  "gseg (gheap st) q as None \<Longrightarrow> length as \<le> k \<Longrightarrow> groups_from k st (first_of as None) = Inr (groups_in st as)"
proof (induction as arbitrary: k q)
  case (Cons a as)
  then obtain g k' where g: "gheap st a = Some g" "gnext g = first_of as None" "k = Suc k'"
    by (cases k) auto
  with Cons show ?case by (auto simp: grp_at_def)
qed simp

lemma groups_of_chat: "chat_ok st as stale \<Longrightarrow> groups_from (gfresh st) st (ghead st) = Inr (groups_in st as)"
  using groups_from_list [of st None as "gfresh st"] chat_ok_length [of st as stale] by (simp add: chat_ok_def)

lemma gview_groups: "map gview (groups_in st as) = lines_of st as" "map gname (groups_in st as) = map fst (lines_of st as)"
  by (simp_all add: lines_of_def gview_def)

section \<open>Lemmas on the transfer of a file\<close>

text \<open>The results of \<open>read\<close> on a regular file: chunks of 500 characters and the end.\<close>

function chunks :: "string \<Rightarrow> string option list" where
  "chunks s = (if s = [] then [Some []] else Some (take FILE_CHUNK_LEN s) # chunks (drop FILE_CHUNK_LEN s))"
  by pat_completeness auto
termination by (relation "measure length") auto

declare chunks.simps [simp del]

lemma chunks_short:
  "length s < FILE_CHUNK_LEN \<Longrightarrow> chunks s = (if s = [] then [Some []] else [Some s, Some []])"
  by (simp add: chunks.simps [of s] chunks.simps [of "[]"])

lemma length_data_copy: "length s < length data \<Longrightarrow> length (data_copy s data) = length data"
  by (simp add: data_copy_def)

lemma take_data_copy: "take (length s) (data_copy s data) = s"
  by (simp add: data_copy_def)

lemma send_short:
  assumes "length s < FILE_CHUNK_LEN" "2 \<le> k" "s \<noteq> []"
  shows "send_file_loop (chunks s) k junk data =
     Inr (0, [File_reply junk (data_copy (cstr s) data) (int (length s)),
              File_reply True (data_copy [] (data_copy (cstr s) data)) 0])"
proof -
  obtain k' where "k = Suc (Suc k')" using assms(2) by (metis add_2_eq_Suc le_Suc_ex)
  with assms show ?thesis by (simp add: chunks_short)
qed

lemma send_empty: "0 < k \<Longrightarrow> send_file_loop (chunks []) k junk data = Inr (0, [File_reply True (data_copy [] data) 0])"
  by (cases k) (simp_all add: chunks_short)

lemma send_long:
  "FILE_CHUNK_LEN \<le> length s \<Longrightarrow> nul_free (take FILE_CHUNK_LEN s) \<Longrightarrow>
   send_file_loop (chunks s) k junk data = Inl Out_of_bounds"
  by (auto simp: chunks.simps [of s])

lemma recv_short:
  assumes "length data = FILE_CHUNK_LEN" "length s < FILE_CHUNK_LEN"
  shows "recv_file_loop
      (map Msg_read [File_reply junk (data_copy (cstr s) data) (int (length s)),
         File_reply True (data_copy [] (data_copy (cstr s) data)) 0]) res [] =
     Inr (Some (take (length s) (data_copy (cstr s) data)))"
proof -
  have "length (data_copy (cstr s) data) = FILE_CHUNK_LEN"
    using length_data_copy [of "cstr s" data] length_cstr_le [of s] assms by simp
  moreover from this have "length (data_copy [] (data_copy (cstr s) data)) = FILE_CHUNK_LEN"
    by (subst length_data_copy) simp_all
  ultimately show ?thesis using assms(2) by (simp add: Let_def)
qed

lemma store_file_Inr:
  "store_file f files = Inr files' \<longleftrightarrow> length files < 30 \<and> length f < 20 \<and> files' = files @ [f]"
  by (auto simp: store_file_def strcpy_to_def)

lemma add_entries:
  "length files \<le> 30 \<Longrightarrow>
   rfold add_entry entries files = Inr files' \<longleftrightarrow>
     files' = files @ map fst (filter snd entries) \<and> length files' \<le> 30 \<and> (\<forall>f \<in> set (map fst (filter snd entries)). length f < 20)"
proof (induction entries arbitrary: files)
  case (Cons e es)
  show ?case
  proof (cases "snd e")
    case False
    with Cons show ?thesis by (simp add: add_entry_def)
  next
    case True
    show ?thesis
    proof (cases "length files < 30 \<and> length (fst e) < 20")
      case True
      with \<open>snd e\<close> Cons.IH [of "files @ [fst e]"] show ?thesis
        by (auto simp: add_entry_def store_file_def strcpy_to_def)
    next
      case False
      with \<open>snd e\<close> Cons.prems show ?thesis
        by (auto simp: add_entry_def rbind_Inr_iff store_file_Inr)
    qed
  qed
qed auto

section \<open>Lemmas on lists of files\<close>

lemma in_groups_known:
  "i + n \<le> length groups \<Longrightarrow> in_groups n i groups name = Inr (name \<in> set (take n (drop i groups)))"
proof (induction n arbitrary: i)
  case (Suc n)
  then have "drop i groups = groups ! i # drop (Suc i) groups" by (simp add: Cons_nth_drop_Suc)
  with Suc show ?case by simp
qed simp

lemma in_groups_over:
  "i \<le> length groups \<Longrightarrow> length groups < i + n \<Longrightarrow> name \<notin> set (drop i groups) \<Longrightarrow> in_groups n i groups name = Inl Out_of_bounds"
proof (induction n arbitrary: i)
  case (Suc n)
  show ?case
  proof (cases "i = length groups")
    case True
    then show ?thesis by (simp add: elem_at_def)
  next
    case False
    with Suc.prems have "drop i groups = groups ! i # drop (Suc i) groups" by (simp add: Cons_nth_drop_Suc)
    with Suc.prems False Suc.IH [of "i + 1"] show ?thesis by auto
  qed
qed simp

text \<open>The message with \<open>n\<close> as its new group after \<open>j\<close> messages have been sent.\<close>

definition stamped :: "file_list \<Rightarrow> nat \<Rightarrow> string \<Rightarrow> file_list" where
  "stamped fl j n = fl\<lparr>fl_groups := (fl_groups fl)[nat (fl_grp_count fl) := n], fl_grp_count := fl_grp_count fl + int j\<rparr>"

definition fresh_lines :: "file_list \<Rightarrow> group_line list \<Rightarrow> group_line list" where
  "fresh_lines fl ls = filter (\<lambda>l. fst l \<notin> set (take (nat (fl_grp_count fl)) (fl_groups fl))) ls"

definition sent_lists :: "file_list \<Rightarrow> nat \<Rightarrow> group_line list \<Rightarrow> (group_line \<times> message) list" where
  "sent_lists fl j ls = map2 (\<lambda>i l. (l, File_list_multicast (stamped fl (Suc i) (fst l)))) [j..<j + length ls] ls"

lemma sent_lists_simps [simp]:
  "sent_lists fl j [] = []"
  "sent_lists fl j (l # ls) = (l, File_list_multicast (stamped fl (Suc j) (fst l))) # sent_lists fl (Suc j) ls"
  by (simp_all add: sent_lists_def upt_conv_Cons del: upt_Suc)

lemma sent_lists_append: "sent_lists fl j (xs @ ys) = sent_lists fl j xs @ sent_lists fl (j + length xs) ys"
  by (induction xs arbitrary: j) simp_all

definition forwarding :: "file_list \<Rightarrow> nat \<Rightarrow> file_list \<Rightarrow> bool" where
  "forwarding fl j msg \<longleftrightarrow> j = 0 \<and> msg = fl \<or> (\<exists>n. msg = stamped fl j n)"

lemma forwarding_step:
  "forwarding fl j msg \<Longrightarrow>
   msg\<lparr>fl_groups := (fl_groups msg)[nat (fl_grp_count fl) := n], fl_grp_count := fl_grp_count msg + 1\<rparr> = stamped fl (Suc j) n"
  by (auto simp: forwarding_def stamped_def)

lemma forward_all:
  assumes g: "0 \<le> fl_grp_count fl" "fl_grp_count fl < 20" "length (fl_groups fl) = 20"
  shows "forwarding fl j msg \<Longrightarrow> \<forall>x \<in> set gs. length (gname x) < 20 \<Longrightarrow>
     \<exists>msg'. forward_loop fl gs msg = Inr (sent_lists fl j (fresh_lines fl (map gview gs)), msg') \<and>
       forwarding fl (j + length (fresh_lines fl (map gview gs))) msg'"
proof (induction gs arbitrary: j msg)
  case Nil
  then show ?case by (simp add: fresh_lines_def)
next
  case (Cons x gs)
  have known: "in_groups (nat (fl_grp_count fl)) 0 (fl_groups fl) (gname x) =
      Inr (gname x \<in> set (take (nat (fl_grp_count fl)) (fl_groups fl)))"
    using in_groups_known [of 0 "nat (fl_grp_count fl)" "fl_groups fl"] g by simp
  show ?case
  proof (cases "gname x \<in> set (take (nat (fl_grp_count fl)) (fl_groups fl))")
    case True
    with known Cons.IH [OF Cons.prems(1)] Cons.prems(2) show ?thesis by (simp add: fresh_lines_def gview_def)
  next
    case False
    have f: "fresh_lines fl (map gview (x # gs)) = gview x # fresh_lines fl (map gview gs)"
      using False by (simp add: fresh_lines_def gview_def)
    have "forwarding fl (Suc j) (stamped fl (Suc j) (gname x))" by (auto simp: forwarding_def)
    from Cons.IH [OF this] Cons.prems(2) obtain msg' where
      "forward_loop fl gs (stamped fl (Suc j) (gname x)) =
         Inr (sent_lists fl (Suc j) (fresh_lines fl (map gview gs)), msg')"
      "forwarding fl (Suc j + length (fresh_lines fl (map gview gs))) msg'" by auto
    with known False g Cons.prems(2) show ?thesis
      unfolding f by (simp add: forwarding_step [OF Cons.prems(1)] strcpy_to_def Let_def gview_def)
  qed
qed

lemma file_list_loop_known:
  assumes g: "0 \<le> fl_grp_count fl" "fl_grp_count fl < 20" "length (fl_groups fl) = 20"
    and ok: "chat_ok st as stale" "\<forall>l \<in> set (lines_of st as). length (fst l) < 20"
  shows "forwarding fl j msg \<Longrightarrow> i + n \<le> length (fl_files fl) \<Longrightarrow> set (take n (drop i (fl_files fl))) \<subseteq> set my_files \<Longrightarrow>
     file_list_loop env fl st n i my_files msg =
       Inr (sent_lists fl j (concat (replicate n (fresh_lines fl (lines_of st as)))), my_files)"
proof (induction n arbitrary: i j msg)
  case (Suc n)
  have "\<forall>x \<in> set (groups_in st as). length (gname x) < 20" using ok(2) by (simp add: lines_of_def gview_def)
  from forward_all [OF g Suc.prems(1) this] obtain msg' where
    f: "forward_loop fl (groups_in st as) msg = Inr (sent_lists fl j (fresh_lines fl (lines_of st as)), msg')"
      "forwarding fl (j + length (fresh_lines fl (lines_of st as))) msg'"
    unfolding gview_groups by blast
  have entry: "elem_at (fl_files fl) (int i) = Inr (fl_files fl ! i)" "fl_files fl ! i \<in> set my_files"
      "set (take n (drop (i + 1) (fl_files fl))) \<subseteq> set my_files"
    using Suc.prems(2,3) by (simp_all add: Cons_nth_drop_Suc [symmetric])
  show ?case
    using Suc.IH [OF f(2), of "i + 1"] Suc.prems(2) entry f(1) groups_of_chat [OF ok(1)]
    by (simp add: sent_lists_append)
qed simp

lemma in_groups_found:
  "name \<in> set (drop i groups) \<Longrightarrow> length groups \<le> i + n \<Longrightarrow> in_groups n i groups name = Inr True"
proof (induction n arbitrary: i)
  case (Suc n)
  then have "drop i groups = groups ! i # drop (Suc i) groups" "i < length groups"
    using Cons_nth_drop_Suc [of i groups] by (cases "i < length groups"; simp)+
  with Suc show ?case by auto
qed simp

lemma forward_over:
  assumes "20 < fl_grp_count fl" "length (fl_groups fl) = 20"
  shows "\<exists>x \<in> set gs. gname x \<notin> set (fl_groups fl) \<Longrightarrow> forward_loop fl gs msg = Inl Out_of_bounds"
proof (induction gs)
  case (Cons x gs)
  show ?case
  proof (cases "gname x \<in> set (fl_groups fl)")
    case True
    with Cons in_groups_found [of "gname x" 0 "fl_groups fl" "nat (fl_grp_count fl)"] assms show ?thesis by simp
  next
    case False
    with in_groups_over [of 0 "fl_groups fl" "nat (fl_grp_count fl)" "gname x"] assms show ?thesis by simp
  qed
qed simp

lemma receive_over:
  assumes "20 < fl_grp_count fl" "length (fl_groups fl) = 20" "0 < fl_file_count fl" "fl_files fl \<noteq> []"
    and "hd (fl_files fl) \<in> set my_files" "chat_ok st as stale" "\<exists>l \<in> set (lines_of st as). fst l \<notin> set (fl_groups fl)"
  shows "receive_file_list env fl my_files st = Inl Out_of_bounds"
proof -
  have "\<exists>x \<in> set (groups_in st as). gname x \<notin> set (fl_groups fl)"
    using assms(7) by (auto simp: lines_of_def gview_def)
  from forward_over [OF assms(1,2) this] have "forward_loop fl (groups_in st as) fl = Inl Out_of_bounds" .
  moreover obtain n where "nat (fl_file_count fl) = Suc n" using assms(3) by (cases "nat (fl_file_count fl)") auto
  moreover have "elem_at (fl_files fl) 0 = Inr (hd (fl_files fl))" using assms(4) by (simp add: elem_at_def hd_conv_nth)
  ultimately show ?thesis using assms(5) groups_of_chat [OF assms(6)] by (simp add: receive_file_list_def)
qed

text \<open>The message of \<open>sigAlrmHandler\<close>.\<close>

definition alarm_list :: "string list \<Rightarrow> string list \<Rightarrow> string list \<Rightarrow> group_line list \<Rightarrow> file_list" where
  "alarm_list junk_files junk_groups my_files ls =
     \<lparr>fl_files = my_files @ drop (length my_files) junk_files, fl_groups = map fst ls @ drop (length ls) junk_groups,
      fl_file_count = int (length my_files), fl_grp_count = int (length ls)\<rparr>"

lemma alarm_sends:
  assumes "chat_ok st as stale" "my_files \<noteq> []" "length as \<le> 20"
  shows "sigAlrmHandler ok jf jg my_files st =
     Inr (map (\<lambda>l. (l, File_list_multicast (alarm_list jf jg my_files (lines_of st as)))) (lines_of st as))"
proof -
  have "map (\<lambda>g. (gview g, m)) (groups_in st as) = map (\<lambda>l. (l, m)) (lines_of st as)" for m :: message
    unfolding gview_groups(1) [symmetric] by simp
  moreover have "length (lines_of st as) = length as" by (simp add: lines_of_def)
  ultimately show ?thesis
    using assms groups_of_chat [OF assms(1)] gview_groups(2) [of st as]
    by (simp add: sigAlrmHandler_def alarm_list_def Let_def del: map_map)
qed

text \<open>A chat with two groups.\<close>

definition two_groups :: "string \<Rightarrow> string \<Rightarrow> chat" where
  "two_groups m n =
     \<lparr>gheap = [0 \<mapsto> \<lparr>gname = m, gip = m, gport = 9000, gnext = Some 1, gprev = None, send_fd = 4, recv_fd = 5\<rparr>,
               1 \<mapsto> \<lparr>gname = n, gip = n, gport = 9000, gnext = None, gprev = Some 0, send_fd = 6, recv_fd = 7\<rparr>],
      gfresh = 2, ghead = Some 0, gtail = Some 1, gcount = 2\<rparr>"

lemma two_groups_rel: "m \<noteq> n \<Longrightarrow> chat_rel (two_groups m n) ([(m, m, 9000), (n, n, 9000)], False)"
  unfolding chat_rel_def two_groups_def by (auto simp: chat_ok_def gview_def intro!: exI [of _ "[0, 1]"])

section \<open>Properties\<close>

text \<open>
  C25: a file without NUL of less than 500 characters arrives unchanged. Whatever the uninitialised reply of
  the sender holds, and even when its junk \<open>is_last\<close> makes the receiver stop after the first message, the
  child that requested the file has written exactly the contents of the file.
\<close>

theorem text_file_roundtrip:
  assumes "nul_free content" "length content < 500" "name \<in> set my_files" "length name < 20"
    and "length data = 500" "2 \<le> k"
  shows "\<exists>ms. requestFileReqHandler name my_files (Some (chunks content)) True True k junk data = Inr (0, ms) \<and>
     receive_file name 1 True [] (map Msg_read ms) res = Inr (Some content)"
proof (cases "content = []")
  case True
  then show ?thesis
    using assms send_empty [of k junk data]
    by (simp add: requestFileReqHandler_def receive_file_def strcpy_to_def)
next
  case False
  let ?ms = "[File_reply junk (data_copy (cstr content) data) (int (length content)),
      File_reply True (data_copy [] (data_copy (cstr content) data)) 0]"
  have "requestFileReqHandler name my_files (Some (chunks content)) True True k junk data = Inr (0, ?ms)"
    using send_short [OF assms(2,6) False] assms(3,4) by (simp add: requestFileReqHandler_def strcpy_to_def)
  moreover have "recv_file_loop (map Msg_read ?ms) res [] = Inr (Some content)"
    using recv_short [OF assms(5,2)] take_data_copy [of content data] assms(1) by simp
  then have "receive_file name 1 True [] (map Msg_read ?ms) res = Inr (Some content)"
    using assms(4) by (simp only: receive_file_def) (simp add: strcpy_to_def)
  ultimately show ?thesis by blast
qed

theorem text_file_roundtrip_witness:
  "\<exists>ms. requestFileReqHandler ''a.txt'' [''a.txt''] (Some (chunks ''hello'')) True True 2 True (replicate 500 CHR ''x'') = Inr (0, ms) \<and>
     receive_file ''a.txt'' 1 True [] (map Msg_read ms) (Simple_msg []) = Inr (Some ''hello'')"
  by (rule text_file_roundtrip) simp_all

text \<open>
  A file with 500 or more characters whose first 500 hold no NUL is never sent: \<open>buff\<close> then has no
  terminator and \<open>strcpy\<close> runs out of it, in the main process of the chat that owns the file.
\<close>

theorem long_text_file_faults:
  assumes "500 \<le> length content" "nul_free (take 500 content)" "name \<in> set my_files" "length name < 20"
  shows "requestFileReqHandler name my_files (Some (chunks content)) True True k junk data = Inl Out_of_bounds"
  using assms send_long [of content k junk data] by (simp add: requestFileReqHandler_def strcpy_to_def)

theorem long_text_file_faults_witness:
  "requestFileReqHandler ''a.txt'' [''a.txt''] (Some (chunks (replicate 500 CHR ''x''))) True True 2 False [] = Inl Out_of_bounds"
  by (rule long_text_file_faults) simp_all

text \<open>
  Of a file with a NUL only the part before it arrives. The length sent is that of the whole file, so the
  rest of the file written is what the stack of the sender held there.
\<close>

theorem binary_file_leaks_stack:
  assumes "nul_free xs" "length (xs @ NUL # ys) < 500" "name \<in> set my_files" "length name < 20"
    and "length data = 500" "2 \<le> k"
  shows "\<exists>ms. requestFileReqHandler name my_files (Some (chunks (xs @ NUL # ys))) True True k junk data = Inr (0, ms) \<and>
     receive_file name 1 True [] (map Msg_read ms) res =
       Inr (Some (xs @ NUL # take (length ys) (drop (length xs + 1) data)))"
proof -
  let ?s = "xs @ NUL # ys"
  let ?ms = "[File_reply junk (data_copy (cstr ?s) data) (int (length ?s)),
      File_reply True (data_copy [] (data_copy (cstr ?s) data)) 0]"
  have "requestFileReqHandler name my_files (Some (chunks ?s)) True True k junk data = Inr (0, ?ms)"
    using send_short [OF assms(2,6), of junk data] assms(3,4) by (simp add: requestFileReqHandler_def strcpy_to_def)
  moreover have "recv_file_loop (map Msg_read ?ms) res [] =
      Inr (Some (xs @ NUL # take (length ys) (drop (length xs + 1) data)))"
    using recv_short [OF assms(5,2), of junk res] assms(1) by (simp add: data_copy_def)
  then have "receive_file name 1 True [] (map Msg_read ?ms) res =
      Inr (Some (xs @ NUL # take (length ys) (drop (length xs + 1) data)))"
    using assms(4) by (simp only: receive_file_def) (simp add: strcpy_to_def)
  ultimately show ?thesis by blast
qed

theorem binary_file_leaks_stack_witness:
  "\<exists>ms. requestFileReqHandler ''a'' [''a''] (Some (chunks (''x'' @ NUL # ''yz''))) True True 2 False (replicate 500 CHR ''p'') = Inr (0, ms) \<and>
     receive_file ''a'' 1 True [] (map Msg_read ms) (Simple_msg []) =
       Inr (Some (''x'' @ NUL # take (length ''yz'') (drop (length ''x'' + 1) (replicate 500 CHR ''p''))))"
  by (rule binary_file_leaks_stack) simp_all

text \<open>
  The listing of the own directory succeeds exactly when it has at most 30 regular files and each name
  fits its array; then the own files are those files, in the order of the directory. In every other case a
  write leaves the array.
\<close>

theorem directory_listing:
  "getFileList (Some entries) = Inr (r, files) \<longleftrightarrow>
     r = 0 \<and> files = map fst (filter snd entries) \<and> length files \<le> 30 \<and> (\<forall>f \<in> set files. length f < 20)"
proof -
  have le: "length ([] :: string list) \<le> 30" by simp
  have "getFileList (Some entries) = Inr (r, files) \<longleftrightarrow> r = 0 \<and> rfold add_entry entries [] = Inr files"
    by (auto simp: getFileList_def rbind_Inr_iff)
  then show ?thesis unfolding add_entries [OF le] append_Nil by blast
qed

text \<open>
  A list of files is passed on once for every file in it, not once. With all files known already, a chat
  sends the message to each of its groups that is not in the message as many times as the message has
  files; the message claims one more group each time, while all names go to the same element of the array.
\<close>

theorem file_list_forwarded_per_file:
  assumes "chat_rel st (ls, stale)" "\<forall>l \<in> set ls. length (fst l) < 20"
    and "0 \<le> fl_grp_count fl" "fl_grp_count fl < 20" "length (fl_groups fl) = 20"
    and "fl_file_count fl = int n" "n \<le> length (fl_files fl)" "set (take n (fl_files fl)) \<subseteq> set my_files"
  shows "receive_file_list env fl my_files st = Inr (sent_lists fl 0 (concat (replicate n (fresh_lines fl ls))), my_files)"
proof -
  obtain as where as: "chat_ok st as stale" "ls = lines_of st as" using assms(1) by (auto simp: chat_rel_def)
  have "forwarding fl 0 fl" by (simp add: forwarding_def)
  from file_list_loop_known [OF assms(3-5) as(1) _ this, of 0 n my_files env] assms(2,6-8) as(2)
  show ?thesis by (simp add: receive_file_list_def)
qed

theorem file_list_forwarded_per_file_witness:
  "receive_file_list (\<lambda>_. (None, False)) \<lparr>fl_files = [''a'', ''b''], fl_groups = replicate 20 ''os'', fl_file_count = 2, fl_grp_count = 1\<rparr>
      [''a'', ''b''] (two_groups ''os'' ''net'') =
    Inr (sent_lists \<lparr>fl_files = [''a'', ''b''], fl_groups = replicate 20 ''os'', fl_file_count = 2, fl_grp_count = 1\<rparr> 0
      [(''net'', ''net'', 9000), (''net'', ''net'', 9000)], [''a'', ''b''])"
proof -
  have two: "replicate 2 [l] = [[l], [l]]" for l :: group_line by (simp add: numeral_2_eq_2)
  show ?thesis
    using file_list_forwarded_per_file [OF two_groups_rel [of "''os''" "''net''"], of "\<lparr>fl_files = [''a'', ''b''],
      fl_groups = replicate 20 ''os'', fl_file_count = 2, fl_grp_count = 1\<rparr>" 2 "[''a'', ''b'']" "\<lambda>_. (None, False)"]
    by (simp add: fresh_lines_def two)
qed

text \<open>
  C35: three chats and one tick of a clock. A chat with some files multicasts its list; a peer that has more
  groups passes it on, once for each file, until the message claims more than 20 groups; a third chat that
  gets the last of these messages and has joined a group the list does not name reads behind the array.
\<close>

theorem file_list_crashes_third_chat:
  assumes A: "chat_rel sta (lsa, sa)" "lsa \<noteq> []" "length lsa < 20" "files \<noteq> []" "length files \<le> 30"
      "length junk_files = 30" "length junk_groups = 20"
    and B: "chat_rel stb (lsb, sb)" "\<forall>l \<in> set lsb. length (fst l) < 20" "set files \<subseteq> set filesb"
      "new = filter (\<lambda>l. fst l \<notin> fst ` set lsa) lsb" "20 < length lsa + length files * length new"
    and C: "chat_rel stc (lsc, sc)" "set files \<subseteq> set filesc"
      "\<exists>l \<in> set lsc. fst l \<notin> fst ` set lsa \<union> fst ` set new \<union> set junk_groups"
  shows "\<exists>a l b sent sent'. sigAlrmHandler ok junk_files junk_groups files sta = Inr sent \<and>
     (\<forall>x \<in> set lsa. (x, File_list_multicast a) \<in> set sent) \<and>
     receive_file_list envb a filesb stb = Inr (sent', filesb) \<and> (l, File_list_multicast b) \<in> set sent' \<and>
     l \<in> set new \<and> receive_file_list envc b filesc stc = Inl Out_of_bounds"
proof -
  define a where "a = alarm_list junk_files junk_groups files lsa"
  have counts: "fl_grp_count a = int (length lsa)" "fl_file_count a = int (length files)" "length (fl_groups a) = 20"
      "take (length lsa) (fl_groups a) = map fst lsa" "take (length files) (fl_files a) = files" "fl_files a \<noteq> []"
      "hd (fl_files a) = hd files" "length (fl_files a) = 30"
    using A by (simp_all add: a_def alarm_list_def)
  have new: "fresh_lines a lsb = new" using B(4) counts by (simp add: fresh_lines_def)
  let ?n = "length files * length new"
  let ?all = "concat (replicate (length files) new)"
  have len: "length ?all = ?n" by (simp add: length_concat sum_list_replicate)
  have pos: "0 < ?n" using A(3) B(5) by (cases ?n) auto
  obtain asa where asa: "chat_ok sta asa sa" "lsa = lines_of sta asa" using A(1) by (auto simp: chat_rel_def)
  have "sigAlrmHandler ok junk_files junk_groups files sta = Inr (map (\<lambda>l. (l, File_list_multicast a)) lsa)"
    using alarm_sends [OF asa(1) A(4), of ok junk_files junk_groups] A(3) asa(2) by (simp add: a_def lines_of_def)
  moreover obtain asb where asb: "chat_ok stb asb sb" "lsb = lines_of stb asb" using B(1) by (auto simp: chat_rel_def)
  have "forwarding a 0 a" by (simp add: forwarding_def)
  from file_list_loop_known [OF _ _ counts(3) asb(1) _ this, of 0 "length files" filesb envb]
  have "receive_file_list envb a filesb stb = Inr (sent_lists a 0 ?all, filesb)"
    using counts A(3,5) B(2,3) asb(2) new by (simp add: receive_file_list_def)
  moreover define l where "l = last ?all"
  define b where "b = stamped a ?n (fst l)"
  have "?all \<noteq> []" using pos len by (metis length_0_conv less_irrefl)
  then have "?all = butlast ?all @ [l]" "l \<in> set ?all" unfolding l_def by (simp, rule last_in_set)
  then have "(l, File_list_multicast b) \<in> set (sent_lists a 0 ?all)" "l \<in> set new"
    using len pos sent_lists_append [of a 0 "butlast ?all" "[l]"] by (auto simp: b_def)
  moreover have "receive_file_list envc b filesc stc = Inl Out_of_bounds"
  proof -
    obtain asc where asc: "chat_ok stc asc sc" "lsc = lines_of stc asc" using C(1) by (auto simp: chat_rel_def)
    have "set (fl_groups a) \<subseteq> fst ` set lsa \<union> set junk_groups"
      by (auto simp: a_def alarm_list_def dest: in_set_dropD)
    then have "set (fl_groups b) \<subseteq> fst ` set lsa \<union> fst ` set new \<union> set junk_groups"
      using \<open>l \<in> set new\<close> by (auto simp: b_def stamped_def dest!: set_update_subset_insert [THEN subsetD])
    with C(3) asc(2) have "\<exists>l \<in> set (lines_of stc asc). fst l \<notin> set (fl_groups b)" by blast
    moreover have "hd (fl_files b) \<in> set filesc" using counts(7) A(4) C(2) by (auto simp: b_def stamped_def)
    moreover have "(20::int) < int (length lsa + ?n)" using B(5) by linarith
    then have "20 < fl_grp_count b" using counts(1) by (simp add: b_def stamped_def)
    moreover have "length (fl_groups b) = 20"
        "fl_file_count b = int (length files)" "fl_files b \<noteq> []"
      using counts by (simp_all add: b_def stamped_def)
    ultimately show ?thesis using A(4) asc(1) by (intro receive_over) simp_all
  qed
  ultimately show ?thesis by (intro exI conjI) auto
qed

theorem file_list_crashes_third_chat_witness:
  "\<exists>a l b sent sent'. sigAlrmHandler True (replicate 30 []) (replicate 20 []) (replicate 20 ''a'') (two_groups ''os'' ''net'') = Inr sent \<and>
     (\<forall>x \<in> {(''os'', ''os'', 9000), (''net'', ''net'', 9000)}. (x, File_list_multicast a) \<in> set sent) \<and>
     receive_file_list (\<lambda>_. (None, False)) a [''a''] (two_groups ''net'' ''db'') = Inr (sent', [''a'']) \<and>
     (l, File_list_multicast b) \<in> set sent' \<and> l = (''db'', ''db'', 9000) \<and>
     receive_file_list (\<lambda>_. (None, False)) b [''a''] (two_groups ''db'' ''web'') = Inl Out_of_bounds"
  using file_list_crashes_third_chat [OF two_groups_rel [of "''os''" "''net''"] _ _ _ _ _ _
      two_groups_rel [of "''net''" "''db''"] _ _ refl _ two_groups_rel [of "''db''" "''web''"],
      of "replicate 20 ''a''" "replicate 30 []" "replicate 20 []" "[''a'']" "[''a'']" True "\<lambda>_. (None, False)" "\<lambda>_. (None, False)"]
  by simp

end
