(* ===== verification/Group_Main.thy ===== *)
theory Group_Main
  imports Group_File
begin

text \<open>
  The main loop of the group chat, \<open>assignment-2/q3/group_comm.c\<close>: the commands of the user, the requests
  that are broadcast, the messages on the joined groups and the alarm, all on the list of groups and the
  list of own files. What the sockets deliver and which calls succeed are inputs of the steps.
\<close>

section \<open>State and inputs\<close>

record app =
  groups_st :: chat
  own_files :: "string list"

text \<open>What the system does while a command runs.\<close>

record net_env =
  e_alloc :: bool
  e_fds :: "(int \<times> int) option"
  e_ok :: bool
  e_sock :: "int option"
  e_sent :: bool
  e_events :: "net_event list"
  e_child :: bool
  e_pid :: int
  e_junk :: int

text \<open>What it does while a message from a group is handled.\<close>

record mc_env =
  m_lines :: "string list"
  m_sock :: bool
  m_file :: "string option list option"
  m_conn :: bool
  m_sends :: nat
  m_is_last :: bool
  m_data :: string
  m_requests :: "nat \<Rightarrow> int option \<times> bool"

datatype app_reply =
    Not_parsed
  | Groups_reply chat_reply
  | Not_found string
  | Found group_line
  | Sent_reply send_reply
  | Poll_result "poll_outcome option"
  | Own_files "string list"
  | File_result int "(group_line \<times> message) list"
  | Commands
  | Exited

section \<open>Commands\<close>

text \<open>The switch of lines 129 to 344.\<close>

fun exec_command :: "net_env \<Rightarrow> gcommand \<Rightarrow> app \<Rightarrow> (app_reply \<times> app) res" where
  "exec_command env (Create_group n addr port) s =
     rbind (create_group_cmd n addr port (e_alloc env) (e_fds env) (e_ok env) (groups_st s)) (\<lambda>(r, st).
     Inr (Groups_reply r, s\<lparr>groups_st := st\<rparr>))"
| "exec_command env (Join_group n) s =
     rbind (join_group_cmd n (e_sock env) (e_sent env) (e_events env) (e_alloc env) (e_fds env) (e_ok env) (groups_st s))
       (\<lambda>(r, st). Inr (case r of None \<Rightarrow> Not_found n | Some r \<Rightarrow> Groups_reply r, s\<lparr>groups_st := st\<rparr>))"
| "exec_command env (Leave_group n) s =
     rbind (leave_group_cmd n (e_ok env) (groups_st s)) (\<lambda>(r, st). Inr (Groups_reply r, s\<lparr>groups_st := st\<rparr>))"
| "exec_command env List_groups s =
     rbind (listGroups (groups_st s)) (\<lambda>ls. Inr (Groups_reply (Group_lines ls), s))"
| "exec_command env (Find_group q) s =
     rbind (find_group_cmd q (e_sock env) (e_sent env) (e_events env) (groups_st s)) (\<lambda>r.
     Inr (case r of None \<Rightarrow> Not_found q | Some l \<Rightarrow> Found l, s))"
| "exec_command env (Send_message n m) s =
     rbind (send_message_cmd n m (e_sent env) (groups_st s)) (\<lambda>r. Inr (Sent_reply r, s))"
| "exec_command env (Init_poll n q opts cnt) s =
     rbind (init_poll_cmd n q opts cnt (e_pid env) (e_junk env) (e_sock env) (e_sent env) (e_events env) (groups_st s))
       (\<lambda>r. Inr (Poll_result r, s))"
| "exec_command env List_files s = Inr (Own_files (own_files s), s)"
| "exec_command env (Request_file f) s =
     rbind (requestFileCmdHandler f (e_sock env) (e_child env) (own_files s) (groups_st s)) (\<lambda>(r, sent, files).
     Inr (File_result r sent, s\<lparr>own_files := files\<rparr>))"
| "exec_command env Help_cmd s = Inr (Commands, s)"
| "exec_command env Exit_cmd s = rbind (cleanup_groups (e_ok env) (groups_st s)) (\<lambda>_. Inr (Exited, s))"

text \<open>Reading a line; at the end of the input it is empty.\<close>

definition stdin_step :: "net_env \<Rightarrow> string \<Rightarrow> app \<Rightarrow> (app_reply \<times> app) res" where
  "stdin_step env line s =
     rbind (parseCommand line) (\<lambda>cmd_obj.
     case cmd_obj of None \<Rightarrow> Inr (Not_parsed, s) | Some c \<Rightarrow> exec_command env c s)"

section \<open>Messages\<close>

definition cleanupAndExit :: "bool \<Rightarrow> string \<Rightarrow> app \<Rightarrow> 'a res" where
  "cleanupAndExit ok err s = rbind (cleanup_groups ok (groups_st s)) (\<lambda>_. Inl (Exit_failure err))"

text \<open>Lines 87 to 107; \<open>None\<close> when \<open>recvfrom\<close> fails.\<close>

definition broadcast_step :: "bool \<Rightarrow> message option \<Rightarrow> app \<Rightarrow> (int \<times> message) option res" where
  "broadcast_step ok m s =
     (case m of
        None \<Rightarrow> cleanupAndExit ok ''recvfrom()'' s
      | Some (Find_group_req query port) \<Rightarrow> handleFindGroupReq query port (groups_st s)
      | Some _ \<Rightarrow> Inr None)"

datatype mc_reply =
    Text_shown string
  | Voted "(int \<times> message) option"
  | File_served int "message list"
  | List_forwarded "(group_line \<times> message) list"
  | Ignored

text \<open>Lines 353 to 488: a message received on a group.\<close>

definition handle_multicast :: "bool \<Rightarrow> mc_env \<Rightarrow> message option \<Rightarrow> app \<Rightarrow> (mc_reply \<times> app) res" where
  "handle_multicast ok env m s =
     (case m of
        None \<Rightarrow> cleanupAndExit ok ''recvfrom()'' s
      | Some (Simple_msg t) \<Rightarrow> Inr (Text_shown t, s)
      | Some (Poll_request req) \<Rightarrow>
          rbind (answer_poll req (m_lines env) (m_sock env)) (\<lambda>r. Inr (Voted r, s))
      | Some (File_req f port) \<Rightarrow>
          rbind (requestFileReqHandler f (own_files s) (m_file env) (m_sock env) (m_conn env) (m_sends env)
              (m_is_last env) (m_data env)) (\<lambda>(r, ms). Inr (File_served r ms, s))
      | Some (File_list_multicast fl) \<Rightarrow>
          rbind (receive_file_list (m_requests env) fl (own_files s) (groups_st s)) (\<lambda>(sent, files).
          Inr (List_forwarded sent, s\<lparr>own_files := files\<rparr>))
      | Some _ \<Rightarrow> Inr (Ignored, s))"

text \<open>
  The loop of lines 349 to 491 over the groups; \<open>ready\<close> gives what arrives on a descriptor \<open>select\<close> has
  marked. Handling a message changes the list of files only.
\<close>

fun multicast_loop ::
  "bool \<Rightarrow> (int \<Rightarrow> (message option \<times> mc_env) option) \<Rightarrow> mc_group list \<Rightarrow> app \<Rightarrow> (mc_reply list \<times> app) res" where
  "multicast_loop ok ready [] s = Inr ([], s)"
| "multicast_loop ok ready (g # gs) s =
     (case ready (recv_fd g) of
        None \<Rightarrow> multicast_loop ok ready gs s
      | Some (m, env) \<Rightarrow>
          rbind (handle_multicast ok env m s) (\<lambda>(r, s).
          rbind (multicast_loop ok ready gs s) (\<lambda>(rs, s). Inr (r # rs, s))))"

section \<open>The loop\<close>

text \<open>
  One round of the loop: what \<open>select\<close> has marked among the broadcast socket, the standard input and the
  sockets of the groups. A line that is not parsed ends the round before the groups are looked at; the
  alarm arrives while \<open>select\<close> waits.
\<close>

datatype app_event =
    Round bool "message option option" "(string \<times> net_env) option" "int \<Rightarrow> (message option \<times> mc_env) option"
  | Alarm bool "string list" "string list"

datatype app_output =
    Round_output "(int \<times> message) option" "app_reply option" "mc_reply list"
  | Alarm_output "(group_line \<times> message) list"

definition input_step :: "(string \<times> net_env) option \<Rightarrow> app \<Rightarrow> (app_reply option \<times> app) res" where
  "input_step input s =
     (case input of
        None \<Rightarrow> Inr (None, s)
      | Some (line, env) \<Rightarrow> rbind (stdin_step env line s) (\<lambda>(r, s). Inr (Some r, s)))"

fun app_step :: "app_event \<Rightarrow> app \<Rightarrow> (app_output \<times> app) res" where
  "app_step (Round ok bcast input ready) s =
     rbind (case bcast of None \<Rightarrow> Inr None | Some m \<Rightarrow> broadcast_step ok m s) (\<lambda>sent.
     rbind (input_step input s) (\<lambda>(r, s).
     if r = Some Not_parsed \<or> r = Some Exited then Inr (Round_output sent r [], s)
     else
       rbind (if gcount (groups_st s) = 0 then Inr []
              else groups_from (gfresh (groups_st s)) (groups_st s) (ghead (groups_st s))) (\<lambda>gs.
       rbind (multicast_loop ok ready gs s) (\<lambda>(rs, s). Inr (Round_output sent r rs, s)))))"
| "app_step (Alarm ok junk_files junk_groups) s =
     rbind (sigAlrmHandler ok junk_files junk_groups (own_files s) (groups_st s)) (\<lambda>sent. Inr (Alarm_output sent, s))"

text \<open>The rounds until the process exits, and its start; \<open>sock\<close> is whether the socket and the list can be made.\<close>

definition is_exit :: "app_output \<Rightarrow> bool" where
  "is_exit out = (case out of Round_output _ (Some Exited) _ \<Rightarrow> True | _ \<Rightarrow> False)"

fun app_run :: "app_event list \<Rightarrow> app \<Rightarrow> (app_output list \<times> app) res" where
  "app_run [] s = Inr ([], s)"
| "app_run (e # es) s =
     rbind (app_step e s) (\<lambda>(out, s).
     if is_exit out then Inr ([out], s)
     else rbind (app_run es s) (\<lambda>(outs, s). Inr (out # outs, s)))"

definition app_start :: "(string \<times> bool) list option \<Rightarrow> bool \<Rightarrow> app res" where
  "app_start dir sock =
     rbind (getFileList dir) (\<lambda>(r, files).
     if r = -1 then Inl (Exit_failure ''getFileList()'')
     else if \<not> sock then Inl (Exit_failure ''socket()'')
     else Inr \<lparr>groups_st = chat_init, own_files = files\<rparr>)"

section \<open>The invariant\<close>

text \<open>Names, addresses and file names fit their arrays; no name and no address is there twice.\<close>

definition lines_ok :: "group_line list \<Rightarrow> bool" where
  "lines_ok ls \<longleftrightarrow> distinct (map snd ls) \<and> (\<forall>(n, addr, port) \<in> set ls. length n < GROUP_NAME_LEN \<and> length addr < IP_LEN)"

definition files_ok :: "string list \<Rightarrow> bool" where
  "files_ok fs \<longleftrightarrow> length fs \<le> MAX_FILE_ALLOWED \<and> (\<forall>f \<in> set fs. length f < FILE_NAME_LEN)"

definition chat_sound :: "chat \<Rightarrow> bool" where
  "chat_sound st \<longleftrightarrow> (\<exists>ls stale. chat_rel st (ls, stale) \<and> lines_ok ls)"

definition app_ok :: "app \<Rightarrow> bool" where
  "app_ok s \<longleftrightarrow> chat_sound (groups_st s) \<and> files_ok (own_files s)"

lemma distinct_remove1_map: "distinct (map f xs) \<Longrightarrow> distinct (map f (remove1 x xs))"
  by (induction xs) (auto dest: notin_set_remove1 set_remove1_subset [THEN subsetD])

lemma lines_ok_remove1: "lines_ok ls \<Longrightarrow> lines_ok (remove1 e ls)"
  using set_remove1_subset [of e ls] by (auto simp: lines_ok_def distinct_remove1_map)

lemma lines_ok_append:
  "lines_ok ls \<Longrightarrow> (addr, port) \<notin> snd ` set ls \<Longrightarrow> length n < GROUP_NAME_LEN \<Longrightarrow> length addr < IP_LEN \<Longrightarrow>
   lines_ok (ls @ [(n, addr, port)])"
  by (auto simp: lines_ok_def)

lemma chat_spec_lines_ok: "chat_spec op (ls, stale) = Inr (r, ls', stale') \<Longrightarrow> lines_ok ls \<Longrightarrow> lines_ok ls'"
  by (cases op) (auto simp: lines_ok_def [of "[]"] lines_ok_remove1 lines_ok_append not_le split: if_splits option.splits)

lemma chat_step_sound: "chat_sound st \<Longrightarrow> chat_step op st = Inr (r, st') \<Longrightarrow> chat_sound st'"
proof -
  assume st: "chat_sound st" and step: "chat_step op st = Inr (r, st')"
  from st obtain ls stale where ls: "chat_rel st (ls, stale)" "lines_ok ls" by (auto simp: chat_sound_def)
  from chat_step_refines [OF ls(1), of op] step obtain t where t: "chat_spec op (ls, stale) = Inr (r, t)" "chat_rel st' t"
    by auto
  obtain ls' stale' where "t = (ls', stale')" by fastforce
  with t ls(2) chat_spec_lines_ok show ?thesis unfolding chat_sound_def by blast
qed

lemma create_sound: "chat_sound st \<Longrightarrow> create_group_cmd n a p al f j st = Inr (r, st') \<Longrightarrow> chat_sound st'"
  using chat_step_sound [of st "Chat_create n a p al f j"] by simp

lemma leave_sound: "chat_sound st \<Longrightarrow> leave_group_cmd n j st = Inr (r, st') \<Longrightarrow> chat_sound st'"
  using chat_step_sound [of st "Chat_leave n j"] by simp

lemma join_sound: "chat_sound st \<Longrightarrow> join_group_cmd n sk se es al f j st = Inr (r, st') \<Longrightarrow> chat_sound st'"
  by (auto simp: join_group_cmd_def rbind_Inr_iff split: option.splits dest: create_sound)

lemma store_files_ok: "files_ok fs \<Longrightarrow> store_file f fs = Inr fs' \<Longrightarrow> files_ok fs'"
  by (auto simp: files_ok_def store_file_Inr)

lemma request_files_ok:
  "files_ok fs \<Longrightarrow> requestFileCmdHandler f sk c fs st = Inr (r, sent, fs') \<Longrightarrow> files_ok fs'"
  by (auto simp: requestFileCmdHandler_def rbind_Inr_iff Let_def store_files_ok split: if_splits option.splits)

lemma file_list_files_ok:
  "files_ok fs \<Longrightarrow> file_list_loop env fl st n i fs msg = Inr (sent, fs') \<Longrightarrow> files_ok fs'"
proof (induction n arbitrary: i fs msg sent)
  case (Suc n)
  then show ?case by (auto simp: rbind_Inr_iff split: if_splits dest: request_files_ok)
qed simp

lemma exec_command_ok: "app_ok s \<Longrightarrow> exec_command env c s = Inr (r, s') \<Longrightarrow> app_ok s'"
  by (cases c) (auto simp: app_ok_def rbind_Inr_iff dest: create_sound leave_sound join_sound request_files_ok)

lemma stdin_step_ok: "app_ok s \<Longrightarrow> stdin_step env line s = Inr (r, s') \<Longrightarrow> app_ok s'"
  by (auto simp: stdin_step_def rbind_Inr_iff split: option.splits dest: exec_command_ok)

lemma handle_multicast_ok: "app_ok s \<Longrightarrow> handle_multicast ok env m s = Inr (r, s') \<Longrightarrow> app_ok s'"
  by (auto simp: handle_multicast_def cleanupAndExit_def rbind_Inr_iff app_ok_def receive_file_list_def
      split: option.splits message.splits dest: file_list_files_ok)

lemma multicast_loop_ok: "app_ok s \<Longrightarrow> multicast_loop ok ready gs s = Inr (rs, s') \<Longrightarrow> app_ok s'"
proof (induction gs arbitrary: s rs)
  case (Cons g gs)
  show ?case
  proof (cases "ready (recv_fd g)")
    case None
    with Cons show ?thesis by simp
  next
    case (Some me)
    with Cons.prems obtain r rs' s1 where "handle_multicast ok (snd me) (fst me) s = Inr (r, s1)"
        "multicast_loop ok ready gs s1 = Inr (rs', s')"
      by (auto simp: rbind_Inr_iff split: prod.splits)
    with Cons.IH handle_multicast_ok [OF Cons.prems(1)] show ?thesis by blast
  qed
qed simp

lemma app_step_ok: "app_ok s \<Longrightarrow> app_step e s = Inr (out, s') \<Longrightarrow> app_ok s'"
proof (cases e)
  case (Round ok bcast input ready)
  assume s: "app_ok s" and step: "app_step e s = Inr (out, s')"
  from step obtain r s1 where 1: "input_step input s = Inr (r, s1)"
      "s' = s1 \<or> (\<exists>gs rs. multicast_loop ok ready gs s1 = Inr (rs, s'))"
    unfolding Round app_step.simps by (auto simp: rbind_Inr_iff split: if_splits)
  then have "app_ok s1" using s stdin_step_ok by (auto simp: input_step_def rbind_Inr_iff split: option.splits)
  with 1(2) multicast_loop_ok show ?thesis by blast
qed (auto simp: rbind_Inr_iff)

lemma app_run_ok: "app_ok s \<Longrightarrow> app_run es s = Inr (outs, s') \<Longrightarrow> app_ok s'"
  by (induction es arbitrary: s outs) (auto simp: rbind_Inr_iff split: if_splits dest: app_step_ok)

lemma app_start_ok: "app_start dir sock = Inr s \<Longrightarrow> app_ok s"
proof -
  assume s: "app_start dir sock = Inr s"
  then obtain entries where "rfold add_entry entries [] = Inr (own_files s)" "groups_st s = chat_init"
    by (auto simp: app_start_def getFileList_def rbind_Inr_iff split: option.splits if_splits)
  moreover have "length ([] :: string list) \<le> 30" by simp
  ultimately have "files_ok (own_files s)" unfolding add_entries [OF \<open>length ([] :: string list) \<le> 30\<close>] files_ok_def by auto
  moreover have "chat_sound (groups_st s)"
    using chat_init_rel \<open>groups_st s = chat_init\<close> by (auto simp: chat_sound_def lines_ok_def)
  ultimately show ?thesis by (simp add: app_ok_def)
qed

section \<open>What a parsed command can do\<close>






















section \<open>Properties\<close>

text \<open>
  C9: in every run of the chat, whatever is typed, received and answered by the system, the groups in the
  store are a proper list without two equal names or addresses, and all names, addresses and file names
  fit their arrays, of which there are at most 30 files.
\<close>

theorem chat_run_invariant:
  assumes "app_start dir sock = Inr s0" "app_run es s0 = Inr (outs, s)"
  shows "app_ok s"
  using app_start_ok [OF assms(1)] assms(2) by (rule app_run_ok)

text \<open>A system in which nothing fails and nothing arrives.\<close>

definition quiet_env :: net_env where
  "quiet_env = \<lparr>e_alloc = True, e_fds = Some (4, 5), e_ok = True, e_sock = Some 4000, e_sent = True,
     e_events = [Timed_out], e_child = True, e_pid = 7, e_junk = 0\<rparr>"

theorem chat_run_invariant_witness:
  "\<exists>outs s. app_start (Some [(''.'', False), (''a.txt'', True)]) True = Inr \<lparr>groups_st = chat_init, own_files = [''a.txt'']\<rparr> \<and>
     app_run [Round True None (Some (''create-group os 224.0.0.1 90'' @ [NL], quiet_env)) (\<lambda>_. None)]
       \<lparr>groups_st = chat_init, own_files = [''a.txt'']\<rparr> = Inr (outs, s) \<and> lines_of (groups_st s) [0] = [(''os'', ''224.0.0.1'', 90)] \<and> app_ok s"
proof -
  have start: "app_start (Some [(''.'', False), (''a.txt'', True)]) True = Inr \<lparr>groups_st = chat_init, own_files = [''a.txt'']\<rparr>"
    by (simp add: app_start_def getFileList_def add_entry_def store_file_def strcpy_to_def)
  have "parseCommand (''create-group os 224.0.0.1 90'' @ [NL]) = Inr (Some (Create_group ''os'' ''224.0.0.1'' 90))" by code_simp
  then have "\<exists>outs s. app_run [Round True None (Some (''create-group os 224.0.0.1 90'' @ [NL], quiet_env)) (\<lambda>_. None)]
       \<lparr>groups_st = chat_init, own_files = [''a.txt'']\<rparr> = Inr (outs, s) \<and> lines_of (groups_st s) [0] = [(''os'', ''224.0.0.1'', 90)]"
    by (simp add: input_step_def stdin_step_def create_group_cmd_def initMulticastGroup_def findGroupByName_def
        findGroupByIpAndPort_def joinMulticastGroup_def insertMulticastGroup_def grp_at_def chat_init_def quiet_env_def
        strcpy_to_def Let_def is_exit_def gview_def)
  then show ?thesis using start chat_run_invariant [OF start] by blast
qed



end
