(* ===== verification/Msg_Server.thy ===== *)
theory Msg_Server
  imports Prelude
begin

text \<open>
  The server of the message queue chat, \<open>assignment-1/q3/server.c\<close>: its tables of clients and groups and
  its four handlers, each of which takes the messages of one type from the server's queue. One iteration
  of a handler is one step. Sending to a queue that exists succeeds, it waits while the queue is full.
\<close>

section \<open>Messages\<close>

abbreviation MAX_LEN :: nat where "MAX_LEN \<equiv> 128"
abbreviation MAX_NUM :: nat where "MAX_NUM \<equiv> 1024"

abbreviation CLIENT_MESSAGE :: int where "CLIENT_MESSAGE \<equiv> 1"
abbreviation GROUP_MESSAGE :: int where "GROUP_MESSAGE \<equiv> 2"
abbreviation QUERY_REQUEST :: int where "QUERY_REQUEST \<equiv> 5"
abbreviation QUERY_RESPONSE :: int where "QUERY_RESPONSE \<equiv> 6"
abbreviation CONTROL :: int where "CONTROL \<equiv> 7"
abbreviation CONTROL_RESPONSE :: int where "CONTROL_RESPONSE \<equiv> 8"
abbreviation STATUS_OK :: int where "STATUS_OK \<equiv> 200"
abbreviation STATUS_ERROR :: int where "STATUS_ERROR \<equiv> 500"

record text_msg =
  mtype :: int
  protocol :: int
  src :: int
  dst :: int
  auto_delete :: int
  timestamp :: int
  src_name :: string
  content :: string

record query_request =
  q_src :: int
  query_type :: int
  q_content :: string

record query_response =
  q_status :: int
  r_content :: string

record control_request =
  queuepath :: string
  c_name :: string
  action :: int
  c_src :: int
  c_gid :: int

record control_response =
  r_action :: int
  c_status :: int
  r_gid :: int

datatype packet =
    Text text_msg
  | Query query_request
  | Query_res query_response
  | Control control_request
  | Control_res control_response

fun packet_type :: "packet \<Rightarrow> int" where
  "packet_type (Text m) = mtype m"
| "packet_type (Query q) = QUERY_REQUEST"
| "packet_type (Query_res r) = QUERY_RESPONSE"
| "packet_type (Control c) = CONTROL"
| "packet_type (Control_res r) = CONTROL_RESPONSE"

text \<open>\<open>msgrcv\<close> with a positive type takes the first message of this type.\<close>

fun msgrcv :: "int \<Rightarrow> packet list \<Rightarrow> (packet \<times> packet list) option" where
  "msgrcv t [] = None"
| "msgrcv t (p # ps) =
     (if packet_type p = t then Some (p, ps) else map_option (\<lambda>(r, rest). (r, p # rest)) (msgrcv t ps))"

section \<open>Tables\<close>

text \<open>
  A client is never freed, so a pointer to one is its index in the table. \<open>members\<close> and \<open>num_clients\<close> of
  a group are not initialised by \<open>new_group\<close>; \<open>None\<close> is an element never written.
\<close>

record client =
  cid :: int
  cname :: string
  queue_path :: string
  queue :: int
  num_groups :: nat

record grp =
  gid :: int
  grp_name :: string
  num_clients :: int
  members :: "nat \<Rightarrow> nat option"

record msg_server =
  clients :: "client list"
  grps :: "grp list"
  next_group_id :: int

definition msg_init :: msg_server where
  "msg_init = \<lparr>clients = [], grps = [], next_group_id = 0\<rparr>"

fun first_index :: "('a \<Rightarrow> bool) \<Rightarrow> 'a list \<Rightarrow> nat option" where
  "first_index P [] = None"
| "first_index P (x # xs) = (if P x then Some 0 else map_option Suc (first_index P xs))"

definition find_client_by_id :: "int \<Rightarrow> msg_server \<Rightarrow> nat option" where
  "find_client_by_id i s = first_index (\<lambda>c. cid c = i) (clients s)"

definition find_client_by_name :: "string \<Rightarrow> msg_server \<Rightarrow> nat option" where
  "find_client_by_name n s = first_index (\<lambda>c. cname c = n) (clients s)"

definition find_group_by_id :: "int \<Rightarrow> msg_server \<Rightarrow> nat option res" where
  "find_group_by_id i s =
     (if i < int (length (grps s)) then
        rbind (elem_at (grps s) i) (\<lambda>g.
        Inr (if gid g = i then Some (nat i) else first_index (\<lambda>g. gid g = i) (grps s)))
      else Inr (first_index (\<lambda>g. gid g = i) (grps s)))"

definition find_group_by_name :: "string \<Rightarrow> msg_server \<Rightarrow> nat option" where
  "find_group_by_name n s = first_index (\<lambda>g. grp_name g = n) (grps s)"

text \<open>A pointer that may be NULL.\<close>

definition deref :: "'a option \<Rightarrow> 'a res" where
  "deref p = (case p of None \<Rightarrow> Inl Null_deref | Some x \<Rightarrow> Inr x)"

section \<open>Clients and groups\<close>

definition append_trailing_slash :: "string \<Rightarrow> string res" where
  "append_trailing_slash str =
     (if str = [] then Inl Out_of_bounds
      else if last str \<noteq> CHR ''/'' then strcat_to MAX_LEN str ''/'' else Inr str)"

definition new_client :: "int \<Rightarrow> string \<Rightarrow> string \<Rightarrow> client res" where
  "new_client i name qpath =
     rbind (strcpy_to MAX_NUM name) (\<lambda>name.
     rbind (strcpy_to MAX_NUM qpath) (\<lambda>qpath.
     Inr \<lparr>cid = i, cname = name, queue_path = qpath, queue = 0, num_groups = 0\<rparr>))"

text \<open>\<open>get_queue\<close> is the queue that \<open>ftok\<close> and \<open>msgget\<close> give for a path.\<close>

definition register_client ::
  "(string \<Rightarrow> int option) \<Rightarrow> int \<Rightarrow> string \<Rightarrow> string \<Rightarrow> msg_server \<Rightarrow> (nat option \<times> msg_server) res" where
  "register_client get_queue uid name path s =
     (case find_client_by_id uid s of
        Some i \<Rightarrow> Inr (Some i, s)
      | None \<Rightarrow>
          rbind (append_trailing_slash path) (\<lambda>path.
          rbind (strcat_to 1024 path ''control.queue'') (\<lambda>control_qpath.
          case get_queue control_qpath of
            None \<Rightarrow> Inr (None, s)
          | Some q \<Rightarrow>
              rbind (new_client uid name path) (\<lambda>client.
              if MAX_NUM \<le> length (clients s) then Inl Out_of_bounds
              else Inr (Some (length (clients s)), s\<lparr>clients := clients s @ [client\<lparr>queue := q\<rparr>]\<rparr>)))))"

text \<open>\<open>new_group\<close>, on the junk in the memory for \<open>num_clients\<close>.\<close>

definition new_group :: "int \<Rightarrow> int \<Rightarrow> string \<Rightarrow> grp res" where
  "new_group junk i name =
     rbind (strcpy_to MAX_NUM name) (\<lambda>name.
     Inr \<lparr>gid = i, grp_name = name, num_clients = junk, members = (\<lambda>_. None)\<rparr>)"

definition join_group :: "nat option \<Rightarrow> nat option \<Rightarrow> msg_server \<Rightarrow> (int \<times> msg_server) res" where
  "join_group grp clt s =
     rbind (deref clt) (\<lambda>c.
     rbind (elem_at (clients s) (int c)) (\<lambda>client.
     rbind (deref grp) (\<lambda>g.
     rbind (elem_at (grps s) (int g)) (\<lambda>group.
     if num_clients group < 0 \<or> int MAX_NUM \<le> num_clients group then Inl Out_of_bounds
     else
       Inr (gid group, s\<lparr>
         clients := (clients s)[c := client\<lparr>num_groups := num_groups client + 1\<rparr>],
         grps := (grps s)[g := group\<lparr>members := (members group)(nat (num_clients group) \<mapsto> c),
                                     num_clients := num_clients group + 1\<rparr>]\<rparr>)))))"

definition create_group :: "int \<Rightarrow> string \<Rightarrow> nat option \<Rightarrow> msg_server \<Rightarrow> (nat option \<times> msg_server) res" where
  "create_group junk name creator s =
     rbind (new_group junk (next_group_id s) name) (\<lambda>group.
     if MAX_NUM \<le> length (grps s) then Inl Out_of_bounds
     else
       let g = length (grps s); s = s\<lparr>next_group_id := next_group_id s + 1, grps := grps s @ [group]\<rparr> in
       rbind (join_group (Some g) creator s) (\<lambda>(status, s).
       Inr (if status < 0 then None else Some g, s)))"

section \<open>Sending\<close>

text \<open>
  The loop of \<open>send_group_message\<close> from element \<open>i\<close> with \<open>n\<close> rounds left. After each message the name of
  client \<open>i\<close> of the table of all clients is printed; its elements beyond the last client are NULL.
\<close>

fun group_loop :: "msg_server \<Rightarrow> grp \<Rightarrow> text_msg \<Rightarrow> nat \<Rightarrow> nat \<Rightarrow> packet list res" where
  "group_loop s g m 0 i = Inr []"
| "group_loop s g m (Suc n) i =
     (if MAX_NUM \<le> i then Inl Out_of_bounds
      else
        case members g i of
          None \<Rightarrow> Inl Uninit_read
        | Some c \<Rightarrow>
            rbind (elem_at (clients s) (int c)) (\<lambda>client.
            if length (clients s) \<le> i then Inl Null_deref
            else
              rbind (group_loop s g m n (i + 1)) (\<lambda>ps.
              Inr (Text (m\<lparr>mtype := cid client + 5000\<rparr>) # ps))))"

definition send_group_message :: "nat option \<Rightarrow> text_msg \<Rightarrow> msg_server \<Rightarrow> packet list res" where
  "send_group_message grp m s =
     rbind (deref grp) (\<lambda>g.
     rbind (elem_at (grps s) (int g)) (\<lambda>g.
     group_loop s g (m\<lparr>protocol := GROUP_MESSAGE\<rparr>) (nat (num_clients g)) 0))"

definition send_client_message :: "nat option \<Rightarrow> text_msg \<Rightarrow> msg_server \<Rightarrow> packet list res" where
  "send_client_message clt m s =
     rbind (deref clt) (\<lambda>c.
     rbind (elem_at (clients s) (int c)) (\<lambda>client.
     Inr [Text (m\<lparr>protocol := CLIENT_MESSAGE, mtype := cid client + 5000\<rparr>)]))"

section \<open>Handlers\<close>

text \<open>What a handler adds to the server's queue, for the two that pass messages on.\<close>

definition handle_group_msg :: "text_msg \<Rightarrow> msg_server \<Rightarrow> packet list res" where
  "handle_group_msg m s = rbind (find_group_by_id (dst m) s) (\<lambda>grp. send_group_message grp m s)"

definition handle_client_msg :: "text_msg \<Rightarrow> msg_server \<Rightarrow> packet list res" where
  "handle_client_msg m s = send_client_message (find_client_by_id (dst m) s) m s"

text \<open>
  The answers to a query with the queue they go to. \<open>junk\<close> is what the response holds at first.
\<close>

definition query_all :: "query_response \<Rightarrow> string \<Rightarrow> string \<Rightarrow> (string \<times> int) list \<Rightarrow> query_response list" where
  "query_all junk before between entries =
     map (\<lambda>(n, i). \<lparr>q_status = STATUS_OK, r_content = before @ n @ between @ show_int i\<rparr>) entries @
     [\<lparr>q_status = (if entries = [] then q_status junk else STATUS_OK), r_content = ''_END_''\<rparr>]"

definition query_answers :: "query_response \<Rightarrow> query_request \<Rightarrow> msg_server \<Rightarrow> query_response list" where
  "query_answers junk q s =
     (if query_type q = 1 then
        (if q_content q \<noteq> ''_ALL_'' then
           (case find_client_by_name (q_content q) s of
              None \<Rightarrow> [junk\<lparr>q_status := STATUS_ERROR\<rparr>]
            | Some c \<Rightarrow> [\<lparr>q_status = STATUS_OK, r_content = show_int (cid (clients s ! c))\<rparr>])
         else query_all junk ''name = '' '' | cid = '' (map (\<lambda>c. (cname c, cid c)) (clients s)))
      else if query_type q = 2 then
        (if q_content q \<noteq> ''_ALL_'' then
           (case find_group_by_name (q_content q) s of
              None \<Rightarrow> [junk\<lparr>q_status := STATUS_ERROR\<rparr>]
            | Some g \<Rightarrow> [\<lparr>q_status = STATUS_OK, r_content = show_int (gid (grps s ! g))\<rparr>])
         else query_all junk ''name = '' '' | gid = '' (map (\<lambda>g. (grp_name g, gid g)) (grps s)))
      else [\<lparr>q_status = STATUS_ERROR, r_content = ''Invalid request!''\<rparr>])"

definition handle_query :: "query_response \<Rightarrow> query_request \<Rightarrow> msg_server \<Rightarrow> (int \<times> query_response list) res" where
  "handle_query junk q s =
     rbind (deref (find_client_by_id (q_src q) s)) (\<lambda>c.
     rbind (elem_at (clients s) (int c)) (\<lambda>client.
     Inr (queue client, query_answers junk q s)))"

text \<open>
  Two functions no handler calls, on what their memory holds at first. The second formats every group and
  adds nothing.
\<close>

definition get_all_clients_msg :: "string \<Rightarrow> msg_server \<Rightarrow> string res" where
  "get_all_clients_msg junk s =
     rfold (\<lambda>c result.
       rbind (strcpy_to 512 (''Name = '' @ cname c @ '' | ID = '' @ show_int (cid c) @ [NL])) (\<lambda>cltString.
       strcat_to (MAX_LEN * 10) result cltString)) (clients s) junk"

definition get_all_groups_msg :: "string \<Rightarrow> msg_server \<Rightarrow> string res" where
  "get_all_groups_msg junk s =
     rfold (\<lambda>g result.
       rbind (strcpy_to 512 (''Name = '' @ grp_name g @ '' | ID = '' @ show_int (gid g) @ [NL])) (\<lambda>grpString.
       Inr result)) (grps s) junk"

text \<open>\<open>junk\<close> is the group number a response holds when none is written; \<open>junk_num\<close> is as in \<open>new_group\<close>.\<close>

definition control_action ::
  "(string \<Rightarrow> int option) \<Rightarrow> int \<Rightarrow> int \<Rightarrow> control_request \<Rightarrow> msg_server \<Rightarrow> (int \<times> int \<times> msg_server) res" where
  "control_action get_queue junk_num junk c s =
     (if action c = 1 then
        rbind (register_client get_queue (c_src c) (c_name c) (queuepath c) s) (\<lambda>(_, s). Inr (STATUS_OK, junk, s))
      else if action c = 2 then
        rbind (find_group_by_id (c_gid c) s) (\<lambda>grp.
        rbind (deref grp) (\<lambda>g.
        rbind (join_group (Some g) (find_client_by_id (c_src c) s) s) (\<lambda>(_, s). Inr (STATUS_OK, junk, s))))
      else if action c = 4 then
        rbind (create_group junk_num (c_name c) (find_client_by_id (c_src c) s) s) (\<lambda>(grp, s).
        rbind (deref grp) (\<lambda>g.
        rbind (elem_at (grps s) (int g)) (\<lambda>group. Inr (STATUS_OK, gid group, s))))
      else Inr (STATUS_ERROR, junk, s))"

definition handle_control ::
  "(string \<Rightarrow> int option) \<Rightarrow> int \<Rightarrow> int \<Rightarrow> control_request \<Rightarrow> msg_server \<Rightarrow> ((int \<times> control_response) \<times> msg_server) res" where
  "handle_control get_queue junk_num junk c s =
     rbind (control_action get_queue junk_num junk c s) (\<lambda>(status, g, s).
     rbind (deref (find_client_by_id (c_src c) s)) (\<lambda>i.
     rbind (elem_at (clients s) (int i)) (\<lambda>client.
     Inr ((queue client, \<lparr>r_action = action c, c_status = status, r_gid = g\<rparr>), s))))"

section \<open>The server with its queues\<close>

record msg_world =
  srv :: msg_server
  server_queue :: "packet list"
  client_queues :: "int \<Rightarrow> packet list"

text \<open>Which handler runs; one that finds no message of its type goes on waiting.\<close>

datatype handler_id = Group_handler | Client_handler | Query_handler | Control_handler

definition put_msgs :: "int \<Rightarrow> packet list \<Rightarrow> msg_world \<Rightarrow> msg_world" where
  "put_msgs q ps w = w\<lparr>client_queues := (client_queues w)(q := client_queues w q @ ps)\<rparr>"

fun server_step ::
  "(string \<Rightarrow> int option) \<Rightarrow> int \<Rightarrow> int \<Rightarrow> query_response \<Rightarrow> handler_id \<Rightarrow> msg_world \<Rightarrow> msg_world res" where
  "server_step get_queue junk_num junk junk_res Group_handler w =
     (case msgrcv GROUP_MESSAGE (server_queue w) of
        Some (Text m, rest) \<Rightarrow>
          rbind (handle_group_msg m (srv w)) (\<lambda>ps. Inr (w\<lparr>server_queue := rest @ ps\<rparr>))
      | _ \<Rightarrow> Inr w)"
| "server_step get_queue junk_num junk junk_res Client_handler w =
     (case msgrcv CLIENT_MESSAGE (server_queue w) of
        Some (Text m, rest) \<Rightarrow>
          rbind (handle_client_msg m (srv w)) (\<lambda>ps. Inr (w\<lparr>server_queue := rest @ ps\<rparr>))
      | _ \<Rightarrow> Inr w)"
| "server_step get_queue junk_num junk junk_res Query_handler w =
     (case msgrcv QUERY_REQUEST (server_queue w) of
        Some (Query q, rest) \<Rightarrow>
          rbind (handle_query junk_res q (srv w)) (\<lambda>(qu, rs).
          Inr (put_msgs qu (map Query_res rs) (w\<lparr>server_queue := rest\<rparr>)))
      | _ \<Rightarrow> Inr w)"
| "server_step get_queue junk_num junk junk_res Control_handler w =
     (case msgrcv CONTROL (server_queue w) of
        Some (Control c, rest) \<Rightarrow>
          rbind (handle_control get_queue junk_num junk c (srv w)) (\<lambda>((qu, r), s).
          Inr (put_msgs qu [Control_res r] (w\<lparr>srv := s, server_queue := rest\<rparr>)))
      | _ \<Rightarrow> Inr w)"

text \<open>What happens to the server: a message arrives, or a handler runs.\<close>

datatype server_event = Arrival packet | Handler handler_id

fun server_event_step :: "(string \<Rightarrow> int option) \<Rightarrow> int \<Rightarrow> int \<Rightarrow> query_response \<Rightarrow> server_event \<Rightarrow> msg_world \<Rightarrow> msg_world res" where
  "server_event_step get_queue junk_num junk junk_res (Arrival p) w = Inr (w\<lparr>server_queue := server_queue w @ [p]\<rparr>)"
| "server_event_step get_queue junk_num junk junk_res (Handler h) w = server_step get_queue junk_num junk junk_res h w"

section \<open>The tables\<close>

lemma all_groups_msg_is_junk: "get_all_groups_msg junk s = Inr r \<Longrightarrow> r = junk"
  unfolding get_all_groups_msg_def by (erule rfold_invariant) (auto simp: rbind_Inr_iff)

lemma first_index_Some: "first_index P xs = Some i \<Longrightarrow> i < length xs \<and> P (xs ! i)"
  by (induction xs arbitrary: i) (auto split: if_splits)

lemma first_index_map: "first_index (\<lambda>x. P (f x)) xs = first_index P (map f xs)"
  by (induction xs) auto

lemma first_index_None: "first_index P xs = None \<longleftrightarrow> (\<forall>x \<in> set xs. \<not> P x)"
  by (induction xs) auto

lemma first_index_unique:
  "i < length xs \<Longrightarrow> P (xs ! i) \<Longrightarrow> (\<And>j. j < i \<Longrightarrow> \<not> P (xs ! j)) \<Longrightarrow> first_index P xs = Some i"
proof (induction xs arbitrary: i)
  case (Cons x xs)
  show ?case
  proof (cases i)
    case 0
    with Cons show ?thesis by simp
  next
    case (Suc k)
    have "\<not> P x" using Cons.prems(3) [of 0] Suc by simp
    moreover have "first_index P xs = Some k"
    proof (rule Cons.IH)
      show "\<not> P (xs ! j)" if "j < k" for j using Cons.prems(3) [of "Suc j"] that Suc by simp
    qed (use Cons.prems(1,2) Suc in simp_all)
    ultimately show ?thesis using Suc by simp
  qed
qed simp

text \<open>
  The tables when \<open>malloc\<close> gives zeroed memory: group numbers are indices, and the members of a group are
  clients of the table.
\<close>

definition grp_ok :: "nat \<Rightarrow> grp \<Rightarrow> bool" where
  "grp_ok n g \<longleftrightarrow> 0 \<le> num_clients g \<and> num_clients g \<le> int MAX_NUM \<and>
     (\<forall>i < nat (num_clients g). \<exists>c < n. members g i = Some c)"

definition msg_ok :: "msg_server \<Rightarrow> bool" where
  "msg_ok s \<longleftrightarrow> distinct (map cid (clients s)) \<and> length (clients s) \<le> MAX_NUM \<and> length (grps s) \<le> MAX_NUM \<and>
     next_group_id s = int (length (grps s)) \<and> map gid (grps s) = map int [0..<length (grps s)] \<and>
     (\<forall>g \<in> set (grps s). grp_ok (length (clients s)) g)"

definition group_members :: "grp \<Rightarrow> nat list" where
  "group_members g = map (\<lambda>i. the (members g i)) [0..<nat (num_clients g)]"

lemma gid_index: "msg_ok s \<Longrightarrow> g < length (grps s) \<Longrightarrow> gid (grps s ! g) = int g"
proof -
  assume s: "msg_ok s" "g < length (grps s)"
  then have "map gid (grps s) ! g = map int [0..<length (grps s)] ! g" by (simp add: msg_ok_def)
  with s(2) show ?thesis by simp
qed

lemma find_group_index:
  assumes "msg_ok s"
  shows "find_group_by_id i s =
     (if i < 0 then Inl Out_of_bounds else Inr (if i < int (length (grps s)) then Some (nat i) else None))"
proof (cases "i < int (length (grps s))")
  case True
  then show ?thesis using gid_index [OF assms, of "nat i"] by (simp add: find_group_by_id_def elem_at_def)
next
  case False
  have "first_index (\<lambda>g. gid g = i) (grps s) = None"
    unfolding first_index_None using gid_index [OF assms] False by (fastforce simp: in_set_conv_nth)
  with False show ?thesis by (simp add: find_group_by_id_def)
qed

lemma elem_at_member: "grp_ok n g \<Longrightarrow> i < nat (num_clients g) \<Longrightarrow> n = length xs \<Longrightarrow>
   \<exists>c < length xs. members g i = Some c \<and> elem_at xs (int c) = Inr (xs ! c)"
  by (fastforce simp: grp_ok_def)

lemma group_loop_members:
  assumes g: "grp_ok (length (clients s)) g"
  shows "i + n \<le> nat (num_clients g) \<Longrightarrow>
     group_loop s g m n i =
       (if n \<noteq> 0 \<and> length (clients s) < i + n then Inl Null_deref
        else Inr (map (\<lambda>j. Text (m\<lparr>mtype := cid (clients s ! the (members g j)) + 5000\<rparr>)) [i..<i + n]))"
proof (induction n arbitrary: i)
  case (Suc n)
  have small: "i < MAX_NUM" using Suc.prems g by (auto simp: grp_ok_def)
  obtain c where c: "c < length (clients s)" "members g i = Some c" "elem_at (clients s) (int c) = Inr (clients s ! c)"
    using elem_at_member [OF g, of i "clients s"] Suc.prems by auto
  show ?case
  proof (cases "length (clients s) \<le> i")
    case True
    with small c show ?thesis by simp
  next
    case False
    note IH = Suc.IH [of "i + 1"]
    show ?thesis
    proof (cases "n = 0")
      case True
      with False small c show ?thesis by simp
    next
      case ne: False
      have "[i..<i + Suc n] = i # [i + 1..<i + 1 + n]" by (simp add: upt_conv_Cons del: upt_Suc)
      with False small c IH ne Suc.prems show ?thesis by (simp del: upt_Suc)
    qed
  qed
qed simp

lemma group_msg_result:
  assumes s: "msg_ok s"
  shows "handle_group_msg m s =
     (if dst m < 0 then Inl Out_of_bounds
      else if int (length (grps s)) \<le> dst m then Inl Null_deref
      else
        let ms = group_members (grps s ! nat (dst m)) in
        if length (clients s) < length ms then Inl Null_deref
        else Inr (map (\<lambda>c. Text (m\<lparr>protocol := GROUP_MESSAGE, mtype := cid (clients s ! c) + 5000\<rparr>)) ms))"
proof (cases "0 \<le> dst m \<and> dst m < int (length (grps s))")
  case False
  then show ?thesis using find_group_index [OF s, of "dst m"] by (auto simp: handle_group_msg_def send_group_message_def deref_def)
next
  case True
  then have i: "nat (dst m) < length (grps s)" by (simp add: nat_less_iff)
  let ?g = "grps s ! nat (dst m)"
  have g: "grp_ok (length (clients s)) ?g" using s i by (simp add: msg_ok_def)
  have "handle_group_msg m s = group_loop s ?g (m\<lparr>protocol := GROUP_MESSAGE\<rparr>) (nat (num_clients ?g)) 0"
    using True i find_group_index [OF s, of "dst m"]
    by (simp add: handle_group_msg_def send_group_message_def deref_def elem_at_def)
  with group_loop_members [OF g, of 0 "nat (num_clients ?g)"] True show ?thesis
    by (auto simp: Let_def group_members_def)
qed

section \<open>The handlers keep the tables\<close>

lemma register_client_cases:
  "register_client q u n p s = Inr (r, s') \<Longrightarrow>
   s' = s \<or> find_client_by_id u s = None \<and> length (clients s) < MAX_NUM \<and>
     (\<exists>c. cid c = u \<and> cname c = n \<and> r = Some (length (clients s)) \<and> s' = s\<lparr>clients := clients s @ [c]\<rparr>)"
  unfolding register_client_def new_client_def
  by (cases "find_client_by_id u s") (force simp: rbind_Inr_iff split: option.splits if_splits)+

lemma register_ok:
  assumes "msg_ok s" "register_client q u n p s = Inr (r, s')"
  shows "msg_ok s' \<and> length (clients s) \<le> length (clients s')"
  using register_client_cases [OF assms(2)]
proof
  assume a: "find_client_by_id u s = None \<and> length (clients s) < MAX_NUM \<and>
     (\<exists>c. cid c = u \<and> cname c = n \<and> r = Some (length (clients s)) \<and> s' = s\<lparr>clients := clients s @ [c]\<rparr>)"
  then have "u \<notin> cid ` set (clients s)" by (auto simp: find_client_by_id_def first_index_None)
  with assms(1) a show ?thesis by (fastforce simp: msg_ok_def grp_ok_def)
qed (use assms in simp)

lemma map_update_same: "i < length xs \<Longrightarrow> f y = f (xs ! i) \<Longrightarrow> map f (xs[i := y]) = map f xs"
  by (simp add: map_update list_update_same_conv)

lemma join_group_ok:
  assumes "msg_ok s" "join_group g c s = Inr (r, s')"
  shows "msg_ok s' \<and> length (clients s') = length (clients s) \<and> length (grps s') = length (grps s) \<and> 0 \<le> r"
proof -
  from assms(2) obtain gi ci where i: "gi < length (grps s)" "ci < length (clients s)" "num_clients (grps s ! gi) < 1024"
      "0 \<le> num_clients (grps s ! gi)" "r = gid (grps s ! gi)" and
    s': "s' = s\<lparr>clients := (clients s)[ci := (clients s ! ci)\<lparr>num_groups := num_groups (clients s ! ci) + 1\<rparr>],
         grps := (grps s)[gi := (grps s ! gi)\<lparr>members := (members (grps s ! gi))(nat (num_clients (grps s ! gi)) \<mapsto> ci),
                                     num_clients := num_clients (grps s ! gi) + 1\<rparr>]\<rparr>"
    by (auto simp: join_group_def deref_def elem_at_def rbind_Inr_iff split: option.splits if_splits)
  let ?g = "(grps s ! gi)\<lparr>members := (members (grps s ! gi))(nat (num_clients (grps s ! gi)) \<mapsto> ci),
      num_clients := num_clients (grps s ! gi) + 1\<rparr>"
  have old: "grp_ok (length (clients s)) (grps s ! gi)" using assms(1) i(1) by (simp add: msg_ok_def)
  have "\<exists>c < length (clients s). members ?g j = Some c" if "j < nat (num_clients ?g)" for j
    using that old i(2,4) by (cases "j = nat (num_clients (grps s ! gi))") (auto simp: grp_ok_def)
  then have "grp_ok (length (clients s)) ?g" using i(3,4) by (auto simp: grp_ok_def)
  moreover have "map gid ((grps s)[gi := ?g]) = map gid (grps s)" using i(1) by (intro map_update_same) simp_all
  moreover have "map cid ((clients s)[ci := (clients s ! ci)\<lparr>num_groups := num_groups (clients s ! ci) + 1\<rparr>]) = map cid (clients s)"
    using i(2) by (intro map_update_same) simp_all
  ultimately show ?thesis
    using assms(1) gid_index [OF assms(1) i(1)] i(5) unfolding s' msg_ok_def
    by (auto dest!: set_update_subset_insert [THEN subsetD])
qed

lemma create_group_ok:
  assumes "msg_ok s" "create_group 0 n c s = Inr (r, s')"
  shows "msg_ok s'"
proof -
  let ?g = "\<lparr>gid = next_group_id s, grp_name = n, num_clients = 0, members = (\<lambda>_. None)\<rparr>"
  let ?s = "s\<lparr>next_group_id := next_group_id s + 1, grps := grps s @ [?g]\<rparr>"
  from assms(2) obtain r' where j: "join_group (Some (length (grps s))) c ?s = Inr (r', s')" "length (grps s) < MAX_NUM"
    by (auto simp: create_group_def new_group_def Let_def rbind_Inr_iff split: if_splits)
  have "msg_ok ?s" using assms(1) j(2) by (auto simp: msg_ok_def grp_ok_def)
  with join_group_ok [OF _ j(1)] show ?thesis by blast
qed

lemma control_ok:
  assumes "msg_ok s" "handle_control q 0 j c s = Inr (r, s')"
  shows "msg_ok s'"
proof -
  from assms(2) obtain st g where a: "control_action q 0 j c s = Inr (st, g, s')"
    by (auto simp: handle_control_def rbind_Inr_iff)
  then show ?thesis
    using assms(1) register_ok [OF assms(1)] join_group_ok [OF assms(1)] create_group_ok [OF assms(1)]
    unfolding control_action_def by (fastforce simp: rbind_Inr_iff split: if_splits)
qed

lemma server_step_ok: "msg_ok (srv w) \<Longrightarrow> server_step q 0 j jr h w = Inr w' \<Longrightarrow> msg_ok (srv w')"
  by (cases h) (auto simp: rbind_Inr_iff put_msgs_def split: option.splits packet.splits, rule control_ok)

lemma server_run_ok:
  "rfold (server_event_step q 0 j jr) es w = Inr w' \<Longrightarrow> msg_ok (srv w) \<Longrightarrow> msg_ok (srv w')"
proof (erule rfold_invariant)
  fix e u u'
  assume "server_event_step q 0 j jr e u = Inr u'" "msg_ok (srv u)"
  then show "msg_ok (srv u')" by (cases e) (auto dest: server_step_ok)
qed

lemma msg_init_ok: "msg_ok msg_init"
  by (simp add: msg_ok_def msg_init_def)

end
