(* ===== verification/Msg_Client.thy ===== *)
theory Msg_Client
  imports Msg_Server
begin

text \<open>
  The client of the message queue chat, \<open>assignment-1/q3/client.c\<close>: the requests it sends and what it makes
  of the answers, the thread that moves messages from the server's queue to the client's own, and the loops
  that send and show messages; and what they rely on in the server.
\<close>

section \<open>Requests and answers\<close>

text \<open>\<open>get_gid\<close> and \<open>get_cid\<close> (kinds 2 and 1): the query, and the number taken from the answer.\<close>

definition get_id_query :: "int \<Rightarrow> int \<Rightarrow> string \<Rightarrow> query_request res" where
  "get_id_query kind uid name =
     rbind (strcpy_to MAX_LEN name) (\<lambda>name. Inr \<lparr>q_src = uid, query_type = kind, q_content = name\<rparr>)"

definition get_id_answer :: "query_response \<Rightarrow> int" where
  "get_id_answer qres = (if q_status qres = STATUS_ERROR then -1 else atoi (r_content qres))"

text \<open>\<open>register_self\<close>: the request and whether the answer is accepted; \<open>junk\<close> is the group number sent.\<close>

definition register_request :: "int \<Rightarrow> int \<Rightarrow> string \<Rightarrow> string \<Rightarrow> control_request res" where
  "register_request junk uid name path =
     rbind (strcpy_to MAX_LEN name) (\<lambda>name.
     rbind (strcpy_to MAX_LEN path) (\<lambda>path.
     Inr \<lparr>queuepath = path, c_name = name, action = 1, c_src = uid, c_gid = junk\<rparr>))"

definition register_answer :: "control_response \<Rightarrow> int" where
  "register_answer cres = (if c_status cres \<noteq> STATUS_OK then -1 else 0)"

text \<open>
  \<open>join_group\<close> after \<open>get_gid\<close>: the request, if there is one, and the result, which does not depend on the
  answer of the server. \<open>junk\<close> are the two strings that are not written.
\<close>

definition join_request :: "string \<times> string \<Rightarrow> int \<Rightarrow> int \<Rightarrow> control_request option" where
  "join_request junk uid g =
     (if g < 0 then None
      else Some \<lparr>queuepath = fst junk, c_name = snd junk, action = 2, c_src = uid, c_gid = g\<rparr>)"

definition join_answer :: "int \<Rightarrow> control_response \<Rightarrow> int" where
  "join_answer g cres = g"

definition create_request :: "string \<Rightarrow> int \<Rightarrow> int \<Rightarrow> string \<Rightarrow> control_request res" where
  "create_request junk_path junk uid name =
     rbind (strcpy_to MAX_LEN name) (\<lambda>name.
     Inr \<lparr>queuepath = junk_path, c_name = name, action = 4, c_src = uid, c_gid = junk\<rparr>)"

definition create_answer :: "control_response \<Rightarrow> int" where
  "create_answer cres = (if c_status cres \<noteq> STATUS_OK then -1 else r_gid cres)"

text \<open>\<open>list_query\<close> prints answers until the last one.\<close>

fun list_answers :: "query_response list \<Rightarrow> string list res" where
  "list_answers [] = Inl Blocked"
| "list_answers (r # rs) =
     (if r_content r = ''_END_'' then Inr []
      else rbind (list_answers rs) (\<lambda>ls. Inr (r_content r # ls)))"

section \<open>Messages\<close>

definition get_autodelete_val :: "string \<Rightarrow> int res" where
  "get_autodelete_val pair =
     (case strtok ''='' pair of
        None \<Rightarrow> Inl Null_deref
      | Some (_, r) \<Rightarrow>
          (case strtok ''='' r of None \<Rightarrow> Inl Null_deref | Some (val, _) \<Rightarrow> Inr (atoi val)))"

text \<open>\<open>fgets\<close> of at most 255 characters, up to and including the end of a line; \<open>None\<close> at the end of the input.\<close>

definition fgets :: "nat \<Rightarrow> string \<Rightarrow> (string \<times> string) option" where
  "fgets cap s =
     (if s = [] then None
      else
        let n = min (cap - 1) (case strchr s NL of None \<Rightarrow> length s | Some i \<Rightarrow> i + 1)
        in Some (take n s, drop n s))"

datatype peer_kind = Group_peer | Client_peer

text \<open>
  One round of \<open>start_message_send_loop\<close>: the packets for the client's own queue and for the server, and the
  content kept when the input has ended.
\<close>

definition send_round ::
  "peer_kind \<Rightarrow> int \<Rightarrow> string \<Rightarrow> int \<Rightarrow> int \<Rightarrow> int \<Rightarrow> string \<Rightarrow> string \<Rightarrow> (packet list \<times> packet \<times> string \<times> string) res" where
  "send_round kind uid name d autodelete now old stdin =
     rbind (strcpy_to MAX_LEN name) (\<lambda>name.
     let (text, rest) = (case fgets 256 stdin of None \<Rightarrow> (old, []) | Some r \<Rightarrow> r);
         t = (case kind of Client_peer \<Rightarrow> CLIENT_MESSAGE | Group_peer \<Rightarrow> GROUP_MESSAGE);
         m = \<lparr>mtype = t, protocol = t, src = uid, dst = d, auto_delete = autodelete, timestamp = now,
              src_name = name, content = text\<rparr>
     in Inr (case kind of Client_peer \<Rightarrow> [Text (m\<lparr>mtype := d + 10000\<rparr>)] | Group_peer \<Rightarrow> [], Text m, text, rest))"

text \<open>\<open>handle_messages\<close>: what is put into the client's own queue for a message from the server's.\<close>

definition route_msg :: "int \<Rightarrow> text_msg \<Rightarrow> packet option" where
  "route_msg now m =
     (if 0 < auto_delete m \<and> auto_delete m < now - timestamp m then None
      else if protocol m = GROUP_MESSAGE then Some (Text (m\<lparr>mtype := 5000 + dst m\<rparr>))
      else if protocol m = CLIENT_MESSAGE then Some (Text (m\<lparr>mtype := 10000 + src m\<rparr>))
      else None)"

definition router_step :: "int \<Rightarrow> int \<Rightarrow> int \<Rightarrow> msg_world \<Rightarrow> msg_world" where
  "router_step uid q now w =
     (case msgrcv (uid + 5000) (server_queue w) of
        Some (Text m, rest) \<Rightarrow>
          (case route_msg now m of
             None \<Rightarrow> w\<lparr>server_queue := rest\<rparr>
           | Some p \<Rightarrow> put_msgs q [p] (w\<lparr>server_queue := rest\<rparr>))
      | _ \<Rightarrow> w)"

text \<open>The type \<open>start_message_rcv_loop\<close> waits for, and one round of it: what is shown.\<close>

definition rcv_type :: "peer_kind \<Rightarrow> int \<Rightarrow> int" where
  "rcv_type kind i = (case kind of Client_peer \<Rightarrow> i + 10000 | Group_peer \<Rightarrow> i + 5000)"

definition rcv_msg :: "int \<Rightarrow> packet list \<Rightarrow> (text_msg \<times> packet list) option" where
  "rcv_msg t q = (case msgrcv t q of Some (Text m, rest) \<Rightarrow> Some (m, rest) | _ \<Rightarrow> None)"

definition rcv_round :: "int \<Rightarrow> packet list \<Rightarrow> ((string \<times> int \<times> string) \<times> packet list) option" where
  "rcv_round t q = map_option (\<lambda>(m, rest). ((src_name m, timestamp m, content m), rest)) (rcv_msg t q)"

section \<open>The command line\<close>

datatype client_cmd =
    Do_join string
  | Do_create string
  | Do_read peer_kind string
  | Do_send peer_kind string int
  | Do_list int
  | Show_usage
  | Do_nothing

text \<open>\<open>main\<close> after registering, on the arguments behind the program's name.\<close>

definition client_main :: "string list \<Rightarrow> client_cmd res" where
  "client_main args =
     (case args of
        [] \<Rightarrow> Inl Null_deref
      | cmd # rest \<Rightarrow>
          if cmd = ''join-group'' then
            (case rest of [] \<Rightarrow> Inl Null_deref | n # _ \<Rightarrow> rbind (strcpy_to 1024 n) (\<lambda>n. Inr (Do_join n)))
          else if cmd = ''create-group'' then
            (case rest of [] \<Rightarrow> Inl Null_deref | n # _ \<Rightarrow> rbind (strcpy_to 1024 n) (\<lambda>n. Inr (Do_create n)))
          else if cmd = ''read'' then
            (case rest of
               k # n # _ \<Rightarrow> Inr (Do_read (if k = ''group'' then Group_peer else Client_peer) n)
             | _ \<Rightarrow> Inr Show_usage)
          else if cmd = ''send-to'' then
            (case rest of
               k # n # opts \<Rightarrow>
                 rbind (if length opts = 1 then get_autodelete_val (hd opts) else Inr (-1)) (\<lambda>autodelete.
                 Inr (Do_send (if k = ''group'' then Group_peer else Client_peer) n autodelete))
             | _ \<Rightarrow> Inr Show_usage)
          else if cmd = ''list'' then
            (case rest of
               [] \<Rightarrow> Inr Show_usage
             | k # _ \<Rightarrow> Inr (Do_list (if k = ''groups'' \<or> k = ''group'' then 2 else 1)))
          else Inr Do_nothing)"

section \<open>Lemmas\<close>

lemma find_group_by_name_Some:
  "find_group_by_name n s = Some g \<Longrightarrow> g < length (grps s) \<and> grp_name (grps s ! g) = n"
  by (auto simp: find_group_by_name_def dest: first_index_Some)

lemma get_gid_known:
  assumes "msg_ok s" "find_group_by_name n s = Some g" "n \<noteq> ''_ALL_''"
  shows "map get_id_answer (query_answers junk \<lparr>q_src = u, query_type = 2, q_content = n\<rparr> s) = [int g]"
proof -
  have g: "g < length (grps s)" "length (grps s) \<le> 1024" using find_group_by_name_Some [OF assms(2)] assms(1) by (simp_all add: msg_ok_def)
  then have "atoi (show_int (gid (grps s ! g))) = int g"
    using gid_index [OF assms(1)] by (simp add: atoi_show_int in_int_def)
  with assms(2,3) show ?thesis by (simp add: query_answers_def get_id_answer_def)
qed

lemma get_gid_unknown:
  "find_group_by_name n s = None \<Longrightarrow> n \<noteq> ''_ALL_'' \<Longrightarrow>
   map get_id_answer (query_answers junk \<lparr>q_src = u, query_type = 2, q_content = n\<rparr> s) = [-1]"
  by (simp add: query_answers_def get_id_answer_def)

lemma list_answers_end:
  "\<forall>r \<in> set rs. r_content r \<noteq> ''_END_'' \<Longrightarrow> r_content e = ''_END_'' \<Longrightarrow> list_answers (rs @ [e]) = Inr (map r_content rs)"
  by (induction rs) auto

lemma list_all_answers:
  "\<forall>(n, i) \<in> set entries. before @ n @ between @ show_int i \<noteq> ''_END_'' \<Longrightarrow>
   list_answers (query_all junk before between entries) = Inr (map (\<lambda>(n, i). before @ n @ between @ show_int i) entries)"
  unfolding query_all_def by (subst list_answers_end) auto

section \<open>What the client relies on\<close>

text \<open>
  The service of groups a client uses: \<open>ask\<close> gives the number of a known group, and \<open>forward\<close> sends a message
  for it once to each of its members, if the group is \<open>served\<close>.
\<close>

locale group_service =
  fixes ask :: "string \<Rightarrow> int"
    and forward :: "text_msg \<Rightarrow> packet list res"
    and known :: "string \<Rightarrow> nat \<Rightarrow> bool"
    and served :: "nat \<Rightarrow> bool"
    and member_ids :: "nat \<Rightarrow> int list"
  assumes ask_known: "known n g \<Longrightarrow> ask n = int g"
    and forward_known: "known n g \<Longrightarrow> served g \<Longrightarrow> dst m = int g \<Longrightarrow>
      forward m = Inr (map (\<lambda>c. Text (m\<lparr>protocol := GROUP_MESSAGE, mtype := c + 5000\<rparr>)) (member_ids g))"
begin

lemma line_delivered:
  assumes "known n g" "served g" "length name < 128" "fgets 256 stdin = Some (line, rest)"
    and "send_round Group_peer uid name (ask n) autodelete now old stdin = Inr (to_self, Text m, line, rest)"
  shows "\<exists>out. forward m = Inr (map Text out) \<and> map mtype out = map (\<lambda>c. c + 5000) (member_ids g) \<and>
    (\<forall>m' \<in> set out.
       if 0 < autodelete \<and> autodelete < later - now then route_msg later m' = None
       else \<exists>p. route_msg later m' = Some p \<and>
         rcv_round (rcv_type Group_peer (ask n)) [p] = Some ((name, now, line), []))"
proof -
  have m: "dst m = int g" "auto_delete m = autodelete" "timestamp m = now" "src_name m = name" "content m = line"
    using assms(3-5) ask_known [OF assms(1)] by (auto simp: send_round_def strcpy_to_def)
  let ?out = "map (\<lambda>c. m\<lparr>protocol := GROUP_MESSAGE, mtype := c + 5000\<rparr>) (member_ids g)"
  have "forward m = Inr (map Text ?out)" using forward_known [OF assms(1,2) m(1)] by (simp add: comp_def)
  moreover have "map mtype ?out = map (\<lambda>c. c + 5000) (member_ids g)" by simp
  moreover have "if 0 < autodelete \<and> autodelete < later - now then route_msg later m' = None
       else \<exists>p. route_msg later m' = Some p \<and> rcv_round (rcv_type Group_peer (ask n)) [p] = Some ((name, now, line), [])"
    if "m' \<in> set ?out" for m'
    using that m ask_known [OF assms(1)] by (auto simp: route_msg_def rcv_round_def rcv_msg_def rcv_type_def)
  ultimately show ?thesis by blast
qed

end

text \<open>The server gives this service, for consistent tables and groups with no more members than there are clients.\<close>

interpretation directory: group_service
  "\<lambda>n. hd (map get_id_answer (query_answers junk \<lparr>q_src = u, query_type = 2, q_content = n\<rparr> s))"
  "\<lambda>m. handle_group_msg m s"
  "\<lambda>n g. msg_ok s \<and> find_group_by_name n s = Some g \<and> n \<noteq> ''_ALL_''"
  "\<lambda>g. length (group_members (grps s ! g)) \<le> length (clients s)"
  "\<lambda>g. map (\<lambda>c. cid (clients s ! c)) (group_members (grps s ! g))" for junk u s
proof (unfold_locales, goal_cases)
  case (1 n g)
  then show ?case using get_gid_known [of s n g junk u] by simp
next
  case (2 n g m)
  then have "g < length (grps s)" using find_group_by_name_Some by blast
  with 2 group_msg_result [of s m] show ?case by (simp add: Let_def comp_def)
qed

section \<open>Answering queries\<close>

definition queries_of :: "packet list \<Rightarrow> query_request list" where
  "queries_of ps = concat (map (\<lambda>p. case p of Query q \<Rightarrow> [q] | _ \<Rightarrow> []) ps)"

definition queue_for :: "msg_server \<Rightarrow> query_request \<Rightarrow> int" where
  "queue_for s q = queue (clients s ! the (find_client_by_id (q_src q) s))"

definition answers_in :: "query_response \<Rightarrow> msg_server \<Rightarrow> query_request list \<Rightarrow> int \<Rightarrow> packet list" where
  "answers_in junk s qs c = concat (map (\<lambda>q. if queue_for s q = c then map Query_res (query_answers junk q s) else []) qs)"

definition can_answer :: "msg_server \<Rightarrow> packet \<Rightarrow> bool" where
  "can_answer s p \<longleftrightarrow> (packet_type p = QUERY_REQUEST \<longrightarrow> (\<exists>q. p = Query q \<and> find_client_by_id (q_src q) s \<noteq> None))"

lemma msgrcv_first:
  "\<forall>p \<in> set pre. packet_type p \<noteq> t \<Longrightarrow> packet_type p = t \<Longrightarrow> msgrcv t (pre @ p # post) = Some (p, pre @ post)"
  by (induction pre) auto

lemma handle_query_known:
  assumes "find_client_by_id (q_src q) s \<noteq> None"
  shows "handle_query junk q s = Inr (queue_for s q, query_answers junk q s)"
proof -
  obtain c where c: "find_client_by_id (q_src q) s = Some c" using assms by auto
  then have "c < length (clients s)" by (auto simp: find_client_by_id_def dest: first_index_Some)
  with c show ?thesis by (simp add: handle_query_def deref_def queue_for_def)
qed

lemma queries_of_simps [simp]:
  "queries_of [] = []" "queries_of (Query q # ps) = q # queries_of ps" "queries_of (xs @ ys) = queries_of xs @ queries_of ys"
  by (simp_all add: queries_of_def)

lemma no_queries: "\<forall>p \<in> set ps. packet_type p \<noteq> QUERY_REQUEST \<Longrightarrow> queries_of ps = []"
  by (auto simp: queries_of_def split: packet.splits)

lemma queries_answered:
  "n = length (queries_of (server_queue w)) \<Longrightarrow> \<forall>p \<in> set (server_queue w). can_answer (srv w) p \<Longrightarrow>
   \<exists>w'. rfold (server_event_step gq jn j jr) (replicate n (Handler Query_handler)) w = Inr w' \<and> srv w' = srv w \<and>
     server_queue w' = filter (\<lambda>p. packet_type p \<noteq> QUERY_REQUEST) (server_queue w) \<and>
     (\<forall>c. client_queues w' c = client_queues w c @ answers_in jr (srv w) (queries_of (server_queue w)) c)"
proof (induction n arbitrary: w)
  case 0
  have "filter (\<lambda>p. packet_type p \<noteq> QUERY_REQUEST) (server_queue w) = server_queue w"
    using 0 by (fastforce simp: filter_id_conv queries_of_def can_answer_def)
  with 0 show ?case by (simp add: answers_in_def)
next
  case (Suc n)
  have "\<exists>p \<in> set (server_queue w). packet_type p = QUERY_REQUEST"
    using Suc.prems(1) no_queries [of "server_queue w"] by (cases "queries_of (server_queue w)") auto
  then obtain pre p post where q: "server_queue w = pre @ p # post" "packet_type p = QUERY_REQUEST"
      "\<forall>x \<in> set pre. packet_type x \<noteq> QUERY_REQUEST"
    using split_list_first_propE [of "server_queue w" "\<lambda>p. packet_type p = QUERY_REQUEST"] by metis
  then obtain r where r: "p = Query r" "find_client_by_id (q_src r) (srv w) \<noteq> None"
    using Suc.prems(2) by (auto simp: can_answer_def)
  define w1 where "w1 = put_msgs (queue_for (srv w) r) (map Query_res (query_answers jr r (srv w))) (w\<lparr>server_queue := pre @ post\<rparr>)"
  have step: "server_event_step gq jn j jr (Handler Query_handler) w = Inr w1"
    using q r msgrcv_first [of pre 5 p post] handle_query_known [OF r(2)] by (simp add: w1_def)
  have w1: "srv w1 = srv w" "server_queue w1 = pre @ post"
      "client_queues w1 c = client_queues w c @ answers_in jr (srv w) [r] c" for c
    by (simp_all add: w1_def put_msgs_def answers_in_def)
  have qs: "queries_of (server_queue w) = r # queries_of (pre @ post)"
    using q(1) r(1) no_queries [OF q(3)] by simp
  have "\<forall>x \<in> set (server_queue w1). can_answer (srv w1) x" using Suc.prems(2) q(1) w1 by auto
  moreover have "n = length (queries_of (server_queue w1))" using Suc.prems(1) qs w1(2) by simp
  ultimately obtain w' where w': "rfold (server_event_step gq jn j jr) (replicate n (Handler Query_handler)) w1 = Inr w'"
      "srv w' = srv w1" "server_queue w' = filter (\<lambda>p. packet_type p \<noteq> QUERY_REQUEST) (server_queue w1)"
      "\<forall>c. client_queues w' c = client_queues w1 c @ answers_in jr (srv w1) (queries_of (server_queue w1)) c"
    using Suc.IH by blast
  have more: "answers_in jr s (r # rs) c = answers_in jr s [r] c @ answers_in jr s rs c" for s rs c by (simp add: answers_in_def)
  have run: "rfold (server_event_step gq jn j jr) (replicate (Suc n) (Handler Query_handler)) w = Inr w'"
    using w'(1) unfolding replicate_Suc rfold.simps step rbind_simps .
  have left: "filter (\<lambda>p. packet_type p \<noteq> QUERY_REQUEST) (server_queue w) = filter (\<lambda>p. packet_type p \<noteq> QUERY_REQUEST) (pre @ post)"
    using q(1,2) by simp
  have got: "client_queues w' c = client_queues w c @ answers_in jr (srv w) (queries_of (server_queue w)) c" for c
    using w'(4) unfolding w1 qs more [of _ "queries_of (pre @ post)"] by simp
  show ?case using run w'(2,3) w1(1,2) left got by (intro exI [of _ w'] conjI allI) simp_all
qed

section \<open>Properties\<close>



text \<open>
  C12: a line sent to a group reaches its members. The sender finds the number of the group by its name; the
  server sends the message once to every member; the router of each member puts it where the loop that reads
  this group finds it, with the sender's name and the line unchanged, unless its time has run out. The
  server crashes instead when the group has more members than the server has clients, since it prints the
  names of the wrong table; a client that joins again is counted again.
\<close>

theorem group_line_reaches_members:
  assumes "msg_ok s" "find_group_by_name gn s = Some g" "gn \<noteq> ''_ALL_''" "length gn < 128" "length name < 128"
    and "fgets 256 stdin = Some (line, rest)"
  shows "\<exists>query d m. get_id_query 2 uid gn = Inr query \<and> map get_id_answer (query_answers junk query s) = [d] \<and>
     send_round Group_peer uid name d autodelete now old stdin = Inr ([], Text m, line, rest) \<and>
     (let members = group_members (grps s ! g) in
      if length (clients s) < length members then handle_group_msg m s = Inl Null_deref
      else \<exists>out. handle_group_msg m s = Inr (map Text out) \<and>
        map mtype out = map (\<lambda>c. cid (clients s ! c) + 5000) members \<and>
        (\<forall>m' \<in> set out.
           if 0 < autodelete \<and> autodelete < later - now then route_msg later m' = None
           else \<exists>p. route_msg later m' = Some p \<and>
             rcv_round (rcv_type Group_peer d) [p] = Some ((name, now, line), [])))"
proof -
  let ?q = "\<lparr>q_src = uid, query_type = 2, q_content = gn\<rparr>"
  let ?m = "\<lparr>mtype = GROUP_MESSAGE, protocol = GROUP_MESSAGE, src = uid, dst = int g, auto_delete = autodelete,
      timestamp = now, src_name = name, content = line\<rparr>"
  let ?members = "group_members (grps s ! g)"
  have query: "get_id_query 2 uid gn = Inr ?q" using assms(4) by (simp add: get_id_query_def strcpy_to_def)
  note gid = get_gid_known [OF assms(1-3), of junk uid]
  have sent: "send_round Group_peer uid name (int g) autodelete now old stdin = Inr ([], Text ?m, line, rest)"
    using assms(5,6) by (simp add: send_round_def strcpy_to_def)
  show ?thesis
  proof (intro exI conjI)
    show "get_id_query 2 uid gn = Inr ?q" by (rule query)
    show "map get_id_answer (query_answers junk ?q s) = [int g]" by (rule gid)
    show "send_round Group_peer uid name (int g) autodelete now old stdin = Inr ([], Text ?m, line, rest)" by (rule sent)
    show "let members = ?members in
      if length (clients s) < length members then handle_group_msg ?m s = Inl Null_deref
      else \<exists>out. handle_group_msg ?m s = Inr (map Text out) \<and>
        map mtype out = map (\<lambda>c. cid (clients s ! c) + 5000) members \<and>
        (\<forall>m' \<in> set out.
           if 0 < autodelete \<and> autodelete < later - now then route_msg later m' = None
           else \<exists>p. route_msg later m' = Some p \<and>
             rcv_round (rcv_type Group_peer (int g)) [p] = Some ((name, now, line), []))"
    proof (cases "length (clients s) < length ?members")
      case True
      with group_msg_result [OF assms(1), of ?m] find_group_by_name_Some [OF assms(2)] show ?thesis by (simp add: Let_def)
    next
      case False
      have ask: "hd (map get_id_answer (query_answers junk ?q s)) = int g" unfolding gid by simp
      have "length ?members \<le> length (clients s)" using False by simp
      with assms sent have "\<exists>out. handle_group_msg ?m s = Inr (map Text out) \<and>
          map mtype out = map (\<lambda>c. c + 5000) (map (\<lambda>c. cid (clients s ! c)) ?members) \<and>
          (\<forall>m' \<in> set out.
             if 0 < autodelete \<and> autodelete < later - now then route_msg later m' = None
             else \<exists>p. route_msg later m' = Some p \<and>
               rcv_round (rcv_type Group_peer (int g)) [p] = Some ((name, now, line), []))"
        by (intro directory.line_delivered [of s gn g name stdin line rest uid junk uid autodelete now old "[]" ?m later, unfolded ask])
          (simp_all only: simp_thms)
      then show ?thesis unfolding Let_def if_not_P [OF False] map_map comp_def .
    qed
  qed
qed

theorem group_line_reaches_members_witness:
  "\<exists>query d m out. get_id_query 2 1000 ''os'' = Inr query \<and>
     map get_id_answer (query_answers \<lparr>q_status = 0, r_content = []\<rparr> query
       \<lparr>clients = [\<lparr>cid = 1000, cname = ''a'', queue_path = ''/'', queue = 7, num_groups = 1\<rparr>],
        grps = [\<lparr>gid = 0, grp_name = ''os'', num_clients = 1, members = [0 \<mapsto> 0]\<rparr>], next_group_id = 1\<rparr>) = [d] \<and>
     send_round Group_peer 1000 ''a'' d (-1) 50 [] (''hello'' @ [NL]) = Inr ([], Text m, ''hello'' @ [NL], []) \<and>
     handle_group_msg m \<lparr>clients = [\<lparr>cid = 1000, cname = ''a'', queue_path = ''/'', queue = 7, num_groups = 1\<rparr>],
        grps = [\<lparr>gid = 0, grp_name = ''os'', num_clients = 1, members = [0 \<mapsto> 0]\<rparr>], next_group_id = 1\<rparr> = Inr (map Text out) \<and>
     map mtype out = [6000] \<and>
     (\<forall>m' \<in> set out. \<exists>p. route_msg 60 m' = Some p \<and>
        rcv_round (rcv_type Group_peer d) [p] = Some ((''a'', 50, ''hello'' @ [NL]), []))"
proof -
  let ?s = "\<lparr>clients = [\<lparr>cid = 1000, cname = ''a'', queue_path = ''/'', queue = 7, num_groups = 1\<rparr>],
      grps = [\<lparr>gid = 0, grp_name = ''os'', num_clients = 1, members = [0 \<mapsto> 0]\<rparr>], next_group_id = 1\<rparr>"
  have "msg_ok ?s" by (simp add: msg_ok_def grp_ok_def)
  moreover have "find_group_by_name ''os'' ?s = Some 0" by (simp add: find_group_by_name_def)
  moreover have "fgets 256 (''hello'' @ [NL]) = Some (''hello'' @ [NL], [])" by code_simp
  moreover have "group_members (grps ?s ! 0) = [0]" by (simp add: group_members_def)
  ultimately show ?thesis
    using group_line_reaches_members [of ?s "''os''" 0 "''a''" "''hello'' @ [NL]" "''hello'' @ [NL]" "[]" 1000
        "\<lparr>q_status = 0, r_content = []\<rparr>" "-1" 50 "[]" 60]
    by (fastforce simp: Let_def)
qed

text \<open>
  C37: a line sent to a group that does not exist ends the server. The failed query gives the client the
  number -1, which it sends on; the server indexes its table of groups with it.
\<close>

theorem unknown_group_crashes_server:
  assumes "find_group_by_name gn s = None" "gn \<noteq> ''_ALL_''" "length gn < 128" "length name < 128"
  shows "\<exists>query d to_self m text rest. get_id_query 2 uid gn = Inr query \<and>
     map get_id_answer (query_answers junk query s) = [d] \<and>
     send_round Group_peer uid name d autodelete now old stdin = Inr (to_self, Text m, text, rest) \<and>
     handle_group_msg m s = Inl Out_of_bounds"
proof -
  have query: "get_id_query 2 uid gn = Inr \<lparr>q_src = uid, query_type = 2, q_content = gn\<rparr>"
    using assms(3) by (simp add: get_id_query_def strcpy_to_def)
  obtain line rest where lr: "(case fgets 256 stdin of None \<Rightarrow> (old, []) | Some r \<Rightarrow> r) = (line, rest)" by fastforce
  define m where "m = \<lparr>mtype = GROUP_MESSAGE, protocol = GROUP_MESSAGE, src = uid, dst = -1, auto_delete = autodelete,
      timestamp = now, src_name = name, content = line\<rparr>"
  have "send_round Group_peer uid name (-1) autodelete now old stdin = Inr ([], Text m, line, rest)"
    using assms(4) lr by (simp add: send_round_def strcpy_to_def m_def)
  moreover have "handle_group_msg m s = Inl Out_of_bounds"
    by (simp add: m_def handle_group_msg_def find_group_by_id_def elem_at_def)
  ultimately show ?thesis using query get_gid_unknown [OF assms(1,2)] by blast
qed

theorem unknown_group_crashes_server_witness:
  "\<exists>query d to_self m text rest. get_id_query 2 1000 ''os'' = Inr query \<and>
     map get_id_answer (query_answers \<lparr>q_status = 0, r_content = []\<rparr> query msg_init) = [d] \<and>
     send_round Group_peer 1000 ''a'' d (-1) 50 [] ''hello'' = Inr (to_self, Text m, text, rest) \<and>
     handle_group_msg m msg_init = Inl Out_of_bounds"
  by (rule unknown_group_crashes_server) (simp_all add: find_group_by_name_def msg_init_def)

text \<open>
  C18: no query stays unanswered. When every query in the server's queue comes from a registered client, as
  many runs of the query handler as there are queries take all of them and nothing else from the queue, and
  every client finds the answers to its queries, in their order, behind what its queue held.
\<close>

theorem queries_are_answered:
  assumes "\<forall>p \<in> set (server_queue w). can_answer (srv w) p"
  shows "\<exists>w'. rfold (server_event_step gq jn j jr)
        (replicate (length (queries_of (server_queue w))) (Handler Query_handler)) w = Inr w' \<and> srv w' = srv w \<and>
     server_queue w' = filter (\<lambda>p. packet_type p \<noteq> QUERY_REQUEST) (server_queue w) \<and>
     (\<forall>c. client_queues w' c = client_queues w c @ answers_in jr (srv w) (queries_of (server_queue w)) c)"
  using assms by (intro queries_answered) simp_all

theorem queries_are_answered_witness:
  "\<exists>w'. rfold (server_event_step (\<lambda>_. None) 0 0 \<lparr>q_status = 0, r_content = []\<rparr>) [Handler Query_handler]
      \<lparr>srv = \<lparr>clients = [\<lparr>cid = 1000, cname = ''a'', queue_path = ''/'', queue = 7, num_groups = 1\<rparr>], grps = [], next_group_id = 0\<rparr>,
       server_queue = [Query \<lparr>q_src = 1000, query_type = 1, q_content = ''a''\<rparr>], client_queues = (\<lambda>_. [])\<rparr> = Inr w' \<and>
     server_queue w' = [] \<and> client_queues w' 7 = [Query_res \<lparr>q_status = 200, r_content = ''1000''\<rparr>]"
proof -
  let ?w = "\<lparr>srv = \<lparr>clients = [\<lparr>cid = 1000, cname = ''a'', queue_path = ''/'', queue = 7, num_groups = 1\<rparr>], grps = [], next_group_id = 0\<rparr>,
      server_queue = [Query \<lparr>q_src = 1000, query_type = 1, q_content = ''a''\<rparr>], client_queues = (\<lambda>_. [])\<rparr>"
  let ?q = "\<lparr>q_src = 1000, query_type = 1, q_content = ''a''\<rparr>"
  have "\<forall>p \<in> set (server_queue ?w). can_answer (srv ?w) p" by (simp add: can_answer_def find_client_by_id_def)
  note all = queries_are_answered [OF this, of "\<lambda>_. None" 0 0 "\<lparr>q_status = 0, r_content = []\<rparr>"]
  have qs: "queries_of (server_queue ?w) = [?q]" by simp
  have "show_int 1000 = ''1000''" by code_simp
  then have "answers_in \<lparr>q_status = 0, r_content = []\<rparr> (srv ?w) [?q] 7 = [Query_res \<lparr>q_status = 200, r_content = ''1000''\<rparr>]"
    by (simp add: answers_in_def queue_for_def find_client_by_id_def query_answers_def find_client_by_name_def)
  with all show ?thesis unfolding qs by auto
qed

end
