(* ===== verification/Msg_Process.thy ===== *)
theory Msg_Process
  imports Msg_Client
begin

text \<open>
  Both programs of the message queue chat as processes: how they find their queues, and the client's \<open>main\<close>
  (\<open>assignment-1/q3/client.c\<close>) from its start to its end, from one \<open>msgrcv\<close> to the next, on the queues it
  shares with the server.
\<close>

section \<open>Files and queues\<close>

text \<open>
  What the system decides: which paths can be made, the key of a file and a number, and the queue of a key,
  with and without creating it. \<open>ftok\<close> of a path that does not exist is -1. The second argument of \<open>open\<close>,
  0777, creates a file that is not there.
\<close>

record system_calls =
  can_make :: "string \<Rightarrow> bool"
  file_key :: "string \<Rightarrow> int \<Rightarrow> int"
  msgget :: "int \<Rightarrow> bool \<Rightarrow> int"

definition ftok :: "system_calls \<Rightarrow> string set \<Rightarrow> string \<Rightarrow> int \<Rightarrow> int" where
  "ftok sys files path proj = (if path \<in> files then file_key sys path proj else -1)"

definition get_queue :: "system_calls \<Rightarrow> int \<Rightarrow> int" where
  "get_queue sys key = (let q = msgget sys key True in if q < 0 then msgget sys key False else q)"

definition make_with :: "system_calls \<Rightarrow> string \<Rightarrow> string \<Rightarrow> string set \<Rightarrow> string set" where
  "make_with sys dir path files =
     (if dir \<in> files \<or> \<not> can_make sys dir then files
      else if path \<in> files \<or> \<not> can_make sys path then insert dir files
      else insert path (insert dir files))"

definition try_init_dir :: "system_calls \<Rightarrow> string \<Rightarrow> string set \<Rightarrow> string set res" where
  "try_init_dir sys dir files =
     rbind (strcat_to 1024 dir ''/.simplemsg'') (\<lambda>dir.
     if dir \<in> files \<or> \<not> can_make sys dir then Inr files
     else
       rbind (strcpy_to 1024 dir) (\<lambda>control.
       rbind (strcat_to 1024 control ''/control.queue'') (\<lambda>control.
       Inr (make_with sys dir control files))))"

text \<open>The two queues and what the function returns; \<open>group_queue\<close> and \<open>private_queue\<close> stay 0.\<close>

definition init_connection ::
  "system_calls \<Rightarrow> string option \<Rightarrow> string set \<Rightarrow> (int \<times> (int \<times> int) \<times> string set) res" where
  "init_connection sys homedir files =
     rbind (deref homedir) (\<lambda>homedir.
     rbind (strcpy_to 1024 homedir) (\<lambda>target_dir.
     rbind (try_init_dir sys target_dir files) (\<lambda>files.
     rbind (strcpy_to 1024 (homedir @ ''/.simplemsg/control.queue'')) (\<lambda>client_queue_path.
     let sq = msgget sys (ftok sys files ''/tmp/simplemsg/server.queue'' 1) True in
     if sq < 0 then Inr (-1, (sq, 0), files)
     else
       let cq = get_queue sys (ftok sys files client_queue_path 0) in
       Inr (if cq < 0 then -1 else 0, (sq, cq), files)))))"

text \<open>The server's side: its directory, its queue, and the queue it takes for the path of a client.\<close>

definition init_dirs :: "system_calls \<Rightarrow> string set \<Rightarrow> string set" where
  "init_dirs sys files = make_with sys ''/tmp/simplemsg'' ''/tmp/simplemsg/server.queue'' files"

definition msg_server_start :: "system_calls \<Rightarrow> string set \<Rightarrow> (int \<times> string set) res" where
  "msg_server_start sys files =
     (let files = init_dirs sys files;
          sq = msgget sys (ftok sys files ''/tmp/simplemsg/server.queue'' 1) True
      in if sq < 0 then Inl (Exit_failure ''msgget'') else Inr (sq, files))"

definition server_get_queue :: "system_calls \<Rightarrow> int \<Rightarrow> int" where
  "server_get_queue sys key = (let q = msgget sys key True in if q < 0 then msgget sys key False else q)"

definition queue_at :: "system_calls \<Rightarrow> string set \<Rightarrow> string \<Rightarrow> int option" where
  "queue_at sys files path =
     (let q = server_get_queue sys (ftok sys files path 0) in if q < 0 then None else Some q)"

section \<open>The client\<close>

text \<open>Which \<open>msgrcv\<close> a client waits in, with what it still needs; or that it sends, or has returned.\<close>

datatype client_pc =
    Registering "string list"
  | Finding_to_join
  | Joining int
  | Creating
  | Finding_reader peer_kind
  | Finding_peer peer_kind int
  | Reading int
  | Sending peer_kind int int string
  | Listing
  | Returned int

text \<open>\<open>said\<close> are the lines sent, \<open>seen\<close> the messages shown, \<open>listed\<close> the answers printed.\<close>

record chat_client =
  user_id :: int
  user_name :: string
  own_queue :: int
  input :: string
  pc :: client_pc
  said :: "string list"
  seen :: "text_msg list"
  listed :: "string list"

text \<open>The memory a client sends or shows without having written it.\<close>

record junk_memory =
  junk_path :: string
  junk_name :: string
  junk_gid :: int
  junk_text :: string

definition send_server :: "packet \<Rightarrow> msg_world \<Rightarrow> msg_world" where
  "send_server p w = w\<lparr>server_queue := server_queue w @ [p]\<rparr>"

definition await :: "int \<Rightarrow> chat_client \<Rightarrow> msg_world \<Rightarrow> (packet \<times> msg_world) option" where
  "await t c w =
     map_option (\<lambda>(p, rest). (p, w\<lparr>client_queues := (client_queues w)(own_queue c := rest)\<rparr>))
       (msgrcv t (client_queues w (own_queue c)))"

definition query_kind :: "peer_kind \<Rightarrow> int" where
  "query_kind kind = (case kind of Client_peer \<Rightarrow> 1 | Group_peer \<Rightarrow> 2)"

definition list_request :: "int \<Rightarrow> int \<Rightarrow> query_request" where
  "list_request u kind = \<lparr>q_src = u, query_type = kind, q_content = ''_ALL_''\<rparr>"

text \<open>What \<open>main\<close> does after registering, up to the next message it waits for.\<close>

fun begin_cmd :: "junk_memory \<Rightarrow> client_cmd \<Rightarrow> chat_client \<Rightarrow> msg_world \<Rightarrow> (chat_client \<times> msg_world) res" where
  "begin_cmd jk (Do_join n) c w =
     rbind (get_id_query 2 (user_id c) n) (\<lambda>q. Inr (c\<lparr>pc := Finding_to_join\<rparr>, send_server (Query q) w))"
| "begin_cmd jk (Do_create n) c w =
     rbind (create_request (junk_path jk) (junk_gid jk) (user_id c) n) (\<lambda>r.
     Inr (c\<lparr>pc := Creating\<rparr>, send_server (Control r) w))"
| "begin_cmd jk (Do_read kind n) c w =
     rbind (get_id_query (query_kind kind) (user_id c) n) (\<lambda>q.
     Inr (c\<lparr>pc := Finding_reader kind\<rparr>, send_server (Query q) w))"
| "begin_cmd jk (Do_send kind n autodelete) c w =
     rbind (get_id_query (query_kind kind) (user_id c) n) (\<lambda>q.
     Inr (c\<lparr>pc := Finding_peer kind autodelete\<rparr>, send_server (Query q) w))"
| "begin_cmd jk (Do_list kind) c w = Inr (c\<lparr>pc := Listing\<rparr>, send_server (Query (list_request (user_id c) kind)) w)"
| "begin_cmd jk Show_usage c w = Inr (c\<lparr>pc := Returned (-1)\<rparr>, w)"
| "begin_cmd jk Do_nothing c w = Inr (c\<lparr>pc := Returned 0\<rparr>, w)"

text \<open>\<open>main\<close> up to the answer it waits for in \<open>register_self\<close>; what \<open>init_connection\<close> returns is not looked at.\<close>

definition client_start ::
  "system_calls \<Rightarrow> junk_memory \<Rightarrow> int \<Rightarrow> string \<Rightarrow> string option \<Rightarrow> string list \<Rightarrow> string \<Rightarrow>
   string set \<times> msg_world \<Rightarrow> (chat_client \<times> string set \<times> msg_world) res" where
  "client_start sys jk u name homedir args stdin = (\<lambda>(files, w).
     rbind (strcpy_to 1024 name) (\<lambda>name.
     rbind (init_connection sys homedir files) (\<lambda>(_, (sq, cq), files).
     rbind (deref homedir) (\<lambda>homedir.
     rbind (strcpy_to 1024 (homedir @ ''/.simplemsg'')) (\<lambda>target_dir.
     rbind (register_request (junk_gid jk) u name target_dir) (\<lambda>req.
     let c = \<lparr>user_id = u, user_name = name, own_queue = cq, input = stdin, pc = Returned (-1),
              said = [], seen = [], listed = []\<rparr>
     in Inr (
       if sq < 0 then (c, files, w)
       else if cq < 0 then (c, files, send_server (Control req) w)
       else (c\<lparr>pc := Registering args\<rparr>, files, send_server (Control req) w))))))))"

text \<open>What a client does with the next message it waits for; without one it goes on waiting.\<close>

definition chat_client_step :: "junk_memory \<Rightarrow> int \<Rightarrow> chat_client \<Rightarrow> msg_world \<Rightarrow> (chat_client \<times> msg_world) res" where
  "chat_client_step jk now c w =
     (case pc c of
        Registering args \<Rightarrow>
          (case await CONTROL_RESPONSE c w of
             Some (Control_res r, w) \<Rightarrow>
               if register_answer r < 0 then Inr (c\<lparr>pc := Returned (-1)\<rparr>, w)
               else rbind (client_main args) (\<lambda>cmd. begin_cmd jk cmd c w)
           | _ \<Rightarrow> Inr (c, w))
      | Finding_to_join \<Rightarrow>
          (case await QUERY_RESPONSE c w of
             Some (Query_res r, w) \<Rightarrow>
               (case join_request (junk_path jk, junk_name jk) (user_id c) (get_id_answer r) of
                  None \<Rightarrow> Inr (c\<lparr>pc := Returned (-1)\<rparr>, w)
                | Some req \<Rightarrow> Inr (c\<lparr>pc := Joining (get_id_answer r)\<rparr>, send_server (Control req) w))
           | _ \<Rightarrow> Inr (c, w))
      | Joining g \<Rightarrow>
          (case await CONTROL_RESPONSE c w of
             Some (Control_res r, w) \<Rightarrow> Inr (c\<lparr>pc := Returned (if join_answer g r < 0 then -1 else 0)\<rparr>, w)
           | _ \<Rightarrow> Inr (c, w))
      | Creating \<Rightarrow>
          (case await CONTROL_RESPONSE c w of
             Some (Control_res r, w) \<Rightarrow> Inr (c\<lparr>pc := Returned (if create_answer r < 0 then -1 else 0)\<rparr>, w)
           | _ \<Rightarrow> Inr (c, w))
      | Finding_reader kind \<Rightarrow>
          (case await QUERY_RESPONSE c w of
             Some (Query_res r, w) \<Rightarrow> Inr (c\<lparr>pc := Reading (rcv_type kind (get_id_answer r))\<rparr>, w)
           | _ \<Rightarrow> Inr (c, w))
      | Finding_peer kind autodelete \<Rightarrow>
          (case await QUERY_RESPONSE c w of
             Some (Query_res r, w) \<Rightarrow> Inr (c\<lparr>pc := Sending kind (get_id_answer r) autodelete (junk_text jk)\<rparr>, w)
           | _ \<Rightarrow> Inr (c, w))
      | Reading t \<Rightarrow>
          (case rcv_msg t (client_queues w (own_queue c)) of
             Some (m, rest) \<Rightarrow>
               Inr (c\<lparr>seen := seen c @ [m]\<rparr>, w\<lparr>client_queues := (client_queues w)(own_queue c := rest)\<rparr>)
           | None \<Rightarrow> Inr (c, w))
      | Sending kind d autodelete old \<Rightarrow>
          rbind (send_round kind (user_id c) (user_name c) d autodelete now old (input c)) (\<lambda>(own, p, line, rest).
          Inr (c\<lparr>pc := Sending kind d autodelete line, input := rest, said := said c @ [line]\<rparr>,
               send_server p (put_msgs (own_queue c) own w)))
      | Listing \<Rightarrow>
          (case await QUERY_RESPONSE c w of
             Some (Query_res r, w) \<Rightarrow>
               if r_content r = ''_END_'' then Inr (c\<lparr>pc := Returned 0\<rparr>, w)
               else Inr (c\<lparr>listed := listed c @ [r_content r]\<rparr>, w)
           | _ \<Rightarrow> Inr (c, w))
      | Returned _ \<Rightarrow> Inr (c, w))"

text \<open>The thread \<open>handle_messages\<close> of a client, which only a client that reads has started.\<close>

definition routing :: "chat_client \<Rightarrow> bool" where
  "routing c = (case pc c of Reading _ \<Rightarrow> True | _ \<Rightarrow> False)"

section \<open>Registering\<close>

lemma queue_paths_agree:
  "append_trailing_slash (h @ ''/.simplemsg'') =
     (if length h \<le> 115 then Inr (h @ ''/.simplemsg/'') else Inl Buffer_overflow)"
  "length h \<le> 115 \<Longrightarrow> strcat_to 1024 (h @ ''/.simplemsg/'') ''control.queue'' = Inr (h @ ''/.simplemsg/control.queue'')"
  by (simp_all add: append_trailing_slash_def strcat_to_def strcpy_to_def)

lemma queue_at_own: "0 \<le> get_queue sys (ftok sys files path 0) \<Longrightarrow>
   queue_at sys files path = Some (get_queue sys (ftok sys files path 0))"
  by (simp add: queue_at_def get_queue_def server_get_queue_def Let_def)

text \<open>What a client that waits to be registered has done.\<close>

lemma client_start_registering:
  assumes "client_start sys jk u name (Some h) args stdin (files, w) = Inr (c, files', w')" "pc c = Registering args"
  shows "length h \<le> 116" "length name < 128" "user_id c = u" "0 \<le> own_queue c"
    and "own_queue c = get_queue sys (ftok sys files' (h @ ''/.simplemsg/control.queue'') 0)"
    and "w' = send_server (Control \<lparr>queuepath = h @ ''/.simplemsg'', c_name = name, action = 1, c_src = u, c_gid = junk_gid jk\<rparr>) w"
proof -
  let ?c = "\<lambda>cq. \<lparr>user_id = u, user_name = name, own_queue = cq, input = stdin, pc = Returned (-1), said = [], seen = [], listed = []\<rparr>"
  from assms(1) obtain st sq cq files1 req where
    i: "init_connection sys (Some h) files = Inr (st, (sq, cq), files1)"
    and r: "register_request (junk_gid jk) u name (h @ ''/.simplemsg'') = Inr req"
    and res: "(if sq < 0 then (?c cq, files1, w) else if cq < 0 then (?c cq, files1, send_server (Control req) w)
       else ((?c cq)\<lparr>pc := Registering args\<rparr>, files1, send_server (Control req) w)) = (c, files', w')"
    by (force simp: client_start_def deref_def strcpy_to_def rbind_Inr_iff Let_def split: if_split_asm)
  have q: "\<not> sq < 0" "\<not> cq < 0" using res assms(2) by (auto split: if_splits)
  with res have c: "own_queue c = cq" "user_id c = u" and w': "w' = send_server (Control req) w" and f: "files' = files1" by auto
  show "length h \<le> 116" "length name < 128" using r by (auto simp: register_request_def strcpy_to_def rbind_Inr_iff split: if_splits)
  show "user_id c = u" "0 \<le> own_queue c" using c q by auto
  show "own_queue c = get_queue sys (ftok sys files' (h @ ''/.simplemsg/control.queue'') 0)"
    using i q(1) c(1) f by (auto simp: init_connection_def deref_def strcpy_to_def rbind_Inr_iff Let_def split: if_splits)
  show "w' = send_server (Control \<lparr>queuepath = h @ ''/.simplemsg'', c_name = name, action = 1, c_src = u, c_gid = junk_gid jk\<rparr>) w"
    using r w' by (auto simp: register_request_def strcpy_to_def rbind_Inr_iff split: if_splits)
qed

lemma find_new_client:
  "find_client_by_id u s = None \<Longrightarrow> cid c = u \<Longrightarrow> find_client_by_id u (s\<lparr>clients := clients s @ [c]\<rparr>) = Some (length (clients s))"
  unfolding find_client_by_id_def first_index_None by (intro first_index_unique) (auto simp: nth_append)

section \<open>Properties\<close>

text \<open>
  C21: both programs find the same queue. A client that waits to be registered has a home directory of at most
  116 characters and has sent its directory; unless it has exactly 116, for which the slash the server
  appends does not fit, the server takes, for the path it builds, the queue the client waits at, enters the
  client with it at the end of its table and answers there.
\<close>

theorem queues_agree:
  assumes "client_start sys jk u name (Some h) args stdin (files, w) = Inr (c, files', w')" "pc c = Registering args"
    and "find_client_by_id u s = None" "length (clients s) < 1024"
  shows "\<exists>r. w' = send_server (Control r) w \<and> length h \<le> 116 \<and>
     handle_control (queue_at sys files') jn j r s =
       (if length h = 116 then Inl Buffer_overflow
        else Inr ((own_queue c, \<lparr>r_action = 1, c_status = STATUS_OK, r_gid = j\<rparr>),
          s\<lparr>clients := clients s @ [\<lparr>cid = u, cname = name, queue_path = h @ ''/.simplemsg/'', queue = own_queue c, num_groups = 0\<rparr>]\<rparr>))"
proof (intro exI conjI)
  note c = client_start_registering [OF assms(1,2)]
  let ?r = "\<lparr>queuepath = h @ ''/.simplemsg'', c_name = name, action = 1, c_src = u, c_gid = junk_gid jk\<rparr>"
  let ?c = "\<lparr>cid = u, cname = name, queue_path = h @ ''/.simplemsg/'', queue = own_queue c, num_groups = 0\<rparr>"
  show "w' = send_server (Control ?r) w" "length h \<le> 116" by (fact c)+
  show "handle_control (queue_at sys files') jn j ?r s =
      (if length h = 116 then Inl Buffer_overflow
       else Inr ((own_queue c, \<lparr>r_action = 1, c_status = STATUS_OK, r_gid = j\<rparr>), s\<lparr>clients := clients s @ [?c]\<rparr>))"
  proof (cases "length h = 116")
    case True
    then show ?thesis using assms(3)
      by (simp add: handle_control_def control_action_def register_client_def queue_paths_agree)
  next
    case False
    with c(1) have h: "length h \<le> 115" by simp
    have q: "queue_at sys files' (h @ ''/.simplemsg/control.queue'') = Some (own_queue c)"
      using queue_at_own c(4) unfolding c(5) by blast
    have "register_client (queue_at sys files') u name (h @ ''/.simplemsg'') s =
        Inr (Some (length (clients s)), s\<lparr>clients := clients s @ [?c]\<rparr>)"
      using assms(3,4) h c(2) q by (simp add: register_client_def queue_paths_agree new_client_def strcpy_to_def)
    with False find_new_client [OF assms(3), of ?c] show ?thesis
      by (simp add: handle_control_def control_action_def deref_def elem_at_def nth_append)
  qed
qed

theorem queues_agree_witness:
  "\<exists>c files' w' r. client_start \<lparr>can_make = (\<lambda>_. True), file_key = (\<lambda>p _. int (length p)), msgget = (\<lambda>k _. k)\<rparr>
       \<lparr>junk_path = [], junk_name = [], junk_gid = 0, junk_text = []\<rparr> 1000 ''a'' (Some ''/h'') [''list'', ''group''] []
       ({''/tmp/simplemsg/server.queue''}, \<lparr>srv = msg_init, server_queue = [], client_queues = (\<lambda>_. [])\<rparr>) = Inr (c, files', w') \<and>
     own_queue c = 27 \<and> w' = send_server (Control r) \<lparr>srv = msg_init, server_queue = [], client_queues = (\<lambda>_. [])\<rparr> \<and>
     handle_control (queue_at \<lparr>can_make = (\<lambda>_. True), file_key = (\<lambda>p _. int (length p)), msgget = (\<lambda>k _. k)\<rparr> files') 0 0 r msg_init =
       Inr ((27, \<lparr>r_action = 1, c_status = 200, r_gid = 0\<rparr>),
         \<lparr>clients = [\<lparr>cid = 1000, cname = ''a'', queue_path = ''/h/.simplemsg/'', queue = 27, num_groups = 0\<rparr>], grps = [], next_group_id = 0\<rparr>)"
proof -
  let ?sys = "\<lparr>can_make = (\<lambda>_. True), file_key = (\<lambda>p _. int (length p)), msgget = (\<lambda>k _. k)\<rparr>"
  let ?w = "\<lparr>srv = msg_init, server_queue = [], client_queues = (\<lambda>_. [])\<rparr>"
  let ?files = "{''/h/.simplemsg/control.queue'', ''/h/.simplemsg'', ''/tmp/simplemsg/server.queue''}"
  let ?c = "\<lparr>user_id = 1000, user_name = ''a'', own_queue = 27, input = [], pc = Registering [''list'', ''group''],
      said = [], seen = [], listed = []\<rparr>"
  obtain w' where start: "client_start ?sys \<lparr>junk_path = [], junk_name = [], junk_gid = 0, junk_text = []\<rparr> 1000 ''a'' (Some ''/h'')
      [''list'', ''group''] [] ({''/tmp/simplemsg/server.queue''}, ?w) = Inr (?c, ?files, w')"
    by (simp add: client_start_def init_connection_def deref_def strcpy_to_def strcat_to_def try_init_dir_def make_with_def
        ftok_def get_queue_def register_request_def)
  from queues_agree [OF start, of msg_init 0 0] obtain r where r: "w' = send_server (Control r) ?w"
    "handle_control (queue_at ?sys ?files) 0 0 r msg_init = Inr ((27, \<lparr>r_action = 1, c_status = 200, r_gid = 0\<rparr>),
       msg_init\<lparr>clients := clients msg_init @ [\<lparr>cid = 1000, cname = ''a'', queue_path = ''/h/.simplemsg/'', queue = 27, num_groups = 0\<rparr>]\<rparr>)"
    by (auto simp: find_client_by_id_def msg_init_def)
  show ?thesis using start r by (intro exI [of _ ?c] exI [of _ ?files] exI [of _ w'] exI [of _ r]) (simp add: msg_init_def)
qed

end
