(* ===== verification/Msg_System.thy ===== *)
theory Msg_System
  imports Msg_Process
begin

text \<open>
  The server of the message queue chat, any number of clients and the queues between them
  (\<open>assignment-1/q3/server.c\<close>, \<open>client.c\<close>). An event lets a handler of the server, a client or the thread of a
  reading client run once; the theorems hold for every order of events.
\<close>

section \<open>Events\<close>

record chat_system =
  world :: msg_world
  procs :: "nat \<Rightarrow> chat_client"

text \<open>The queue of a path, and the uninitialised memory.\<close>

record chat_env =
  path_queue :: "string \<Rightarrow> int option"
  junk_count :: int
  junk_group :: int
  junk_res :: query_response
  client_junk :: junk_memory

datatype chat_event =
    Serves handler_id
  | Steps nat int
  | Routes nat int

fun queue_chat_step :: "chat_env \<Rightarrow> chat_event \<Rightarrow> chat_system \<Rightarrow> chat_system res" where
  "queue_chat_step env (Serves h) s =
     rbind (server_step (path_queue env) (junk_count env) (junk_group env) (junk_res env) h (world s)) (\<lambda>w.
     Inr (s\<lparr>world := w\<rparr>))"
| "queue_chat_step env (Steps p now) s =
     rbind (chat_client_step (client_junk env) now (procs s p) (world s)) (\<lambda>(c, w).
     Inr (s\<lparr>world := w, procs := (procs s)(p := c)\<rparr>))"
| "queue_chat_step env (Routes p now) s =
     Inr (if routing (procs s p)
          then s\<lparr>world := router_step (user_id (procs s p)) (own_queue (procs s p)) now (world s)\<rparr>
          else s)"

abbreviation queue_chat_run :: "chat_env \<Rightarrow> chat_event list \<Rightarrow> chat_system \<Rightarrow> chat_system res" where
  "queue_chat_run env \<equiv> rfold (queue_chat_step env)"

section \<open>Queues by type\<close>

definition of_type :: "int \<Rightarrow> packet list \<Rightarrow> packet list" where
  "of_type t = filter (\<lambda>p. packet_type p = t)"

lemma of_type_simps [simp]:
  "of_type t [] = []"
  "of_type t (p # ps) = (if packet_type p = t then p # of_type t ps else of_type t ps)"
  "of_type t (ps @ qs) = of_type t ps @ of_type t qs"
  by (simp_all add: of_type_def)

lemma of_type_other: "\<forall>p \<in> set ps. packet_type p \<noteq> t \<Longrightarrow> of_type t ps = []"
  by (simp add: of_type_def)


lemma msgrcv_same: "msgrcv t ps = Some (p, rest) \<Longrightarrow> of_type t ps = p # of_type t rest"
  by (induction ps arbitrary: rest) (auto split: if_splits)

lemma msgrcv_other: "msgrcv t ps = Some (p, rest) \<Longrightarrow> u \<noteq> t \<Longrightarrow> of_type u rest = of_type u ps"
  by (induction ps arbitrary: rest) (auto split: if_splits)

lemma msgrcv_None: "msgrcv t ps = None \<longleftrightarrow> of_type t ps = []"
  by (induction ps) auto

section \<open>A private conversation\<close>



definition texts :: "(text_msg \<Rightarrow> bool) \<Rightarrow> packet list \<Rightarrow> string list" where
  "texts P ps = concat (map (\<lambda>p. case p of Text m \<Rightarrow> if P m then [content m] else [] | _ \<Rightarrow> []) ps)"

lemma texts_simps [simp]:
  "texts P [] = []"
  "texts P (Text m # ps) = (if P m then content m # texts P ps else texts P ps)"
  "texts P (ps @ qs) = texts P ps @ texts P qs"
  by (simp_all add: texts_def)


lemma texts_Cons: "texts P (p # ps) = texts P [p] @ texts P ps"
  by (simp add: texts_def)






section \<open>The server and the routers\<close>














section \<open>The clients\<close>






section \<open>A conversation\<close>















section \<open>Delivery\<close>









section \<open>Joining a group\<close>

lemma msgrcv_only:
  assumes "of_type t ps = [p]"
  obtains rest where "msgrcv t ps = Some (p, rest)" "of_type t rest = []" "\<And>u. u \<noteq> t \<Longrightarrow> of_type u rest = of_type u ps"
proof -
  have "msgrcv t ps \<noteq> None" using assms by (simp add: msgrcv_None)
  then obtain x rest where x: "msgrcv t ps = Some (x, rest)" by auto
  from msgrcv_same [OF x] msgrcv_other [OF x] assms x show ?thesis by (intro that [of rest]) simp_all
qed

lemma find_client_registered:
  "find_client_by_id u s = Some c \<Longrightarrow> c < length (clients s) \<and> elem_at (clients s) (int c) = Inr (clients s ! c) \<and> cid (clients s ! c) = u"
  by (auto simp: find_client_by_id_def elem_at_def dest: first_index_Some)

text \<open>The server's answer to a request to join.\<close>

lemma handle_join:
  assumes s: "msg_ok s" and c: "find_client_by_id u s = Some c" and g: "g < length (grps s)"
  defines "ms \<equiv> group_members (grps s ! g)"
  shows "if length ms = 1024
     then handle_control gq jn j \<lparr>queuepath = x, c_name = y, action = 2, c_src = u, c_gid = int g\<rparr> s = Inl Out_of_bounds
     else \<exists>s'. handle_control gq jn j \<lparr>queuepath = x, c_name = y, action = 2, c_src = u, c_gid = int g\<rparr> s =
         Inr ((queue (clients s ! c), \<lparr>r_action = 2, c_status = STATUS_OK, r_gid = j\<rparr>), s') \<and>
       group_members (grps s' ! g) = ms @ [c]"
proof -
  let ?g = "grps s ! g" and ?c = "clients s ! c"
  note ci = find_client_registered [OF c]
  have grp: "find_group_by_id (int g) s = Inr (Some g)" using find_group_index [OF s, of "int g"] g by simp
  have n: "0 \<le> num_clients ?g" "num_clients ?g \<le> 1024" using s g by (auto simp: msg_ok_def grp_ok_def)
  have len: "length ms = nat (num_clients ?g)" by (simp add: ms_def group_members_def)
  show ?thesis
  proof (cases "num_clients ?g = 1024")
    case True
    with ci g grp c len show ?thesis
      by (simp add: handle_control_def control_action_def join_group_def deref_def elem_at_def)
  next
    case False
    define s' where "s' = s\<lparr>clients := (clients s)[c := ?c\<lparr>num_groups := num_groups ?c + 1\<rparr>],
        grps := (grps s)[g := ?g\<lparr>members := (members ?g)(nat (num_clients ?g) \<mapsto> c), num_clients := num_clients ?g + 1\<rparr>]\<rparr>"
    have join: "join_group (Some g) (Some c) s = Inr (gid ?g, s')"
      using ci g n False by (simp add: join_group_def deref_def elem_at_def s'_def)
    have "map cid (clients s') = map cid (clients s)" using ci by (simp add: s'_def map_update_same)
    then have "find_client_by_id u s' = Some c"
      using c unfolding find_client_by_id_def first_index_map [of "\<lambda>i. i = u" cid] by simp
    moreover have "queue (clients s' ! c) = queue ?c" "c < length (clients s')" using ci by (simp_all add: s'_def)
    ultimately have "handle_control gq jn j \<lparr>queuepath = x, c_name = y, action = 2, c_src = u, c_gid = int g\<rparr> s =
        Inr ((queue ?c, \<lparr>r_action = 2, c_status = STATUS_OK, r_gid = j\<rparr>), s')"
      using grp join c by (simp add: handle_control_def control_action_def deref_def elem_at_def)
    moreover have "group_members (grps s' ! g) = ms @ [c]"
    proof -
      have "nat (num_clients ?g + 1) = Suc (nat (num_clients ?g))" using n by simp
      then show ?thesis using g by (simp add: s'_def ms_def group_members_def)
    qed
    moreover have "length ms \<noteq> 1024" using False n len by (simp add: nat_eq_iff)
    ultimately show ?thesis by auto
  qed
qed

text \<open>A client whose registration has been accepted and that is about to ask for a group to join.\<close>

definition about_to_join :: "string \<Rightarrow> nat \<Rightarrow> nat \<Rightarrow> chat_system \<Rightarrow> bool" where
  "about_to_join n p c s \<longleftrightarrow>
     (let u = procs s p; w = world s; q = client_queues w (own_queue u) in
      msg_ok (srv w) \<and> pc u = Registering [''join-group'', n] \<and>
      (\<exists>r. of_type CONTROL_RESPONSE q = [Control_res r] \<and> c_status r = STATUS_OK) \<and> of_type QUERY_RESPONSE q = [] \<and>
      of_type QUERY_REQUEST (server_queue w) = [] \<and> of_type CONTROL (server_queue w) = [] \<and>
      find_client_by_id (user_id u) (srv w) = Some c \<and> queue (clients (srv w) ! c) = own_queue u)"

text \<open>The group has been asked for and the query answered.\<close>

lemma join_asks:
  assumes a: "about_to_join n p c s" and n: "n \<noteq> ''_ALL_''" "length n < 128"
  obtains s' ans where "queue_chat_run env [Steps p t, Serves Query_handler] s = Inr s'" "srv (world s') = srv (world s)"
    "procs s' = (procs s)(p := (procs s p)\<lparr>pc := Finding_to_join\<rparr>)"
    "of_type QUERY_RESPONSE (client_queues (world s') (own_queue (procs s p))) = [Query_res ans]"
    "of_type CONTROL_RESPONSE (client_queues (world s') (own_queue (procs s p))) = []"
    "of_type CONTROL (server_queue (world s')) = []"
    "get_id_answer ans = (case find_group_by_name n (srv (world s)) of None \<Rightarrow> -1 | Some g \<Rightarrow> int g)"
proof -
  let ?u = "procs s p" and ?w = "world s"
  let ?k = "own_queue ?u" and ?x = "\<lparr>q_src = user_id ?u, query_type = 2, q_content = n\<rparr>"
  from a obtain r where r: "of_type CONTROL_RESPONSE (client_queues ?w ?k) = [Control_res r]" "c_status r = STATUS_OK"
    and pc: "pc ?u = Registering [''join-group'', n]" and sq: "of_type QUERY_REQUEST (server_queue ?w) = []" "of_type CONTROL (server_queue ?w) = []"
    and cq: "of_type QUERY_RESPONSE (client_queues ?w ?k) = []" and ok: "msg_ok (srv ?w)"
    and c: "find_client_by_id (user_id ?u) (srv ?w) = Some c" "queue (clients (srv ?w) ! c) = ?k"
    by (auto simp: about_to_join_def Let_def)
  obtain rest where rest: "msgrcv CONTROL_RESPONSE (client_queues ?w ?k) = Some (Control_res r, rest)"
    "of_type CONTROL_RESPONSE rest = []" "\<And>u. u \<noteq> CONTROL_RESPONSE \<Longrightarrow> of_type u rest = of_type u (client_queues ?w ?k)"
    by (rule msgrcv_only [OF r(1)]) (rule that)
  define w1 where "w1 = send_server (Query ?x) (?w\<lparr>client_queues := (client_queues ?w)(?k := rest)\<rparr>)"
  define s1 where "s1 = s\<lparr>world := w1, procs := (procs s)(p := ?u\<lparr>pc := Finding_to_join\<rparr>)\<rparr>"
  have "client_main [''join-group'', n] = Inr (Do_join n)" using n(2) by (simp add: client_main_def strcpy_to_def)
  then have step1: "queue_chat_step env (Steps p t) s = Inr s1"
    using rest(1) r(2) n(2) pc
    by (simp add: chat_client_step_def await_def register_answer_def get_id_query_def strcpy_to_def s1_def w1_def)
  have "of_type QUERY_REQUEST (server_queue w1) = [Query ?x]" using sq by (simp add: w1_def send_server_def)
  from msgrcv_only [OF this] obtain sq2 where sq2: "msgrcv QUERY_REQUEST (server_queue w1) = Some (Query ?x, sq2)"
    "\<And>u. u \<noteq> QUERY_REQUEST \<Longrightarrow> of_type u sq2 = of_type u (server_queue w1)" by blast
  obtain ans where ans: "query_answers (junk_res env) ?x (srv ?w) = [ans]"
    "get_id_answer ans = (case find_group_by_name n (srv ?w) of None \<Rightarrow> -1 | Some g \<Rightarrow> int g)"
    using get_gid_known [OF ok _ n(1), of _ "junk_res env" "user_id ?u"] get_gid_unknown [OF _ n(1), of "srv ?w" "junk_res env" "user_id ?u"]
    by (cases "find_group_by_name n (srv ?w)") auto
  have h: "handle_query (junk_res env) ?x (srv ?w) = Inr (?k, [ans])"
    using handle_query_known [of ?x "srv ?w" "junk_res env"] c ans(1) by (simp add: queue_for_def)
  define s2 where "s2 = s1\<lparr>world := put_msgs ?k [Query_res ans] (w1\<lparr>server_queue := sq2\<rparr>)\<rparr>"
  have "queue_chat_step env (Serves Query_handler) s1 = Inr s2"
    using sq2(1) h by (simp add: s2_def s1_def w1_def send_server_def)
  with step1 have "queue_chat_run env [Steps p t, Serves Query_handler] s = Inr s2" by simp
  then show ?thesis
    using rest cq sq sq2(2) [of CONTROL] ans(2)
    by (intro that [of s2 ans]) (simp_all add: s2_def s1_def w1_def send_server_def put_msgs_def)
qed

text \<open>What becomes of the answer to the query: the client returns, or joins the group whose number it has been given.\<close>

lemma join_unknown:
  assumes "pc (procs s p) = Finding_to_join"
    and "of_type QUERY_RESPONSE (client_queues (world s) (own_queue (procs s p))) = [Query_res ans]"
  shows "get_id_answer ans = -1 \<Longrightarrow>
     \<exists>s'. queue_chat_step env (Steps p t) s = Inr s' \<and> pc (procs s' p) = Returned (-1) \<and> srv (world s') = srv (world s)"
proof -
  assume "get_id_answer ans = -1"
  moreover obtain rest where "msgrcv QUERY_RESPONSE (client_queues (world s) (own_queue (procs s p))) = Some (Query_res ans, rest)"
    by (rule msgrcv_only [OF assms(2)]) (rule that)
  ultimately show ?thesis using assms(1) by (simp add: chat_client_step_def await_def join_request_def)
qed

lemma join_requests:
  assumes "pc (procs s p) = Finding_to_join" "get_id_answer ans = int g"
    and "of_type QUERY_RESPONSE (client_queues (world s) (own_queue (procs s p))) = [Query_res ans]"
    and "of_type CONTROL (server_queue (world s)) = []"
  obtains s' sq where "queue_chat_step env (Steps p t) s = Inr s'" "srv (world s') = srv (world s)"
    "procs s' = (procs s)(p := (procs s p)\<lparr>pc := Joining (int g)\<rparr>)"
    "msgrcv CONTROL (server_queue (world s')) =
       Some (Control \<lparr>queuepath = junk_path (client_junk env), c_name = junk_name (client_junk env), action = 2,
         c_src = user_id (procs s p), c_gid = int g\<rparr>, sq)"
    "of_type CONTROL_RESPONSE (client_queues (world s') (own_queue (procs s p))) =
       of_type CONTROL_RESPONSE (client_queues (world s) (own_queue (procs s p)))"
proof -
  let ?u = "procs s p" and ?k = "own_queue (procs s p)"
  let ?req = "\<lparr>queuepath = junk_path (client_junk env), c_name = junk_name (client_junk env), action = 2, c_src = user_id ?u, c_gid = int g\<rparr>"
  obtain rest where rest: "msgrcv QUERY_RESPONSE (client_queues (world s) ?k) = Some (Query_res ans, rest)"
    "\<And>u. u \<noteq> QUERY_RESPONSE \<Longrightarrow> of_type u rest = of_type u (client_queues (world s) ?k)"
    by (rule msgrcv_only [OF assms(3)]) (rule that)
  define w' where "w' = send_server (Control ?req) ((world s)\<lparr>client_queues := (client_queues (world s))(?k := rest)\<rparr>)"
  let ?s = "s\<lparr>world := w', procs := (procs s)(p := ?u\<lparr>pc := Joining (int g)\<rparr>)\<rparr>"
  have "queue_chat_step env (Steps p t) s = Inr ?s"
    using rest(1) assms(1,2) by (simp add: chat_client_step_def await_def join_request_def w'_def)
  moreover have "of_type CONTROL (server_queue w') = [Control ?req]" using assms(4) by (simp add: w'_def send_server_def)
  from msgrcv_only [OF this] obtain sq where "msgrcv CONTROL (server_queue w') = Some (Control ?req, sq)" by blast
  ultimately show ?thesis using rest(2) by (intro that [of ?s sq]) (simp_all add: w'_def send_server_def)
qed

lemma join_known:
  assumes db: "msg_ok (srv (world s))" "find_client_by_id (user_id (procs s p)) (srv (world s)) = Some c"
      "queue (clients (srv (world s)) ! c) = own_queue (procs s p)"
    and pc: "pc (procs s p) = Finding_to_join"
    and q: "of_type QUERY_RESPONSE (client_queues (world s) (own_queue (procs s p))) = [Query_res ans]"
      "of_type CONTROL_RESPONSE (client_queues (world s) (own_queue (procs s p))) = []" "of_type CONTROL (server_queue (world s)) = []"
    and g: "get_id_answer ans = int g" "g < length (grps (srv (world s)))"
  shows "let ms = group_members (grps (srv (world s)) ! g) in
     if length ms = 1024 then queue_chat_run env [Steps p t, Serves Control_handler] s = Inl Out_of_bounds
     else \<exists>s'. queue_chat_run env [Steps p t, Serves Control_handler, Steps p t] s = Inr s' \<and>
       pc (procs s' p) = Returned 0 \<and> group_members (grps (srv (world s')) ! g) = ms @ [c]"
proof -
  let ?k = "own_queue (procs s p)" and ?db = "srv (world s)" and ?jk = "client_junk env"
  let ?req = "\<lparr>queuepath = junk_path ?jk, c_name = junk_name ?jk, action = 2, c_src = user_id (procs s p), c_gid = int g\<rparr>"
  obtain s3 sq where s3: "queue_chat_step env (Steps p t) s = Inr s3" "srv (world s3) = ?db"
    "procs s3 = (procs s)(p := (procs s p)\<lparr>pc := Joining (int g)\<rparr>)"
    "msgrcv CONTROL (server_queue (world s3)) = Some (Control ?req, sq)"
    "of_type CONTROL_RESPONSE (client_queues (world s3) ?k) = of_type CONTROL_RESPONSE (client_queues (world s) ?k)"
    by (rule join_requests [OF pc g(1) q(1,3)]) (rule that)
  note join = handle_join [OF db(1,2) g(2), of "path_queue env" "junk_count env" "junk_group env" "junk_path ?jk" "junk_name ?jk"]
  show ?thesis
  proof (cases "length (group_members (grps ?db ! g)) = 1024")
    case True
    with join s3(1,2,4) show ?thesis by simp
  next
    case False
    let ?res = "\<lparr>r_action = 2, c_status = STATUS_OK, r_gid = junk_group env\<rparr>"
    from join False obtain db' where h: "handle_control (path_queue env) (junk_count env) (junk_group env) ?req ?db = Inr ((?k, ?res), db')"
      "group_members (grps db' ! g) = group_members (grps ?db ! g) @ [c]"
      unfolding db(3) by auto
    define s4 where "s4 = s3\<lparr>world := put_msgs ?k [Control_res ?res] ((world s3)\<lparr>srv := db', server_queue := sq\<rparr>)\<rparr>"
    have step4: "queue_chat_step env (Serves Control_handler) s3 = Inr s4" using s3(2,4) h(1) by (simp add: s4_def)
    have "of_type CONTROL_RESPONSE (client_queues (world s4) ?k) = [Control_res ?res]" using s3(5) q(2) by (simp add: s4_def put_msgs_def)
    from msgrcv_only [OF this] obtain rest where "msgrcv CONTROL_RESPONSE (client_queues (world s4) ?k) = Some (Control_res ?res, rest)" by blast
    then have "\<exists>s'. queue_chat_step env (Steps p t) s4 = Inr s' \<and> pc (procs s' p) = Returned 0 \<and> srv (world s') = db'"
      using s3(3) by (simp add: chat_client_step_def await_def join_answer_def s4_def put_msgs_def)
    with False s3(1) step4 h(2) show ?thesis by (auto simp: Let_def)
  qed
qed

section \<open>Two small systems\<close>

text \<open>Two users, of whom 1000 sends to 1001, who reads; \<open>ps\<close> is what the server's queue holds.\<close>

definition idle_client :: chat_client where
  "idle_client = \<lparr>user_id = 1002, user_name = ''c'', own_queue = 9, input = [], pc = Returned 0, said = [], seen = [], listed = []\<rparr>"



definition plain_env :: chat_env where
  "plain_env = \<lparr>path_queue = (\<lambda>_. None), junk_count = 0, junk_group = 0, junk_res = \<lparr>q_status = 0, r_content = []\<rparr>,
     client_junk = \<lparr>junk_path = [], junk_name = [], junk_gid = 0, junk_text = []\<rparr>\<rparr>"



definition one_joiner :: chat_system where
  "one_joiner = \<lparr>
     world = \<lparr>srv = \<lparr>clients = [\<lparr>cid = 1000, cname = ''a'', queue_path = ''/a/'', queue = 7, num_groups = 0\<rparr>],
               grps = [\<lparr>gid = 0, grp_name = ''os'', num_clients = 0, members = Map.empty\<rparr>], next_group_id = 1\<rparr>, server_queue = [],
              client_queues = (\<lambda>_. [])(7 := [Control_res \<lparr>r_action = 1, c_status = 200, r_gid = 0\<rparr>])\<rparr>,
     procs = (\<lambda>_. idle_client)(0 := \<lparr>user_id = 1000, user_name = ''a'', own_queue = 7, input = [],
       pc = Registering [''join-group'', ''os''], said = [], seen = [], listed = []\<rparr>)\<rparr>"

section \<open>Properties\<close>





text \<open>
  C20: \<open>join-group\<close> from end to end. A registered client that asks for a group by its name and then to join it
  returns 0 once both answers have come, and is then the last of the group's members; with the group's table
  of members full the server writes behind it, and without such a group the client returns -1 and the
  tables stay as they were.
\<close>

theorem join_command_joins:
  assumes "about_to_join n p c s" "n \<noteq> ''_ALL_''" "length n < 128"
  shows "case find_group_by_name n (srv (world s)) of
     None \<Rightarrow> \<exists>s'. queue_chat_run env [Steps p t, Serves Query_handler, Steps p t] s = Inr s' \<and>
       pc (procs s' p) = Returned (-1) \<and> srv (world s') = srv (world s)
   | Some g \<Rightarrow>
       let ms = group_members (grps (srv (world s)) ! g) in
       if length ms = 1024
       then queue_chat_run env [Steps p t, Serves Query_handler, Steps p t, Serves Control_handler] s = Inl Out_of_bounds
       else \<exists>s'. queue_chat_run env [Steps p t, Serves Query_handler, Steps p t, Serves Control_handler, Steps p t] s = Inr s' \<and>
         pc (procs s' p) = Returned 0 \<and> group_members (grps (srv (world s')) ! g) = ms @ [c]"
proof -
  let ?u = "procs s p" and ?db = "srv (world s)"
  obtain s2 ans where s2: "queue_chat_run env [Steps p t, Serves Query_handler] s = Inr s2" "srv (world s2) = ?db"
    "procs s2 = (procs s)(p := ?u\<lparr>pc := Finding_to_join\<rparr>)"
    "of_type QUERY_RESPONSE (client_queues (world s2) (own_queue ?u)) = [Query_res ans]"
    "of_type CONTROL_RESPONSE (client_queues (world s2) (own_queue ?u)) = []" "of_type CONTROL (server_queue (world s2)) = []"
    "get_id_answer ans = (case find_group_by_name n ?db of None \<Rightarrow> -1 | Some g \<Rightarrow> int g)"
    by (rule join_asks [OF assms]) (rule that)
  have after: "queue_chat_run env (Steps p t # Serves Query_handler # es) s = queue_chat_run env es s2" for es
    using s2(1) rfold_append [of "queue_chat_step env" "[Steps p t, Serves Query_handler]" es s] by simp
  have db: "msg_ok (srv (world s2))" "find_client_by_id (user_id (procs s2 p)) (srv (world s2)) = Some c"
    "queue (clients (srv (world s2)) ! c) = own_queue (procs s2 p)" "pc (procs s2 p) = Finding_to_join"
    using assms(1) s2(2,3) by (auto simp: about_to_join_def Let_def)
  have q: "of_type QUERY_RESPONSE (client_queues (world s2) (own_queue (procs s2 p))) = [Query_res ans]"
    "of_type CONTROL_RESPONSE (client_queues (world s2) (own_queue (procs s2 p))) = []"
    using s2(3-5) by simp_all
  show ?thesis
  proof (cases "find_group_by_name n ?db")
    case None
    with join_unknown [OF db(4) q(1), of env t] s2(2,7) show ?thesis unfolding after by (auto simp: rbind_Inr_iff)
  next
    case (Some g)
    have "g < length (grps (srv (world s2)))" using find_group_by_name_Some [OF Some] s2(2) by simp
    moreover have "get_id_answer ans = int g" using s2(7) Some by simp
    ultimately show ?thesis using join_known [OF db q s2(6), of g env t] Some s2(2) unfolding after by (simp add: Let_def)
  qed
qed

theorem join_command_joins_witness:
  "\<exists>s'. queue_chat_run plain_env [Steps 0 0, Serves Query_handler, Steps 0 0, Serves Control_handler, Steps 0 0] one_joiner = Inr s' \<and>
     pc (procs s' 0) = Returned 0 \<and> group_members (grps (srv (world s')) ! 0) = [0]"
proof -
  have "about_to_join ''os'' 0 0 one_joiner"
    by (simp add: about_to_join_def one_joiner_def msg_ok_def grp_ok_def find_client_by_id_def)
  moreover have "find_group_by_name ''os'' (srv (world one_joiner)) = Some 0" "group_members (grps (srv (world one_joiner)) ! 0) = []"
    by (simp_all add: one_joiner_def find_group_by_name_def group_members_def)
  ultimately show ?thesis using join_command_joins [of "''os''" 0 0 one_joiner plain_env 0] by simp
qed

end
