(* ===== verification/Spec2Isabelle.thy ===== *)
theory Spec2Isabelle
  imports Shell_Driver Shell_Fds Prefork Rtt_Whole Rtt_Hosts Cluster_System Group_Main Msg_System
begin

text \<open>
  A verification library for the network programming assignments of this repository: six C programs,
  modelled from their sources as functions and step relations of HOL.

  \<^bold>\<open>How the programs are modelled.\<close> The theory \<open>Prelude\<close> fixes the conventions. A C string is the list of its
  characters before the NUL; a function that ends the process or a thread, or does what C leaves undefined
  (a NULL or freed pointer, an index out of range, a copy that does not fit, an uninitialised value, signed
  overflow, a wait without end), returns \<open>Inl\<close> of a \<open>fault\<close>, anything else is \<open>Inr\<close>. A struct is a record, a
  tagged union a datatype. A linked list that is never shared is the list of its nodes; where pointers
  matter, in the workers of the preforking server and the groups of the group chat, it is a store of blocks
  (\<open>Linked_Store\<close>), in which \<open>free\<close> removes a block. What the system decides (the result of a call on a socket,
  what arrives and when, what a program run by the shell prints, the contents of uninitialised memory) is an
  argument of the definition that uses it. Threads and processes are steps on a common state, taken in any
  order; one iteration of a thread's loop is one step.

  \<^bold>\<open>The parts.\<close>

  \<^item> The shell, \<open>assignment-1/q1\<close>. \<open>Shell_Map\<close>: the hash table of short-cut commands (\<open>hash_map.c\<close>). \<open>Shell_Parse\<close>:
    the parser of commands, pipelines and short-cuts (\<open>shell.c\<close> to line 348, \<open>utils.c\<close>). \<open>Shell_Exec\<close>:
    \<open>executeCmdPipe\<close>, which runs a pipeline with the operators for one, two and three readers (\<open>shell.c\<close> from
    line 400). \<open>Shell_Fds\<close>: the descriptor numbers of the same function, and the helpers that print.
    \<open>Shell_Driver\<close>: the loop of \<open>driver.c\<close>, which reads lines and, after an interrupt, short-cuts.
  \<^item> The cluster shell, \<open>assignment-1/q2\<close>. \<open>Cluster_Parse\<close>: the configuration file and the splitting of a line
    into commands for machines (\<open>utils.c\<close>). \<open>Cluster_Server\<close>: the handler threads that register machines and
    run pipes across them (\<open>clustershell_server.c\<close>), relative to the contract \<open>cluster_node\<close> of the machines.
    \<open>Cluster_Client\<close>: the process that runs a request (\<open>clustershell_client.c\<close>) and meets that contract.
    \<open>Cluster_Main\<close>: the set-up of both programs and the two processes of a client, its user's shell and the child
    that serves requests, as labelled steps with their signals. \<open>Cluster_System\<close>: the server, the users' shells,
    the machines and the byte streams between them.
  \<^item> The message queue chat, \<open>assignment-1/q3\<close>. \<open>Msg_Server\<close>: tables of clients and groups and the four handlers
    of \<open>server.c\<close> on message queues. \<open>Msg_Client\<close>: requests, answers, routing and the message loops of
    \<open>client.c\<close>. \<open>Msg_Process\<close>: how both programs find their queues, and the client's \<open>main\<close> from one message
    it waits for to the next. \<open>Msg_System\<close>: the server's threads, all clients and their routing threads on
    common queues.
  \<^item> The RTT prober, \<open>assignment-2/q1\<close>. \<open>Rtt_Map\<close>: the table of hosts and its 64-bit hash (\<open>hash_map.c\<close>).
    \<open>Rtt_Queue\<close>: the queue of send jobs (\<open>queue.c\<close>). \<open>Rtt_Icmp\<close>: echo messages byte by byte, with their checksum
    (\<open>utils.c\<close>). \<open>Rtt_Main\<close>: set-up, sender and receivers (\<open>rtt.c\<close>). \<open>Rtt_Whole\<close>: the program from its arguments
    to the report and the clean-up. \<open>Rtt_Hosts\<close>: the tool that writes the list of addresses
    (\<open>get_ip_from_host.c\<close>).
  \<^item> The preforking server, \<open>assignment-2/q2\<close>. \<open>Prefork\<close>: the list of workers, the parent's reactions to their
    messages, the spawning of workers, the worker's loop, all of them together, and the signal handlers
    (\<open>prefork_server.c\<close>).
  \<^item> The group chat, \<open>assignment-2/q3\<close>. \<open>Group_Parse\<close>: command lines. \<open>Group_List\<close>: the list of joined groups.
    \<open>Group_Msg\<close>: looking for groups, texts and polls. \<open>Group_File\<close>: file transfers and lists of files
    (\<open>utils.c\<close>). \<open>Group_Main\<close>: the commands, the receiving code and the alarm of \<open>group_comm.c\<close>.

  \<^bold>\<open>Interfaces.\<close> Each locale states what a client relies on, and is interpreted on the model's definitions:
  \<open>assoc_store\<close> (\<open>Assoc_Store\<close>; the tables of the shell and of the prober), \<open>job_store\<close> (\<open>Rtt_Queue\<close>),
  \<open>block_links\<close> (\<open>Linked_Store\<close>; workers and groups), \<open>cluster_node\<close> (\<open>Cluster_Server\<close>; the client program) and
  \<open>group_service\<close> (\<open>Msg_Client\<close>; the server of the message queue chat).

  \<^bold>\<open>What the theorems show.\<close> Refinement: the table of short-cuts is a finite map, the workers and the groups are
  the lists their specifications describe, a pipeline prints the composition of its programs, also across
  machines, a session of several users on the cluster is the execution of their commands one after the
  other, a line sent to a group of the message queue chat reaches every member unchanged, and the three
  queues a private line passes through are one queue. Equivalence: the descriptor numbers of a pipeline give
  each child the plumbing of \<open>Shell_Exec\<close>. Invariants: of the shell's session, of the server with its workers,
  of the prober without losses, of the cluster's connections, of the tables of the message queue chat and of
  every run of the group chat. Typing: a parsed command of the group chat never overflows an array. Round
  trips: printed commands are parsed back, a short-cut runs what was stored, an echo reply yields the time of
  its request, a short text file arrives as it was, a generated list of addresses is read back. Termination
  and liveness: spawning ends with enough workers, queries are answered, private lines and the answers to
  lines of the cluster shell arrive. Safety and bounds: the two processes of a cluster client end together,
  clients and server of the message queue chat find the same queues. The remaining theorems show where the
  programs fail: which inputs make them read or write out of bounds, use freed or NULL memory, or end.

  \<^bold>\<open>Bounds and fuel.\<close> Array sizes are those of the code (\<open>MAX_NUM\<close> is its \<open>MAX\<close>). The loops along a list of groups
  take the number of blocks ever allocated as fuel: a list without repetition is not longer
  (\<open>chat_ok_length\<close>), so a loop that runs out of it would not end and is \<open>Blocked\<close>. A loop that waits for
  events returns \<open>Blocked\<close> when none are left; in \<open>Msg_System\<close> a client that waits is left as it is, so that
  another step may bring its message. Integers are unbounded where the code cannot overflow them and
  checked by \<open>cint\<close> or kept as words where it can.

  \<^bold>\<open>What is not modelled.\<close> Interleavings inside one iteration of a thread; a signal in the middle of a step of the
  parent of the preforking server, and the group chat's alarm in the middle of a command; partial reads of the
  messages of a file transfer; in the cluster shell, a handler of the server answers a line in one step, reads
  return everything written, and a write to a connection the other side has closed does not end the writer;
  in the message queue chat, the files stay as they are once the clients have started, and the queue of the
  server is never that of a client. The text of error messages and of progress reports is left out unless a
  user reads results from it.
\<close>

end
